(* ===== verification/Prelude.thy ===== *)
theory Prelude
  imports Main "HOL-Library.Word"
begin

text \<open>
  Shared vocabulary of the development: outcomes of fallible Rust code, bounds-checked
  access to slices, \<open>usize\<close> arithmetic, and the big- and little-endian byte encodings of
  machine integers. The collections \<open>result_simps\<close> and \<open>panic_free\<close> gather the facts the
  component theories feed to the simplifier.
\<close>

unbundle bit_operations_syntax

named_theorems result_simps
  \<open>how the combinators on results behave on a result that is known\<close>
named_theorems panic_free
  \<open>operations that never end in a panic\<close>

subsection \<open>Outcomes\<close>

text \<open>
  A Rust function of type \<open>Result<T, E>\<close> returns \<open>Ok\<close> or \<open>Err\<close>. \<open>Panic\<close> stands for a run
  that unwinds instead of returning: an index or a slice out of range, or an arithmetic
  overflow (which the debug profile checks).
\<close>

datatype ('a, 'e) result = Ok 'a | Err 'e | Panic

text \<open>The \<open>?\<close> operator: go on with the value of an \<open>Ok\<close>, return everything else.\<close>

fun and_then :: "('a, 'e) result \<Rightarrow> ('a \<Rightarrow> ('b, 'e) result) \<Rightarrow> ('b, 'e) result" where
  "and_then (Ok x) f = f x"
| "and_then (Err e) f = Err e"
| "and_then Panic f = Panic"

text \<open>\<open>Option::ok_or_else\<close>, \<open>Result::map\<close> and \<open>Result::map_err\<close>.\<close>

fun ok_or :: "'e \<Rightarrow> 'a option \<Rightarrow> ('a, 'e) result" where
  "ok_or e None = Err e"
| "ok_or e (Some x) = Ok x"

fun map_ok :: "('a \<Rightarrow> 'b) \<Rightarrow> ('a, 'e) result \<Rightarrow> ('b, 'e) result" where
  "map_ok f (Ok x) = Ok (f x)"
| "map_ok f (Err e) = Err e"
| "map_ok f Panic = Panic"

fun is_ok :: "('a, 'e) result \<Rightarrow> bool" where
  "is_ok (Ok x) = True"
| "is_ok r = False"

fun is_err :: "('a, 'e) result \<Rightarrow> bool" where
  "is_err (Err x) = True"
| "is_err r = False"

lemma and_then_cong [fundef_cong]:
  assumes "r = s" and "\<And>x. s = Ok x \<Longrightarrow> f x = g x"
  shows "and_then r f = and_then s g"
  using assms by (cases s) auto

lemma and_then_eq_Ok [simp, result_simps]:
  "and_then r f = Ok y \<longleftrightarrow> (\<exists>x. r = Ok x \<and> f x = Ok y)"
  by (cases r) auto

lemma and_then_eq_Err [result_simps]:
  "and_then r f = Err e \<longleftrightarrow> r = Err e \<or> (\<exists>x. r = Ok x \<and> f x = Err e)"
  by (cases r) auto

lemma and_then_eq_Panic [result_simps]:
  "and_then r f = Panic \<longleftrightarrow> r = Panic \<or> (\<exists>x. r = Ok x \<and> f x = Panic)"
  by (cases r) auto

lemma and_then_no_panic [panic_free]:
  assumes "r \<noteq> Panic" and "\<And>x. r = Ok x \<Longrightarrow> f x \<noteq> Panic"
  shows "and_then r f \<noteq> Panic"
  using assms by (cases r) auto

lemma ok_or_eq_Ok [simp]: "ok_or e m = Ok x \<longleftrightarrow> m = Some x"
  by (cases m) auto

lemma ok_or_no_panic [simp, panic_free]: "ok_or e m \<noteq> Panic"
  by (cases m) auto

lemma map_ok_eq_Ok [simp]: "map_ok f r = Ok y \<longleftrightarrow> (\<exists>x. r = Ok x \<and> y = f x)"
  by (cases r) auto

lemma map_ok_eq_Panic [simp]: "map_ok f r = Panic \<longleftrightarrow> r = Panic"
  by (cases r) auto

lemma is_ok_iff: "is_ok r \<longleftrightarrow> (\<exists>x. r = Ok x)"
  by (cases r) auto

lemma is_err_iff: "is_err r \<longleftrightarrow> (\<exists>e. r = Err e)"
  by (cases r) auto

text \<open>\<open>Result::map_err\<close>, \<open>Result::ok\<close> and \<open>unwrap_or\<close>.\<close>

fun map_err :: "('e \<Rightarrow> 'f) \<Rightarrow> ('a, 'e) result \<Rightarrow> ('a, 'f) result" where
  "map_err f (Ok x) = Ok x"
| "map_err f (Err e) = Err (f e)"
| "map_err f Panic = Panic"

lemma map_err_eq_Ok [simp]: "map_err f r = Ok x \<longleftrightarrow> r = Ok x"
  by (cases r) auto

lemma map_err_eq_Panic [simp]: "map_err f r = Panic \<longleftrightarrow> r = Panic"
  by (cases r) auto

fun unwrap_or :: "'a \<Rightarrow> ('a, 'e) result \<Rightarrow> 'a" where
  "unwrap_or d (Ok x) = x"
| "unwrap_or d _ = d"

text \<open>
  What a worker thread does: it reports a result after some seconds, it dies in a panic after some
  seconds, or it never comes back from a call.
\<close>

datatype ('a, 'e) worker = Reports nat "('a, 'e) result" | Dies nat | Hangs

fun worker_of :: "nat \<Rightarrow> ('a, 'e) result \<Rightarrow> ('a, 'e) worker" where
  "worker_of t Panic = Dies t"
| "worker_of t r = Reports t r"

subsection \<open>Bytes, slices and \<open>usize\<close>\<close>

type_synonym byte = "8 word"

text \<open>
  A \<open>usize\<close> is a natural number bounded by \<open>usize::MAX\<close>, which is an argument (\<open>um\<close>) of the
  operations that can reach it, because the code runs on 32-bit and on 64-bit targets.
  \<open>uadd\<close> is the plain \<open>+\<close>, whose overflow panics in the debug profile; \<open>checked_add\<close> is the
  method of that name.
\<close>

definition uadd :: "nat \<Rightarrow> nat \<Rightarrow> nat \<Rightarrow> (nat, 'e) result" where
  "uadd um a b = (if a + b \<le> um then Ok (a + b) else Panic)"

definition umul :: "nat \<Rightarrow> nat \<Rightarrow> nat \<Rightarrow> (nat, 'e) result" where
  "umul um a b = (if a * b \<le> um then Ok (a * b) else Panic)"

definition checked_add :: "nat \<Rightarrow> nat \<Rightarrow> nat \<Rightarrow> nat option" where
  "checked_add um a b = (if a + b \<le> um then Some (a + b) else None)"

lemma uadd_eq_Ok [simp]: "uadd um a b = Ok c \<longleftrightarrow> a + b \<le> um \<and> c = a + b"
  by (auto simp: uadd_def)

lemma uadd_not_Err [simp]: "uadd um a b \<noteq> Err e"
  by (simp add: uadd_def)

lemma uadd_eq_Panic [simp]: "uadd um a b = Panic \<longleftrightarrow> um < a + b"
  by (auto simp: uadd_def)

lemma umul_eq_Ok [simp]: "umul um a b = Ok c \<longleftrightarrow> c = a * b \<and> a * b \<le> um"
  by (auto simp: umul_def)

lemma umul_not_Err [simp]: "umul um a b \<noteq> Err e"
  by (simp add: umul_def)

lemma umul_eq_Panic [simp]: "umul um a b = Panic \<longleftrightarrow> um < a * b"
  by (auto simp: umul_def)

lemma checked_add_eq_Some [simp]:
  "checked_add um a b = Some c \<longleftrightarrow> a + b \<le> um \<and> c = a + b"
  by (auto simp: checked_add_def)

lemma checked_add_eq_None [simp]: "checked_add um a b = None \<longleftrightarrow> um < a + b"
  by (auto simp: checked_add_def)

text \<open>
  The largest allocation of a Rust program is \<open>isize::MAX\<close> bytes, so a slice that exists
  is no longer than half of \<open>usize::MAX\<close>; and \<open>usize\<close> has at least 32 bits on the targets of
  this code, so a \<open>u32\<close> converts to it without loss.
\<close>

definition slice_ok :: "nat \<Rightarrow> byte list \<Rightarrow> bool" where
  "slice_ok um data \<longleftrightarrow> length data \<le> um div 2 \<and> 2 ^ 32 - 1 \<le> um"

abbreviation usize_max_32 :: nat where "usize_max_32 \<equiv> 2 ^ 32 - 1"
abbreviation usize_max_64 :: nat where "usize_max_64 \<equiv> 2 ^ 64 - 1"

text \<open>\<open>data[i]\<close> and \<open>data[a..b]\<close>, which panic out of range, and \<open>data.get(i)\<close>.\<close>

definition index :: "'a list \<Rightarrow> nat \<Rightarrow> ('a, 'e) result" where
  "index xs i = (if i < length xs then Ok (xs ! i) else Panic)"

definition get :: "'a list \<Rightarrow> nat \<Rightarrow> 'a option" where
  "get xs i = (if i < length xs then Some (xs ! i) else None)"

definition slice :: "'a list \<Rightarrow> nat \<Rightarrow> nat \<Rightarrow> ('a list, 'e) result" where
  "slice xs a b = (if a \<le> b \<and> b \<le> length xs then Ok (take (b - a) (drop a xs)) else Panic)"

lemma index_eq_Ok [simp]: "index xs i = Ok x \<longleftrightarrow> i < length xs \<and> x = xs ! i"
  by (auto simp: index_def)

lemma index_eq_Panic [simp]: "index xs i = Panic \<longleftrightarrow> length xs \<le> i"
  by (auto simp: index_def)

lemma index_not_Err [simp]: "index xs i \<noteq> Err e"
  by (simp add: index_def)

lemma get_eq_Some [simp]: "get xs i = Some x \<longleftrightarrow> i < length xs \<and> x = xs ! i"
  by (auto simp: get_def)

lemma get_eq_None [simp]: "get xs i = None \<longleftrightarrow> length xs \<le> i"
  by (auto simp: get_def)

lemma slice_eq_Ok:
  "slice xs a b = Ok ys \<longleftrightarrow> a \<le> b \<and> b \<le> length xs \<and> ys = take (b - a) (drop a xs)"
  by (auto simp: slice_def)

lemma slice_eq_Panic [simp]: "slice xs a b = Panic \<longleftrightarrow> \<not> (a \<le> b \<and> b \<le> length xs)"
  by (auto simp: slice_def)

lemma slice_not_Err [simp]: "slice xs a b \<noteq> Err e"
  by (simp add: slice_def)

lemma slice_length: "slice xs a b = Ok ys \<Longrightarrow> length ys = b - a"
  by (auto simp: slice_eq_Ok)

lemma slice_middle [simp]:
  "slice (pre @ ys @ post) (length pre) (length pre + length ys) = Ok ys"
  by (simp add: slice_def)

lemma get_middle [simp]: "get (pre @ y # post) (length pre) = Some y"
  by (simp add: get_def)

lemma index_middle [simp]: "index (pre @ y # post) (length pre) = Ok y"
  by (simp add: index_def)

text \<open>\<open>iter().position(...)\<close>: the first index at which a predicate holds.\<close>

fun position :: "('a \<Rightarrow> bool) \<Rightarrow> 'a list \<Rightarrow> nat option" where
  "position P [] = None"
| "position P (x # xs) = (if P x then Some 0 else map_option Suc (position P xs))"

lemma position_less: "position P xs = Some i \<Longrightarrow> i < length xs \<and> P (xs ! i)"
  by (induction xs arbitrary: i) (auto split: if_splits)

lemma position_first: "position P xs = Some i \<Longrightarrow> j < i \<Longrightarrow> \<not> P (xs ! j)"
  by (induction xs arbitrary: i j) (auto split: if_splits simp: nth_Cons')

lemma position_append: "\<forall>x \<in> set xs. \<not> P x \<Longrightarrow> P y \<Longrightarrow> position P (xs @ y # zs) = Some (length xs)"
  by (induction xs) auto

lemma position_None: "position P xs = None \<longleftrightarrow> (\<forall>x \<in> set xs. \<not> P x)"
  by (induction xs) auto

lemma position_map: "position P (map f xs) = position (P \<circ> f) xs"
  by (induction xs) auto

lemma position_spec:
  "case position P xs of
     Some i \<Rightarrow> i < length xs \<and> P (xs ! i) \<and> list_all (\<lambda>x. \<not> P x) (take i xs)
   | None \<Rightarrow> list_all (\<lambda>x. \<not> P x) xs"
proof (cases "position P xs")
  case None
  then have "\<forall>x \<in> set xs. \<not> P x" by (simp only: position_None)
  with None show ?thesis by (simp add: list_all_iff)
next
  case (Some i)
  with position_less [OF Some] position_first [OF Some] show ?thesis
    by (auto simp: list_all_iff in_set_conv_nth)
qed

subsection \<open>Byte encodings of machine integers\<close>

fun be_bytes :: "nat \<Rightarrow> nat \<Rightarrow> byte list" where
  "be_bytes 0 v = []"
| "be_bytes (Suc n) v = be_bytes n (v div 256) @ [word_of_nat (v mod 256)]"

definition be_nat :: "byte list \<Rightarrow> nat" where
  "be_nat bs = foldl (\<lambda>acc b. acc * 256 + unat b) 0 bs"

lemma length_be_bytes [simp]: "length (be_bytes n v) = n"
  by (induction n arbitrary: v) auto

lemma be_nat_Nil [simp]: "be_nat [] = 0"
  by (simp add: be_nat_def)

lemma be_nat_snoc [simp]: "be_nat (bs @ [b]) = be_nat bs * 256 + unat b"
  by (simp add: be_nat_def)

lemma unat_less_pow: "unat (w :: 'a::len word) < 2 ^ LENGTH('a)"
  by (rule unsigned_less)

lemma unat_byte_less [simp]: "unat (b :: byte) < 256"
  using unat_less_pow [of b] by simp

lemma unat_u32_less [simp]: "unat (w :: 32 word) < 4294967296"
  using unat_less_pow [of w] by simp

lemma unat_byte_of_mod [simp]: "unat (word_of_nat (v mod 256) :: byte) = v mod 256"
  by (simp add: unat_of_nat)

lemma be_nat_be_bytes [simp]: "be_nat (be_bytes n v) = v mod 256 ^ n"
proof (induction n arbitrary: v)
  case 0
  then show ?case by simp
next
  case (Suc n)
  have "v mod (256 * 256 ^ n) = 256 * (v div 256 mod 256 ^ n) + v mod 256"
    by (simp add: mod_mult2_eq)
  with Suc show ?case by simp
qed

lemma be_nat_bound: "be_nat bs < 256 ^ length bs"
proof (induction bs rule: rev_induct)
  case Nil
  then show ?case by simp
next
  case (snoc b bs)
  have "be_nat bs * 256 + unat b < (be_nat bs + 1) * 256"
    using unat_byte_less [of b] by simp
  also have "\<dots> \<le> 256 ^ length bs * 256"
    using snoc by (simp add: Suc_le_eq)
  finally show ?case by simp
qed

lemma be_bytes_be_nat: "length bs = n \<Longrightarrow> be_bytes n (be_nat bs) = bs"
proof (induction bs arbitrary: n rule: rev_induct)
  case Nil
  then show ?case by simp
next
  case (snoc b bs)
  have "(be_nat bs * 256 + unat b) div 256 = be_nat bs"
    and "(be_nat bs * 256 + unat b) mod 256 = unat b"
    by (simp_all add: div_less mod_less)
  with snoc show ?case by auto
qed

text \<open>\<open>to_be_bytes\<close> and \<open>from_be_bytes\<close> of the integer types, and their little-endian twins.\<close>

definition to_be :: "nat \<Rightarrow> 'a::len word \<Rightarrow> byte list" where
  "to_be n w = be_bytes n (unat w)"

definition from_be :: "byte list \<Rightarrow> 'a::len word" where
  "from_be bs = word_of_nat (be_nat bs)"

definition to_le :: "nat \<Rightarrow> 'a::len word \<Rightarrow> byte list" where
  "to_le n w = rev (to_be n w)"

definition from_le :: "byte list \<Rightarrow> 'a::len word" where
  "from_le bs = from_be (rev bs)"

lemma length_to_be [simp]: "length (to_be n w) = n"
  by (simp add: to_be_def)

lemma length_to_le [simp]: "length (to_le n w) = n"
  by (simp add: to_le_def)

lemma from_be_to_be:
  fixes w :: "'a::len word"
  assumes "2 ^ LENGTH('a) \<le> (256::nat) ^ n"
  shows "(from_be (to_be n w) :: 'a word) = w"
proof -
  have "unat w < 256 ^ n"
    using unat_less_pow [of w] assms by linarith
  then show ?thesis
    by (simp add: from_be_def to_be_def)
qed

lemma from_be_to_be_16 [simp]: "from_be (to_be 2 (w :: 16 word)) = w"
  by (rule from_be_to_be) simp

lemma from_be_to_be_32 [simp]: "from_be (to_be 4 (w :: 32 word)) = w"
  by (rule from_be_to_be) simp

lemma from_be_to_be_64 [simp]: "from_be (to_be 8 (w :: 64 word)) = w"
  by (rule from_be_to_be) simp

lemma from_le_to_le_32 [simp]: "from_le (to_le 4 (w :: 32 word)) = w"
  by (simp add: from_le_def to_le_def)

lemma from_le_to_le_16 [simp]: "from_le (to_le 2 (w :: 16 word)) = w"
  by (simp add: from_le_def to_le_def)

lemma to_be_from_be_16: "length bs = 2 \<Longrightarrow> to_be 2 (from_be bs :: 16 word) = bs"
  using be_nat_bound [of bs] by (simp add: to_be_def from_be_def unat_of_nat be_bytes_be_nat)

lemma to_be_from_be_32: "length bs = 4 \<Longrightarrow> to_be 4 (from_be bs :: 32 word) = bs"
  using be_nat_bound [of bs] by (simp add: to_be_def from_be_def unat_of_nat be_bytes_be_nat)

lemma to_be_from_be_64: "length bs = 8 \<Longrightarrow> to_be 8 (from_be bs :: 64 word) = bs"
  using be_nat_bound [of bs] by (simp add: to_be_def from_be_def unat_of_nat be_bytes_be_nat)

text \<open>The value of a length that fits its field survives the truncating cast to the field.\<close>

lemma unat_word_of_nat_32 [simp]: "n < 2 ^ 32 \<Longrightarrow> unat (word_of_nat n :: 32 word) = n"
  by (simp add: unat_of_nat)

lemma unat_word_of_nat_16 [simp]: "n < 2 ^ 16 \<Longrightarrow> unat (word_of_nat n :: 16 word) = n"
  by (simp add: unat_of_nat)

subsection \<open>Saturating arithmetic\<close>

definition saturating_add :: "'a::len word \<Rightarrow> 'a word \<Rightarrow> 'a word" where
  "saturating_add a b = (if unat a + unat b < 2 ^ LENGTH('a) then a + b else - 1)"

definition saturating_sub :: "'a::len word \<Rightarrow> 'a word \<Rightarrow> 'a word" where
  "saturating_sub a b = (if b \<le> a then a - b else 0)"

definition saturating_mul :: "'a::len word \<Rightarrow> 'a word \<Rightarrow> 'a word" where
  "saturating_mul a b = (if unat a * unat b < 2 ^ LENGTH('a) then a * b else - 1)"

lemma unat_saturating_mul:
  fixes a b :: "'a::len word"
  shows "unat (saturating_mul a b) = min (unat a * unat b) (2 ^ LENGTH('a) - 1)"
proof (cases "unat a * unat b < 2 ^ LENGTH('a)")
  case True
  then show ?thesis
    by (simp add: saturating_mul_def unat_mult_lem [THEN iffD1] min_absorb1)
next
  case False
  then show ?thesis
    by (simp add: saturating_mul_def unsigned_minus_1_eq_mask mask_eq_exp_minus_1 min_absorb2)
qed

lemma unat_saturating_sub:
  fixes a b :: "'a::len word"
  shows "unat (saturating_sub a b) = unat a - unat b"
proof (cases "b \<le> a")
  case True
  then show ?thesis
    by (simp add: saturating_sub_def unat_sub)
next
  case False
  then show ?thesis
    by (simp add: saturating_sub_def word_le_nat_alt)
qed

end
