(* ===== verification/Utf8.thy ===== *)
theory Utf8
  imports Prelude
begin

text \<open>
  Rust strings. A \<open>String\<close> or \<open>&str\<close> is a sequence of bytes that is valid UTF-8; the model
  keeps exactly those bytes (\<open>as_bytes\<close> and \<open>len\<close> then cost nothing) and \<open>utf8_decode\<close> is the
  strict decoder of \<open>core::str::from_utf8\<close> and \<open>chars\<close>: it refuses overlong forms,
  surrogates and values above the last scalar value.
\<close>

type_synonym rstring = "byte list"

text \<open>\<open>char::from_u32\<close> accepts the Unicode scalar values.\<close>

definition is_scalar :: "nat \<Rightarrow> bool" where
  "is_scalar c \<longleftrightarrow> c < 0xD800 \<or> (0xE000 \<le> c \<and> c \<le> 0x10FFFF)"

definition is_cont :: "byte \<Rightarrow> bool" where
  "is_cont b \<longleftrightarrow> 0x80 \<le> b \<and> b \<le> 0xBF"

text \<open>The payload bits of a continuation byte.\<close>

definition cont_bits :: "byte \<Rightarrow> nat" where
  "cont_bits b = unat b - 0x80"

text \<open>
  One character and the bytes after it. The ranges of the second byte are those of the
  well-formedness table of the Unicode standard, which is what the Rust library checks.
\<close>

fun utf8_next :: "byte list \<Rightarrow> (nat \<times> byte list) option" where
  "utf8_next [] = None"
| "utf8_next (b0 # r) =
     (if b0 < 0x80 then Some (unat b0, r)
      else if 0xC2 \<le> b0 \<and> b0 \<le> 0xDF then
        (case r of b1 # r1 \<Rightarrow>
           if is_cont b1 then Some ((unat b0 - 0xC0) * 64 + cont_bits b1, r1) else None
         | [] \<Rightarrow> None)
      else if 0xE0 \<le> b0 \<and> b0 \<le> 0xEF then
        (case r of b1 # b2 # r2 \<Rightarrow>
           if (if b0 = 0xE0 then 0xA0 \<le> b1 \<and> b1 \<le> 0xBF
               else if b0 = 0xED then 0x80 \<le> b1 \<and> b1 \<le> 0x9F else is_cont b1)
              \<and> is_cont b2
           then Some (((unat b0 - 0xE0) * 64 + cont_bits b1) * 64 + cont_bits b2, r2) else None
         | _ \<Rightarrow> None)
      else if 0xF0 \<le> b0 \<and> b0 \<le> 0xF4 then
        (case r of b1 # b2 # b3 # r3 \<Rightarrow>
           if (if b0 = 0xF0 then 0x90 \<le> b1 \<and> b1 \<le> 0xBF
               else if b0 = 0xF4 then 0x80 \<le> b1 \<and> b1 \<le> 0x8F else is_cont b1)
              \<and> is_cont b2 \<and> is_cont b3
           then Some ((((unat b0 - 0xF0) * 64 + cont_bits b1) * 64 + cont_bits b2) * 64
                        + cont_bits b3, r3) else None
         | _ \<Rightarrow> None)
      else None)"

lemma utf8_next_shorter: "utf8_next bs = Some (c, r) \<Longrightarrow> length r < length bs"
  by (cases bs) (auto split: if_splits list.splits)

function utf8_decode :: "byte list \<Rightarrow> nat list option" where
  "utf8_decode bs =
     (if bs = [] then Some []
      else case utf8_next bs of None \<Rightarrow> None
        | Some (c, r) \<Rightarrow> (case utf8_decode r of None \<Rightarrow> None | Some cs \<Rightarrow> Some (c # cs)))"
  by pat_completeness auto
termination
  by (relation "measure length") (auto dest: utf8_next_shorter)

declare utf8_decode.simps [simp del]

definition utf8_valid :: "byte list \<Rightarrow> bool" where
  "utf8_valid bs \<longleftrightarrow> utf8_decode bs \<noteq> None"

lemma utf8_decode_Nil [simp]: "utf8_decode [] = Some []"
  by (simp add: utf8_decode.simps)

lemma utf8_decode_Cons:
  "utf8_decode (b # bs) =
     (case utf8_next (b # bs) of None \<Rightarrow> None
      | Some (c, r) \<Rightarrow> (case utf8_decode r of None \<Rightarrow> None | Some cs \<Rightarrow> Some (c # cs)))"
  by (subst utf8_decode.simps) simp

text \<open>ASCII text is valid and its characters are its bytes.\<close>

lemma utf8_decode_ascii: "\<forall>b \<in> set bs. b < 0x80 \<Longrightarrow> utf8_decode bs = Some (map unat bs)"
  by (induction bs) (auto simp: utf8_decode_Cons)

lemma utf8_valid_ascii: "\<forall>b \<in> set bs. b < 0x80 \<Longrightarrow> utf8_valid bs"
  by (simp add: utf8_valid_def utf8_decode_ascii)

lemma utf8_valid_Nil [simp]: "utf8_valid []"
  by (simp add: utf8_valid_def)

text \<open>Every decoded character is a scalar value.\<close>

lemma byte_le_unat: "(a :: byte) \<le> b \<longleftrightarrow> unat a \<le> unat b"
  by (rule word_le_nat_alt)

lemma byte_less_unat: "(a :: byte) < b \<longleftrightarrow> unat a < unat b"
  by (rule word_less_nat_alt)

lemma byte_eq_unat: "(a :: byte) = b \<longleftrightarrow> unat a = unat b"
  by (rule word_unat_eq_iff)

lemma utf8_next_scalar: "utf8_next bs = Some (c, r) \<Longrightarrow> is_scalar c"
  by (cases bs)
    (auto simp: is_scalar_def is_cont_def cont_bits_def byte_le_unat byte_less_unat byte_eq_unat
      split: if_splits list.splits, linarith+)

lemma utf8_decode_scalars:
  "utf8_decode bs = Some cs \<Longrightarrow> c \<in> set cs \<Longrightarrow> is_scalar c"
proof (induction bs arbitrary: cs rule: utf8_decode.induct)
  case (1 bs)
  show ?case
  proof (cases "bs = []")
    case True
    with "1.prems" show ?thesis by simp
  next
    case False
    with "1.prems" obtain c0 r cs0 where n: "utf8_next bs = Some (c0, r)"
      and d: "utf8_decode r = Some cs0" and cs: "cs = c0 # cs0"
      by (subst (asm) utf8_decode.simps) (auto split: option.splits)
    from cs "1.prems" have "c = c0 \<or> c \<in> set cs0" by simp
    with n d show ?thesis
      using "1.IH" [OF False n refl d] by (auto dest: utf8_next_scalar)
  qed
qed

subsection \<open>Lossy conversion\<close>

text \<open>
  \<open>to_string_lossy\<close>: what is not a character becomes the replacement character, one for each
  longest prefix of a character.
\<close>

fun bad_len :: "byte list \<Rightarrow> nat" where
  "bad_len (b0 # b1 # r) =
     (if 0xE0 \<le> b0 \<and> b0 \<le> 0xEF then
        (if (if b0 = 0xE0 then 0xA0 \<le> b1 \<and> b1 \<le> 0xBF
             else if b0 = 0xED then 0x80 \<le> b1 \<and> b1 \<le> 0x9F else is_cont b1) then 2 else 1)
      else if 0xF0 \<le> b0 \<and> b0 \<le> 0xF4 then
        (if (if b0 = 0xF0 then 0x90 \<le> b1 \<and> b1 \<le> 0xBF
             else if b0 = 0xF4 then 0x80 \<le> b1 \<and> b1 \<le> 0x8F else is_cont b1)
         then (case r of b2 # _ \<Rightarrow> if is_cont b2 then 3 else 2 | [] \<Rightarrow> 2) else 1)
      else 1)"
| "bad_len bs = 1"

lemma bad_len_pos: "0 < bad_len bs"
  by (cases bs rule: bad_len.cases) (auto split: list.splits)

function utf8_lossy :: "byte list \<Rightarrow> rstring" where
  "utf8_lossy bs =
     (if bs = [] then []
      else case utf8_next bs of
          Some (c, r) \<Rightarrow> take (length bs - length r) bs @ utf8_lossy r
        | None \<Rightarrow> [0xEF, 0xBF, 0xBD] @ utf8_lossy (drop (bad_len bs) bs))"
  by pat_completeness auto
termination
  by (relation "measure length") (auto dest: utf8_next_shorter simp: bad_len_pos)

declare utf8_lossy.simps [simp del]

lemma utf8_next_suffix: "utf8_next bs = Some (c, r) \<Longrightarrow> bs = take (length bs - length r) bs @ r"
  by (cases bs) (auto split: if_splits list.splits simp: Suc_diff_le)

lemma utf8_lossy_valid: "utf8_valid bs \<Longrightarrow> utf8_lossy bs = bs"
proof (induction bs rule: utf8_decode.induct)
  case (1 bs)
  show ?case
  proof (cases "bs = []")
    case True
    then show ?thesis by (simp add: utf8_lossy.simps)
  next
    case False
    with "1.prems" obtain c r where n: "utf8_next bs = Some (c, r)" and v: "utf8_valid r"
      unfolding utf8_valid_def by (subst (asm) utf8_decode.simps) (auto split: option.splits)
    have "utf8_lossy r = r" by (rule "1.IH" [OF False n refl v])
    with False n utf8_next_suffix [OF n] show ?thesis
      by (subst utf8_lossy.simps) simp
  qed
qed

subsection \<open>Characters\<close>

text \<open>The characters of a valid string, each with its bytes, and \<open>char::is_whitespace\<close>.\<close>

function utf8_chars :: "byte list \<Rightarrow> (nat \<times> byte list) list" where
  "utf8_chars bs =
     (case utf8_next bs of None \<Rightarrow> []
      | Some (c, r) \<Rightarrow> (c, take (length bs - length r) bs) # utf8_chars r)"
  by pat_completeness auto
termination
  by (relation "measure length") (auto dest: utf8_next_shorter)

declare utf8_chars.simps [simp del]

definition is_whitespace :: "nat \<Rightarrow> bool" where
  "is_whitespace c \<longleftrightarrow> (9 \<le> c \<and> c \<le> 13) \<or> c = 32 \<or> c = 0x85 \<or> c = 0xA0 \<or> c = 0x1680 \<or>
     (0x2000 \<le> c \<and> c \<le> 0x200A) \<or> c = 0x2028 \<or> c = 0x2029 \<or> c = 0x202F \<or> c = 0x205F \<or> c = 0x3000"

abbreviation space :: "nat \<times> byte list \<Rightarrow> bool" where "space p \<equiv> is_whitespace (fst p)"

definition text_of :: "(nat \<times> byte list) list \<Rightarrow> rstring" where
  "text_of cs = concat (map snd cs)"

text \<open>\<open>str::trim\<close> and \<open>str::split_whitespace\<close>.\<close>

definition trim :: "rstring \<Rightarrow> rstring" where
  "trim s = text_of (rev (dropWhile space (rev (dropWhile space (utf8_chars s)))))"

function words_of :: "(nat \<times> byte list) list \<Rightarrow> (nat \<times> byte list) list list" where
  "words_of cs =
     (let cs = dropWhile space cs
      in if cs = [] then [] else takeWhile (\<lambda>p. \<not> space p) cs # words_of (dropWhile (\<lambda>p. \<not> space p) cs))"
  by pat_completeness auto
termination
proof (relation "measure length")
  fix cs x :: "(nat \<times> byte list) list"
  assume x: "x = dropWhile space cs" and ne: "x \<noteq> []"
  then have "\<not> space (hd x)" using hd_dropWhile [of space cs] by metis
  with ne have "length (dropWhile (\<lambda>p. \<not> space p) x) < length x"
    by (cases x) (auto simp: length_dropWhile_le le_imp_less_Suc)
  also have "length x \<le> length cs" by (simp add: x length_dropWhile_le)
  finally show "(dropWhile (\<lambda>p. \<not> space p) x, cs) \<in> measure length" by simp
qed simp

declare words_of.simps [simp del]

definition split_whitespace :: "rstring \<Rightarrow> rstring list" where
  "split_whitespace s = map text_of (words_of (utf8_chars s))"

text \<open>\<open>strip_prefix\<close>, \<open>split_once\<close> on an ASCII character, and the decimal digits of a number.\<close>

definition strip_prefix :: "byte list \<Rightarrow> rstring \<Rightarrow> rstring option" where
  "strip_prefix p s = (if take (length p) s = p then Some (drop (length p) s) else None)"

definition split_once :: "byte \<Rightarrow> rstring \<Rightarrow> (rstring \<times> rstring) option" where
  "split_once c s = map_option (\<lambda>i. (take i s, drop (i + 1) s)) (position ((=) c) s)"

fun decimal :: "nat \<Rightarrow> rstring" where
  "decimal n = (if n < 10 then [word_of_nat (48 + n)] else decimal (n div 10) @ [word_of_nat (48 + n mod 10)])"

declare decimal.simps [simp del]

end
