(* ===== verification/Osc_Encode.thy ===== *)
theory Osc_Encode
  imports Utf8
begin

text \<open>
  Open Sound Control, the data model (\<open>crates/oxisound-osc/src/lib.rs\<close>) and the encoder
  (\<open>crates/oxisound-osc/src/encode.rs\<close>). Every writer appends to the buffer it is given, as
  the code does, because the padding of strings and blobs depends on the length reached so
  far. The lemmas show that at an aligned position each writer appends a block that does not
  depend on the buffer and whose length is a multiple of four.
\<close>

subsection \<open>Data model\<close>

record osc_time_tag =
  seconds :: "32 word"
  fractional :: "32 word"

definition IMMEDIATE :: osc_time_tag where
  "IMMEDIATE = \<lparr>seconds = 0, fractional = 1\<rparr>"

text \<open>
  Floats are carried as their bit patterns: the code only moves them with \<open>to_be_bytes\<close> and
  \<open>from_be_bytes\<close>. Signed integers are carried as words for the same reason, and a \<open>char\<close> is
  its scalar value.
\<close>

datatype osc_arg =
    OscInt "32 word"
  | OscFloat "32 word"
  | OscString rstring
  | OscBlob "byte list"
  | OscLong "64 word"
  | OscDouble "64 word"
  | OscTime osc_time_tag
  | OscChar nat
  | OscColor byte byte byte byte
  | OscMidi byte byte byte byte
  | OscBool bool
  | OscNil
  | OscImpulse
  | OscArray "osc_arg list"

record osc_message =
  address :: rstring
  args :: "osc_arg list"

datatype osc_packet = Message osc_message | Bundle osc_bundle
  and osc_bundle = OscBundle (bundle_time: osc_time_tag) (bundle_elements: "osc_packet list")

text \<open>An ASCII character as the byte that \<open>String::push\<close> appends for it.\<close>

definition ascii :: "char \<Rightarrow> byte" where
  "ascii c = of_char c"

fun type_tag :: "osc_arg \<Rightarrow> byte" where
  "type_tag (OscInt _) = ascii CHR ''i''"
| "type_tag (OscFloat _) = ascii CHR ''f''"
| "type_tag (OscString _) = ascii CHR ''s''"
| "type_tag (OscBlob _) = ascii CHR ''b''"
| "type_tag (OscLong _) = ascii CHR ''h''"
| "type_tag (OscDouble _) = ascii CHR ''d''"
| "type_tag (OscTime _) = ascii CHR ''t''"
| "type_tag (OscChar _) = ascii CHR ''c''"
| "type_tag (OscColor _ _ _ _) = ascii CHR ''r''"
| "type_tag (OscMidi _ _ _ _) = ascii CHR ''m''"
| "type_tag (OscBool True) = ascii CHR ''T''"
| "type_tag (OscBool False) = ascii CHR ''F''"
| "type_tag OscNil = ascii CHR ''N''"
| "type_tag OscImpulse = ascii CHR ''I''"
| "type_tag (OscArray _) = ascii CHR ''[''"

subsection \<open>Encoder\<close>

text \<open>The number of zero bytes missing up to the next multiple of four.\<close>

definition padding :: "nat \<Rightarrow> nat" where
  "padding n = (4 - n mod 4) mod 4"

lemma mod_4_cases: "n mod 4 = 0 \<or> n mod 4 = 1 \<or> n mod 4 = 2 \<or> n mod 4 = (3::nat)"
  by arith

lemma padding_Suc: "n mod 4 \<noteq> 0 \<Longrightarrow> padding n = Suc (padding (Suc n))"
  using mod_4_cases [of n] by (auto simp: padding_def mod_Suc)

lemma padding_Suc_less: "0 < n mod 4 \<Longrightarrow> padding (Suc n) < padding n"
  by (simp add: padding_Suc)

lemma padding_0: "n mod 4 = 0 \<Longrightarrow> padding n = 0"
  by (simp add: padding_def)

lemma padding_less: "padding n < 4"
  by (simp add: padding_def)

lemma add_padding_mod: "(n + padding n) mod 4 = 0"
  using mod_4_cases [of n] by (elim disjE; simp add: padding_def; presburger)

lemma padding_add: "m mod 4 = 0 \<Longrightarrow> padding (m + n) = padding n"
  unfolding padding_def by (metis add_0 mod_add_left_eq)

function pad4 :: "byte list \<Rightarrow> byte list" where
  "pad4 buf = (if length buf mod 4 = 0 then buf else pad4 (buf @ [0]))"
  by pat_completeness auto
termination
  by (relation "measure (\<lambda>buf. padding (length buf))") (auto intro: padding_Suc_less)

declare pad4.simps [simp del]

definition write_str :: "rstring \<Rightarrow> byte list \<Rightarrow> byte list" where
  "write_str s buf = pad4 (buf @ s @ [0])"

definition write_blob :: "byte list \<Rightarrow> byte list \<Rightarrow> byte list" where
  "write_blob b buf = pad4 (buf @ to_be 4 (word_of_nat (length b) :: 32 word) @ b)"

definition write_timetag :: "osc_time_tag \<Rightarrow> byte list \<Rightarrow> byte list" where
  "write_timetag t buf = buf @ to_be 4 (seconds t) @ to_be 4 (fractional t)"

fun collect_type_tags :: "osc_arg list \<Rightarrow> byte list \<Rightarrow> byte list" where
  "collect_type_tags [] tags = tags"
| "collect_type_tags (OscArray inner # rest) tags =
     collect_type_tags rest (collect_type_tags inner (tags @ [ascii CHR ''['']) @ [ascii CHR '']''])"
| "collect_type_tags (other # rest) tags = collect_type_tags rest (tags @ [type_tag other])"

fun write_arg :: "osc_arg \<Rightarrow> byte list \<Rightarrow> byte list"
  and write_args :: "osc_arg list \<Rightarrow> byte list \<Rightarrow> byte list" where
  "write_arg (OscInt v) buf = buf @ to_be 4 v"
| "write_arg (OscFloat v) buf = buf @ to_be 4 v"
| "write_arg (OscString s) buf = write_str s buf"
| "write_arg (OscBlob b) buf = write_blob b buf"
| "write_arg (OscLong v) buf = buf @ to_be 8 v"
| "write_arg (OscDouble v) buf = buf @ to_be 8 v"
| "write_arg (OscTime t) buf = write_timetag t buf"
| "write_arg (OscChar c) buf = buf @ to_be 4 (word_of_nat c :: 32 word)"
| "write_arg (OscColor r g b a) buf = buf @ [r, g, b, a]"
| "write_arg (OscMidi m0 m1 m2 m3) buf = buf @ [m0, m1, m2, m3]"
| "write_arg (OscBool _) buf = buf"
| "write_arg OscNil buf = buf"
| "write_arg OscImpulse buf = buf"
| "write_arg (OscArray inner) buf = write_args inner buf"
| "write_args [] buf = buf"
| "write_args (a # as) buf = write_args as (write_arg a buf)"

definition encode_message :: "osc_message \<Rightarrow> byte list \<Rightarrow> byte list" where
  "encode_message msg buf =
     (let buf = write_str (address msg) buf;
          type_tags = collect_type_tags (args msg) [ascii CHR '','']
      in write_args (args msg) (write_str type_tags buf))"

definition bundle_magic :: "byte list" where
  "bundle_magic = map ascii ''#bundle'' @ [0]"

text \<open>
  The size of an element is patched in after the element has been written behind a
  placeholder.
\<close>

fun encode_packet :: "osc_packet \<Rightarrow> byte list \<Rightarrow> byte list"
  and encode_bundle :: "osc_bundle \<Rightarrow> byte list \<Rightarrow> byte list"
  and encode_elements :: "osc_packet list \<Rightarrow> byte list \<Rightarrow> byte list" where
  "encode_packet (Message msg) buf = encode_message msg buf"
| "encode_packet (Bundle b) buf = encode_bundle b buf"
| "encode_bundle (OscBundle t es) buf = encode_elements es (write_timetag t (buf @ bundle_magic))"
| "encode_elements [] buf = buf"
| "encode_elements (e # es) buf =
     (let start = length buf;
          buf' = encode_packet e (buf @ replicate 4 0);
          element_len = (word_of_nat (length buf' - start - 4) :: 32 word)
      in encode_elements es (take start buf' @ to_be 4 element_len @ drop (start + 4) buf'))"

definition encode :: "osc_packet \<Rightarrow> byte list" where
  "encode packet = encode_packet packet []"

subsection \<open>Blocks\<close>

lemma pad4_eq: "pad4 buf = buf @ replicate (padding (length buf)) 0"
proof (induction buf rule: pad4.induct)
  case (1 buf)
  show ?case
  proof (cases "length buf mod 4 = 0")
    case True
    then show ?thesis by (simp add: pad4.simps padding_0)
  next
    case False
    with "1.IH" show ?thesis by (subst pad4.simps) (simp add: padding_Suc)
  qed
qed

lemma length_pad4 [simp]: "length (pad4 buf) mod 4 = 0"
  by (simp add: pad4_eq add_padding_mod)

lemma pad4_prefix: "length buf mod 4 = 0 \<Longrightarrow> pad4 (buf @ xs) = buf @ pad4 xs"
  by (simp add: pad4_eq padding_add)

definition aligned :: "nat \<Rightarrow> bool" where
  "aligned n \<longleftrightarrow> n mod 4 = 0"

lemma aligned_0 [simp]: "aligned 0"
  by (simp add: aligned_def)

lemma aligned_add [intro]: "aligned m \<Longrightarrow> aligned n \<Longrightarrow> aligned (m + n)"
  by (auto simp: aligned_def)

lemma aligned_8 [simp]: "aligned 8" and aligned_4 [simp]: "aligned 4"
  by (simp_all add: aligned_def)

lemma aligned_pad4 [simp]: "aligned (length (pad4 buf))"
  by (simp add: aligned_def)

lemma write_str_block:
  "aligned (length buf) \<Longrightarrow> write_str s buf = buf @ write_str s []"
  by (simp add: write_str_def pad4_prefix aligned_def)

lemma write_blob_block:
  "aligned (length buf) \<Longrightarrow> write_blob b buf = buf @ write_blob b []"
  by (simp add: write_blob_def pad4_prefix aligned_def)

lemma aligned_write_str [simp]: "aligned (length (write_str s buf))"
  by (simp add: write_str_def)

lemma aligned_write_blob [simp]: "aligned (length (write_blob b buf))"
  by (simp add: write_blob_def)

lemma write_timetag_block: "write_timetag t buf = buf @ write_timetag t []"
  by (simp add: write_timetag_def)

lemma length_write_timetag [simp]: "length (write_timetag t buf) = length buf + 8"
  by (simp add: write_timetag_def)

lemma write_arg_block_ex:
  "\<exists>w. aligned (length w) \<and> (\<forall>buf. aligned (length buf) \<longrightarrow> write_arg a buf = buf @ w)"
proof (induction a)
  case (OscArray as)
  have "\<exists>w. aligned (length w) \<and> (\<forall>buf. aligned (length buf) \<longrightarrow> write_args as buf = buf @ w)"
    using OscArray
  proof (induction as)
    case Nil
    then show ?case by (intro exI [of _ "[]"]) simp
  next
    case (Cons b bs)
    then obtain w v where w: "aligned (length w)"
      "\<And>buf. aligned (length buf) \<Longrightarrow> write_arg b buf = buf @ w"
      and v: "aligned (length v)" "\<And>buf. aligned (length buf) \<Longrightarrow> write_args bs buf = buf @ v"
      by (metis list.set_intros)
    have "aligned (length (buf @ w))" if "aligned (length buf)" for buf
      using that w(1) by (auto intro: aligned_add)
    with w v show ?case by (intro exI [of _ "w @ v"]) (simp add: aligned_add)
  qed
  then show ?case by simp
next
  case (OscString s)
  show ?case
    unfolding write_arg.simps using write_str_block aligned_write_str by blast
next
  case (OscBlob b)
  show ?case
    unfolding write_arg.simps using write_blob_block aligned_write_blob by blast
next
  case (OscTime t)
  then show ?case by (intro exI [of _ "write_timetag t []"]) (simp add: write_timetag_def)
next
  case (OscInt v)
  show ?case by (rule exI [of _ "to_be 4 v"]) simp
next
  case (OscFloat v)
  show ?case by (rule exI [of _ "to_be 4 v"]) simp
next
  case (OscLong v)
  show ?case by (rule exI [of _ "to_be 8 v"]) simp
next
  case (OscDouble v)
  show ?case by (rule exI [of _ "to_be 8 v"]) simp
next
  case (OscChar c)
  show ?case by (rule exI [of _ "to_be 4 (word_of_nat c :: 32 word)"]) simp
next
  case (OscColor r g b a)
  show ?case by (rule exI [of _ "[r, g, b, a]"]) (simp add: aligned_def)
next
  case (OscMidi r g b a)
  show ?case by (rule exI [of _ "[r, g, b, a]"]) (simp add: aligned_def)
next
  case (OscBool v)
  show ?case by (rule exI [of _ "[]"]) simp
next
  case OscNil
  show ?case by (rule exI [of _ "[]"]) simp
next
  case OscImpulse
  show ?case by (rule exI [of _ "[]"]) simp
qed

lemma write_arg_block:
  assumes "aligned (length buf)"
  shows "write_arg a buf = buf @ write_arg a []"
  using write_arg_block_ex [of a] assms by force

lemma aligned_write_arg [simp]: "aligned (length (write_arg a []))"
  using write_arg_block_ex [of a] by force

lemma write_args_block:
  assumes "aligned (length buf)"
  shows "write_args as buf = buf @ concat (map (\<lambda>a. write_arg a []) as)"
  using assms
proof (induction as arbitrary: buf)
  case Nil
  then show ?case by simp
next
  case (Cons a as)
  have w: "write_arg a buf = buf @ write_arg a []"
    by (rule write_arg_block [OF Cons.prems])
  with Cons.prems have "aligned (length (write_arg a buf))" by (auto intro: aligned_add)
  with Cons.IH w show ?case by simp
qed

lemma aligned_concat: "\<forall>x \<in> set xs. aligned (length x) \<Longrightarrow> aligned (length (concat xs))"
  by (induction xs) (auto intro: aligned_add)

lemma aligned_write_args: "aligned (length (write_args as []))"
  by (simp add: write_args_block aligned_concat)

end
