(* ===== verification/Wire.thy ===== *)
theory Wire
  imports Prelude
begin

text \<open>
  The interface between the writers and the readers of the two binary formats of the
  repository (OSC packets, Standard MIDI Files). Both read with a cursor into one byte
  slice, so a codec is a function that emits bytes and a function that reads a value at an
  offset and returns the offset after it. The locale states what the two owe each other; the
  format theories interpret it on the functions of the code.
\<close>

subsection \<open>Reading a known number of items\<close>

text \<open>\<open>for _ in 0..n { out.push(read(data, &mut pos)?) }\<close>\<close>

fun read_n :: "(byte list \<Rightarrow> nat \<Rightarrow> ('a \<times> nat, 'e) result) \<Rightarrow> nat \<Rightarrow> byte list \<Rightarrow> nat
    \<Rightarrow> ('a list \<times> nat, 'e) result" where
  "read_n rd 0 data pos = Ok ([], pos)"
| "read_n rd (Suc n) data pos =
     and_then (rd data pos) (\<lambda>(x, p).
     and_then (read_n rd n data p) (\<lambda>(xs, q). Ok (x # xs, q)))"

lemma read_n_length: "read_n rd n data pos = Ok (xs, q) \<Longrightarrow> length xs = n"
  by (induction n arbitrary: pos xs q) auto

lemma read_n_no_panic:
  assumes "\<And>p. I p \<Longrightarrow> rd data p \<noteq> Panic"
    and "\<And>p x q. I p \<Longrightarrow> rd data p = Ok (x, q) \<Longrightarrow> I q"
    and "I pos"
  shows "read_n rd n data pos \<noteq> Panic"
  using assms(3)
proof (induction n arbitrary: pos)
  case 0
  then show ?case by simp
next
  case (Suc n)
  show ?case
  proof (cases "rd data pos")
    case (Ok xp)
    then obtain x p where xp: "xp = (x, p)" by (cases xp)
    with Ok Suc.prems assms(2) have "I p" by blast
    with Suc.IH have "read_n rd n data p \<noteq> Panic" by blast
    with Ok xp show ?thesis by (cases "read_n rd n data p") auto
  next
    case (Err e)
    then show ?thesis by simp
  next
    case Panic
    with Suc.prems assms(1) show ?thesis by blast
  qed
qed

lemma read_n_all:
  assumes "\<And>p x q. I p \<Longrightarrow> rd data p = Ok (x, q) \<Longrightarrow> I q \<and> P x"
    and "I pos" and "read_n rd n data pos = Ok (xs, q)"
  shows "I q \<and> (\<forall>x \<in> set xs. P x)"
  using assms(2,3)
proof (induction n arbitrary: pos xs)
  case 0
  then show ?case by simp
next
  case (Suc n)
  then obtain x p ys where r: "rd data pos = Ok (x, p)" and rn: "read_n rd n data p = Ok (ys, q)"
    and xs: "xs = x # ys" by auto
  from assms(1) [OF Suc.prems(1) r] have "I p" and "P x" by auto
  with Suc.IH [OF _ rn] xs show ?case by auto
qed

subsection \<open>The codec interface\<close>

text \<open>
  \<open>good x\<close> says that the format can express \<open>x\<close>; \<open>fits\<close> that a slice can exist on the
  target; \<open>at\<close> that an offset is one where the format puts an item (OSC aligns items to
  four bytes, MIDI files do not).
\<close>

locale offset_codec =
  fixes enc :: "'a \<Rightarrow> byte list"
    and rd :: "byte list \<Rightarrow> nat \<Rightarrow> ('a \<times> nat, 'e) result"
    and good :: "'a \<Rightarrow> bool"
    and fits :: "byte list \<Rightarrow> bool"
    and at :: "nat \<Rightarrow> bool"
  assumes rd_enc: "good x \<Longrightarrow> at (length pre) \<Longrightarrow> fits (pre @ enc x @ post)
      \<Longrightarrow> rd (pre @ enc x @ post) (length pre) = Ok (x, length pre + length (enc x))"
    and at_enc: "good x \<Longrightarrow> at n \<Longrightarrow> at (n + length (enc x))"
begin

text \<open>The same law for a slice given as a whole, which is how the loops use it.\<close>

lemma rd_at:
  assumes "good x" and "at p" and "fits data" and "p = length pre" and "data = pre @ enc x @ post"
  shows "rd data p = Ok (x, p + length (enc x))"
  using assms rd_enc by simp

lemma unique_decoding:
  assumes "good x" and "good y" and "at (length pre)" and "fits (pre @ enc x @ s)"
    and "enc x @ s = enc y @ t"
  shows "x = y \<and> s = t"
proof -
  have "rd (pre @ enc x @ s) (length pre) = Ok (x, length pre + length (enc x))"
    by (rule rd_enc [OF assms(1,3,4)])
  moreover have "rd (pre @ enc y @ t) (length pre) = Ok (y, length pre + length (enc y))"
    using assms(4,5) by (intro rd_enc [OF assms(2,3)]) simp
  ultimately have "x = y" using assms(5) by simp
  with assms(5) show ?thesis by simp
qed

lemma enc_inj: "good x \<Longrightarrow> good y \<Longrightarrow> at 0 \<Longrightarrow> fits (enc x) \<Longrightarrow> enc x = enc y \<Longrightarrow> x = y"
  using unique_decoding [of x y "[]" "[]" "[]"] by simp

lemma read_n_enc:
  assumes "\<forall>x \<in> set xs. good x" and "at (length pre)"
    and "fits (pre @ concat (map enc xs) @ post)"
  shows "read_n rd (length xs) (pre @ concat (map enc xs) @ post) (length pre)
       = Ok (xs, length pre + length (concat (map enc xs)))"
  using assms
proof (induction xs arbitrary: pre)
  case Nil
  then show ?case by simp
next
  case (Cons x xs)
  have r: "rd (pre @ enc x @ (concat (map enc xs) @ post)) (length pre)
      = Ok (x, length pre + length (enc x))"
    using Cons.prems by (intro rd_enc) auto
  have "read_n rd (length xs) ((pre @ enc x) @ concat (map enc xs) @ post) (length (pre @ enc x))
      = Ok (xs, length (pre @ enc x) + length (concat (map enc xs)))"
    using Cons.prems at_enc by (intro Cons.IH) auto
  with r show ?case by simp
qed

lemma at_enc_list: "\<forall>x \<in> set xs. good x \<Longrightarrow> at n \<Longrightarrow> at (n + length (concat (map enc xs)))"
proof (induction xs arbitrary: n)
  case Nil
  then show ?case by simp
next
  case (Cons x xs)
  then have "at (n + length (enc x) + length (concat (map enc xs)))"
    using at_enc by (intro Cons.IH) auto
  then show ?case by (simp add: add.assoc)
qed

end

text \<open>Two fields one after the other are read one after the other.\<close>

definition rd_pair :: "(byte list \<Rightarrow> nat \<Rightarrow> ('a \<times> nat, 'e) result)
    \<Rightarrow> (byte list \<Rightarrow> nat \<Rightarrow> ('b \<times> nat, 'e) result)
    \<Rightarrow> byte list \<Rightarrow> nat \<Rightarrow> (('a \<times> 'b) \<times> nat, 'e) result" where
  "rd_pair rda rdb data pos =
     and_then (rda data pos) (\<lambda>(a, p). and_then (rdb data p) (\<lambda>(b, q). Ok ((a, b), q)))"

locale codec_pair =
  first: offset_codec enca rda gooda fits at + second: offset_codec encb rdb goodb fits at
  for enca :: "'a \<Rightarrow> byte list" and rda :: "byte list \<Rightarrow> nat \<Rightarrow> ('a \<times> nat, 'e) result"
    and gooda fits at
    and encb :: "'b \<Rightarrow> byte list" and rdb :: "byte list \<Rightarrow> nat \<Rightarrow> ('b \<times> nat, 'e) result"
    and goodb

sublocale codec_pair \<subseteq> both: offset_codec
  "\<lambda>ab. enca (fst ab) @ encb (snd ab)" "rd_pair rda rdb"
  "\<lambda>ab. gooda (fst ab) \<and> goodb (snd ab)" fits at
proof
  fix x :: "'a \<times> 'b" and pre post :: "byte list"
  obtain a b where x: "x = (a, b)" by (cases x)
  assume "gooda (fst x) \<and> goodb (snd x)" and at: "at (length pre)"
    and f: "fits (pre @ (enca (fst x) @ encb (snd x)) @ post)"
  with x have g: "gooda a" "goodb b" and f': "fits (pre @ enca a @ (encb b @ post))" by auto
  have "rda (pre @ enca a @ (encb b @ post)) (length pre) = Ok (a, length pre + length (enca a))"
    by (rule first.rd_enc [OF g(1) at f'])
  moreover have "rdb (pre @ enca a @ (encb b @ post)) (length pre + length (enca a))
      = Ok (b, length pre + length (enca a) + length (encb b))"
    using g at f' first.at_enc [of a "length pre"]
    by (intro second.rd_at [where pre = "pre @ enca a" and post = post]) auto
  ultimately show "rd_pair rda rdb
      (pre @ (enca (fst x) @ encb (snd x)) @ post) (length pre)
      = Ok (x, length pre + length (enca (fst x) @ encb (snd x)))"
    by (simp add: x rd_pair_def)
next
  fix x :: "'a \<times> 'b" and n
  assume "gooda (fst x) \<and> goodb (snd x)" and "at n"
  then show "at (n + length (enca (fst x) @ encb (snd x)))"
    using first.at_enc [of "fst x" n]
      second.at_enc [of "snd x" "n + length (enca (fst x))"]
    by (simp add: add.assoc)
qed

end
