(* ===== verification/Osc_Decode.thy ===== *)
theory Osc_Decode
  imports Osc_Encode Wire
begin

text \<open>
  The OSC decoder (\<open>crates/oxisound-osc/src/decode.rs\<close>), which reads untrusted datagrams.
  The readers take the slice and the cursor and return the value with the new cursor. The
  lemmas show that no input of any length makes the decoder panic on 32-bit or 64-bit
  targets, and that whatever it accepts is nested no deeper than its caps allow.
\<close>

subsection \<open>Errors and low-level readers\<close>

datatype osc_error =
    BundleNesting
  | BadPacketStart
  | ElementTooLong
  | ElementOverflow
  | ArrayNesting
  | UnexpectedClose
  | UnmatchedClose
  | OutsideScope
  | UnclosedArray
  | InvalidChar nat
  | UnknownTag nat
  | StringStart nat nat
  | Unterminated
  | NotUtf8
  | BlobOverflow
  | BlobTooLong nat
  | TruncatedOverflow nat nat
  | Truncated nat nat nat

definition MAX_NESTING_DEPTH :: nat where
  "MAX_NESTING_DEPTH = 32"

text \<open>\<open>(n + 3) & !3\<close>, on naturals.\<close>

definition align4 :: "nat \<Rightarrow> nat \<Rightarrow> (nat, osc_error) result" where
  "align4 um n = and_then (uadd um n 3) (\<lambda>m. Ok (m - m mod 4))"

definition read_exact :: "nat \<Rightarrow> nat \<Rightarrow> byte list \<Rightarrow> nat \<Rightarrow> (byte list \<times> nat, osc_error) result" where
  "read_exact um n data pos =
     and_then (ok_or (TruncatedOverflow pos n) (checked_add um pos n)) (\<lambda>end.
     if length data < end then Err (Truncated n pos (length data))
     else and_then (slice data pos end) (\<lambda>buf. Ok (buf, end)))"

definition read_u32 :: "nat \<Rightarrow> byte list \<Rightarrow> nat \<Rightarrow> (32 word \<times> nat, osc_error) result" where
  "read_u32 um data pos = and_then (read_exact um 4 data pos) (\<lambda>(bs, pos). Ok (from_be bs, pos))"

definition read_i32 :: "nat \<Rightarrow> byte list \<Rightarrow> nat \<Rightarrow> (32 word \<times> nat, osc_error) result" where
  "read_i32 um data pos = and_then (read_exact um 4 data pos) (\<lambda>(bs, pos). Ok (from_be bs, pos))"

definition read_timetag :: "nat \<Rightarrow> byte list \<Rightarrow> nat \<Rightarrow> (osc_time_tag \<times> nat, osc_error) result" where
  "read_timetag um data pos =
     and_then (read_exact um 4 data pos) (\<lambda>(s, pos).
     and_then (read_exact um 4 data pos) (\<lambda>(f, pos).
     Ok (\<lparr>seconds = from_be s, fractional = from_be f\<rparr>, pos)))"

definition read_str :: "nat \<Rightarrow> byte list \<Rightarrow> nat \<Rightarrow> (rstring \<times> nat, osc_error) result" where
  "read_str um data start =
     (if length data < start then Err (StringStart start (length data))
      else and_then (slice data start (length data)) (\<lambda>rest.
           and_then (ok_or Unterminated (position (\<lambda>b. b = 0) rest)) (\<lambda>nul.
           and_then (uadd um start nul) (\<lambda>end.
           and_then (slice data start end) (\<lambda>s.
           if \<not> utf8_valid s then Err NotUtf8
           else and_then (uadd um end 1) (\<lambda>after.
                and_then (align4 um after) (\<lambda>pos. Ok (s, pos))))))))"

definition read_blob :: "nat \<Rightarrow> byte list \<Rightarrow> nat \<Rightarrow> (byte list \<times> nat, osc_error) result" where
  "read_blob um data pos =
     and_then (read_u32 um data pos) (\<lambda>(n, pos).
     let len = unat n in
     and_then (ok_or BlobOverflow (checked_add um pos len)) (\<lambda>end.
     if length data < end then Err (BlobTooLong len)
     else and_then (slice data pos end) (\<lambda>blob.
          and_then (align4 um end) (\<lambda>pos. Ok (blob, pos)))))"

subsection \<open>Arguments\<close>

text \<open>A type tag is a \<open>char\<close>, that is a scalar value.\<close>

abbreviation tag_char :: "char \<Rightarrow> nat" where
  "tag_char c \<equiv> of_char c"

definition read_single_arg :: "nat \<Rightarrow> byte list \<Rightarrow> nat \<Rightarrow> nat \<Rightarrow> (osc_arg \<times> nat, osc_error) result" where
  "read_single_arg um data pos tag =
     (if tag = tag_char CHR ''i'' then
        and_then (read_i32 um data pos) (\<lambda>(v, pos). Ok (OscInt v, pos))
      else if tag = tag_char CHR ''f'' then
        and_then (read_exact um 4 data pos) (\<lambda>(bs, pos). Ok (OscFloat (from_be bs), pos))
      else if tag = tag_char CHR ''s'' then
        and_then (read_str um data pos) (\<lambda>(s, pos). Ok (OscString s, pos))
      else if tag = tag_char CHR ''b'' then
        and_then (read_blob um data pos) (\<lambda>(b, pos). Ok (OscBlob b, pos))
      else if tag = tag_char CHR ''h'' then
        and_then (read_exact um 8 data pos) (\<lambda>(bs, pos). Ok (OscLong (from_be bs), pos))
      else if tag = tag_char CHR ''d'' then
        and_then (read_exact um 8 data pos) (\<lambda>(bs, pos). Ok (OscDouble (from_be bs), pos))
      else if tag = tag_char CHR ''t'' then
        and_then (read_timetag um data pos) (\<lambda>(t, pos). Ok (OscTime t, pos))
      else if tag = tag_char CHR ''c'' then
        and_then (read_exact um 4 data pos) (\<lambda>(bs, pos).
        let code = unat (from_be bs :: 32 word) in
        if is_scalar code then Ok (OscChar code, pos) else Err (InvalidChar code))
      else if tag = tag_char CHR ''r'' then
        and_then (read_exact um 4 data pos) (\<lambda>(bs, pos).
        Ok (OscColor (bs ! 0) (bs ! 1) (bs ! 2) (bs ! 3), pos))
      else if tag = tag_char CHR ''m'' then
        and_then (read_exact um 4 data pos) (\<lambda>(bs, pos).
        Ok (OscMidi (bs ! 0) (bs ! 1) (bs ! 2) (bs ! 3), pos))
      else if tag = tag_char CHR ''T'' then Ok (OscBool True, pos)
      else if tag = tag_char CHR ''F'' then Ok (OscBool False, pos)
      else if tag = tag_char CHR ''N'' then Ok (OscNil, pos)
      else if tag = tag_char CHR ''I'' then Ok (OscImpulse, pos)
      else Err (UnknownTag tag))"

text \<open>
  The stack of accumulators: the head of the list is the last element of the code's vector,
  and each accumulator is kept in the order of its pushes.
\<close>

fun typed_args_loop :: "nat \<Rightarrow> byte list \<Rightarrow> nat list \<Rightarrow> nat \<Rightarrow> osc_arg list list
    \<Rightarrow> (osc_arg list list \<times> nat, osc_error) result" where
  "typed_args_loop um data [] pos stack = Ok (stack, pos)"
| "typed_args_loop um data (tag # tags) pos stack =
     (if tag = tag_char CHR ''['' then
        if MAX_NESTING_DEPTH \<le> length stack then Err ArrayNesting
        else typed_args_loop um data tags pos ([] # stack)
      else if tag = tag_char CHR '']'' then
        (case stack of
           [] \<Rightarrow> Err UnexpectedClose
         | [inner] \<Rightarrow> Err UnmatchedClose
         | inner # upper # below \<Rightarrow>
             typed_args_loop um data tags pos ((upper @ [OscArray inner]) # below))
      else
        and_then (read_single_arg um data pos tag) (\<lambda>(arg, pos).
        case stack of
          [] \<Rightarrow> Err OutsideScope
        | upper # below \<Rightarrow> typed_args_loop um data tags pos ((upper @ [arg]) # below)))"

definition read_typed_args :: "nat \<Rightarrow> byte list \<Rightarrow> nat \<Rightarrow> nat list
    \<Rightarrow> (osc_arg list \<times> nat, osc_error) result" where
  "read_typed_args um data pos type_tags =
     and_then (typed_args_loop um data type_tags pos [[]]) (\<lambda>(stack, pos).
     case stack of [outer] \<Rightarrow> Ok (outer, pos) | _ \<Rightarrow> Err UnclosedArray)"

subsection \<open>Messages, bundles, packets\<close>

text \<open>\<open>str::chars\<close>: the bytes of a Rust string always decode.\<close>

definition chars :: "rstring \<Rightarrow> nat list" where
  "chars s = (case utf8_decode s of Some cs \<Rightarrow> cs | None \<Rightarrow> [])"

definition decode_message :: "nat \<Rightarrow> byte list \<Rightarrow> (osc_message, osc_error) result" where
  "decode_message um data =
     and_then (read_str um data 0) (\<lambda>(addr, pos).
     and_then (if pos < length data \<and> data ! pos = ascii CHR '',''
               then and_then (read_str um data pos) (\<lambda>(raw, pos). Ok (drop 1 (chars raw), pos))
               else Ok ([], pos)) (\<lambda>(type_tags, pos).
     and_then (read_typed_args um data pos type_tags) (\<lambda>(as, pos).
     Ok \<lparr>address = addr, args = as\<rparr>)))"

definition element_end :: "nat \<Rightarrow> nat \<Rightarrow> nat \<Rightarrow> (nat, osc_error) result" where
  "element_end um pos n = ok_or ElementOverflow (checked_add um pos n)"

lemma read_u32_Ok:
  "read_u32 um data pos = Ok (v, q) \<longleftrightarrow>
     pos + 4 \<le> um \<and> pos + 4 \<le> length data \<and> q = pos + 4 \<and> v = from_be (take 4 (drop pos data))"
  by (auto simp: read_u32_def read_exact_def slice_eq_Ok split: if_splits)

lemma element_end_Ok [simp]:
  "element_end um pos n = Ok e \<longleftrightarrow> pos + n \<le> um \<and> e = pos + n"
  by (simp add: element_end_def)

lemma element_end_no_panic [simp]: "element_end um pos n \<noteq> Panic"
  by (simp add: element_end_def)

function decode_with_depth :: "nat \<Rightarrow> byte list \<Rightarrow> nat \<Rightarrow> (osc_packet, osc_error) result"
  and decode_bundle :: "nat \<Rightarrow> byte list \<Rightarrow> nat \<Rightarrow> (osc_bundle, osc_error) result"
  and decode_elements :: "nat \<Rightarrow> byte list \<Rightarrow> nat \<Rightarrow> nat \<Rightarrow> (osc_packet list, osc_error) result" where
  "decode_with_depth um data depth =
     (if MAX_NESTING_DEPTH < depth then Err BundleNesting
      else if take 8 data = bundle_magic then map_ok Bundle (decode_bundle um data depth)
      else if get data 0 = Some (ascii CHR ''/'') then map_ok Message (decode_message um data)
      else Err BadPacketStart)"
| "decode_bundle um data depth =
     and_then (read_timetag um data 8) (\<lambda>(time, pos).
     and_then (decode_elements um data depth pos) (\<lambda>elements. Ok (OscBundle time elements)))"
| "decode_elements um data depth pos =
     (if pos < length data then
        and_then (read_u32 um data pos) (\<lambda>(sz, pos').
        and_then (element_end um pos' (unat sz)) (\<lambda>end.
        if length data < end then Err ElementTooLong
        else and_then (slice data pos' end) (\<lambda>element_data.
             and_then (decode_with_depth um element_data (depth + 1)) (\<lambda>element.
             and_then (decode_elements um data depth end) (\<lambda>elements. Ok (element # elements))))))
      else Ok [])"
  by pat_completeness auto
termination
  by (relation "measures [\<lambda>x. case x of Inl (um, data, d) \<Rightarrow> length data
         | Inr (Inl (um, data, d)) \<Rightarrow> length data
         | Inr (Inr (um, data, d, pos)) \<Rightarrow> length data,
       \<lambda>x. case x of Inl _ \<Rightarrow> 2 | Inr (Inl _) \<Rightarrow> 1 | Inr (Inr _) \<Rightarrow> 0,
       \<lambda>x. case x of Inr (Inr (um, data, d, pos)) \<Rightarrow> length data - pos | _ \<Rightarrow> 0]")
    (auto simp: read_u32_Ok slice_eq_Ok)

declare decode_with_depth.simps [simp del] decode_bundle.simps [simp del]
  decode_elements.simps [simp del]

definition decode :: "nat \<Rightarrow> byte list \<Rightarrow> (osc_packet, osc_error) result" where
  "decode um data = decode_with_depth um data 0"

subsection \<open>Freedom from panics\<close>

lemma align4_le: "align4 um n = Ok m \<Longrightarrow> m \<le> n + 3 \<and> n \<le> m"
  by (auto simp: align4_def)

lemma align4_no_panic: "n + 3 \<le> um \<Longrightarrow> align4 um n \<noteq> Panic"
  by (simp add: align4_def uadd_def)

lemma slice_ok_add: "slice_ok um data \<Longrightarrow> n \<le> length data \<Longrightarrow> n + 3 \<le> um"
proof -
  assume "slice_ok um data" and "n \<le> length data"
  then have "length data \<le> um div 2" and "6 \<le> um" and "n \<le> length data"
    by (auto simp: slice_ok_def)
  then show "n + 3 \<le> um" by linarith
qed

lemma slice_ok_part: "slice_ok um data \<Longrightarrow> slice data a b = Ok part \<Longrightarrow> slice_ok um part"
  by (auto simp: slice_ok_def slice_eq_Ok)

lemma read_exact_no_panic [simp, panic_free]: "read_exact um n data pos \<noteq> Panic"
  by (auto simp: read_exact_def result_simps)

lemma read_exact_Ok:
  "read_exact um n data pos = Ok (bs, q) \<longleftrightarrow>
     pos + n \<le> um \<and> pos + n \<le> length data \<and> q = pos + n \<and> bs = take n (drop pos data)"
  by (auto simp: read_exact_def slice_eq_Ok split: if_splits)

lemma read_u32_no_panic [simp, panic_free]: "read_u32 um data pos \<noteq> Panic"
  by (auto simp: read_u32_def result_simps)

lemma read_i32_no_panic [simp, panic_free]: "read_i32 um data pos \<noteq> Panic"
  by (auto simp: read_i32_def result_simps)

lemma read_timetag_no_panic [simp, panic_free]: "read_timetag um data pos \<noteq> Panic"
  by (auto simp: read_timetag_def result_simps)

lemma read_str_no_panic [panic_free]:
  assumes "slice_ok um data"
  shows "read_str um data start \<noteq> Panic"
proof -
  have a: "align4 um n \<noteq> Panic" and l: "n \<le> um" if "n \<le> length data" for n
    using slice_ok_add [OF assms that] by (auto intro!: align4_no_panic)
  have "start + i + 1 \<le> length data" if "position (\<lambda>b. b = 0) (drop start data) = Some i" for i
    using position_less [OF that] by auto
  then have "start + i \<le> um \<and> start + i + 1 \<le> um \<and> align4 um (start + i + 1) \<noteq> Panic"
    if "position (\<lambda>b. b = 0) (drop start data) = Some i" for i
    using that a l by (metis add_leD1)
  then show ?thesis
    by (auto simp: read_str_def result_simps slice_eq_Ok not_less dest: position_less)
qed

lemma read_blob_no_panic [panic_free]:
  assumes "slice_ok um data"
  shows "read_blob um data pos \<noteq> Panic"
proof -
  have "align4 um n \<noteq> Panic" if "n \<le> length data" for n
    using slice_ok_add [OF assms that] by (rule align4_no_panic)
  then show ?thesis
    by (auto simp: read_blob_def Let_def result_simps)
qed

lemma read_single_arg_no_panic [panic_free]:
  assumes "slice_ok um data"
  shows "read_single_arg um data pos tag \<noteq> Panic"
  using read_str_no_panic [OF assms] read_blob_no_panic [OF assms]
  by (auto simp: read_single_arg_def Let_def result_simps)

lemma typed_args_loop_no_panic:
  "slice_ok um data \<Longrightarrow> typed_args_loop um data tags pos stack \<noteq> Panic"
proof (induction um data tags pos stack rule: typed_args_loop.induct)
  case (2 um data tag tags pos stack)
  then show ?case
    by (auto simp: result_simps read_single_arg_no_panic split: list.splits)
qed simp

lemma read_typed_args_no_panic [panic_free]:
  "slice_ok um data \<Longrightarrow> read_typed_args um data pos tags \<noteq> Panic"
  by (auto simp: read_typed_args_def result_simps typed_args_loop_no_panic split: list.splits)

lemma decode_message_no_panic [panic_free]: "slice_ok um data \<Longrightarrow> decode_message um data \<noteq> Panic"
  by (auto simp: decode_message_def result_simps read_str_no_panic read_typed_args_no_panic)

lemma decode_with_depth_no_panic:
  "slice_ok um data \<Longrightarrow> decode_with_depth um data depth \<noteq> Panic"
  "slice_ok um data \<Longrightarrow> decode_bundle um data depth \<noteq> Panic"
  "slice_ok um data \<Longrightarrow> decode_elements um data depth pos \<noteq> Panic"
proof (induction um data depth and um data depth and um data depth pos
    rule: decode_with_depth_decode_bundle_decode_elements.induct)
  case (1 um data depth)
  then show ?case
    by (auto simp: decode_with_depth.simps [of um data] decode_message_no_panic)
next
  case (2 um data depth)
  then show ?case
    by (auto simp: decode_bundle.simps [of um data] result_simps)
next
  case (3 um data depth pos)
  show ?case
  proof (cases "pos < length data")
    case True
    have elem: "decode_with_depth um part (depth + 1) \<noteq> Panic"
      and rest: "decode_with_depth um part (depth + 1) = Ok e \<Longrightarrow> decode_elements um data depth end \<noteq> Panic"
      if "read_u32 um data pos = Ok (n, p)" and "element_end um p (unat n) = Ok end"
        and "\<not> length data < end" and s: "slice data p end = (Ok part :: (byte list, osc_error) result)" for n p "end" part e
      using "3.IH"(1) [OF True that(1) refl that(2-4) slice_ok_part [OF "3.prems" s]]
        "3.IH"(2) [OF True that(1) refl that(2-4) _ "3.prems"] by simp_all
    from True elem rest show ?thesis
      unfolding decode_elements.simps [of um data depth pos]
      by (auto simp: and_then_eq_Panic)
  next
    case False
    then show ?thesis by (simp add: decode_elements.simps [of um data])
  qed
qed

subsection \<open>What the decoder accepts\<close>

text \<open>
  The values the wire format can express: strings without a NUL, blobs whose length fits
  its field, characters that are scalar values, addresses that start with a slash, and
  nesting within the caps. An array may be nested 31 deep, because the stack of the decoder
  counts the top level. The depth of a packet is the length of the longest chain of elements
  below it, and the depth counter of the decoder admits 32.
\<close>

definition osc_string :: "rstring \<Rightarrow> bool" where
  "osc_string s \<longleftrightarrow> utf8_valid s \<and> 0 \<notin> set s"

fun arg_depth :: "osc_arg \<Rightarrow> nat"
  and args_depth :: "osc_arg list \<Rightarrow> nat" where
  "arg_depth (OscArray as) = Suc (args_depth as)"
| "arg_depth a = 0"
| "args_depth [] = 0"
| "args_depth (a # as) = max (arg_depth a) (args_depth as)"

fun wf_arg :: "osc_arg \<Rightarrow> bool"
  and wf_args :: "osc_arg list \<Rightarrow> bool" where
  "wf_arg (OscString s) = osc_string s"
| "wf_arg (OscBlob b) = (length b < 2 ^ 32)"
| "wf_arg (OscChar c) = is_scalar c"
| "wf_arg (OscArray as) = wf_args as"
| "wf_arg a = True"
| "wf_args [] = True"
| "wf_args (a # as) = (wf_arg a \<and> wf_args as)"

definition wf_message :: "osc_message \<Rightarrow> bool" where
  "wf_message m \<longleftrightarrow> osc_string (address m) \<and> take 1 (address m) = [ascii CHR ''/'']
     \<and> wf_args (args m) \<and> args_depth (args m) < MAX_NESTING_DEPTH"

fun wf_packet :: "osc_packet \<Rightarrow> bool"
  and wf_bundle :: "osc_bundle \<Rightarrow> bool"
  and wf_elements :: "osc_packet list \<Rightarrow> bool" where
  "wf_packet (Message m) = wf_message m"
| "wf_packet (Bundle b) = wf_bundle b"
| "wf_bundle (OscBundle t es) = wf_elements es"
| "wf_elements [] = True"
| "wf_elements (e # es) = (wf_packet e \<and> wf_elements es)"

fun packet_depth :: "osc_packet \<Rightarrow> nat"
  and bundle_depth :: "osc_bundle \<Rightarrow> nat"
  and elements_depth :: "osc_packet list \<Rightarrow> nat" where
  "packet_depth (Message m) = 0"
| "packet_depth (Bundle b) = bundle_depth b"
| "bundle_depth (OscBundle t es) = elements_depth es"
| "elements_depth [] = 0"
| "elements_depth (e # es) = max (Suc (packet_depth e)) (elements_depth es)"

lemma wf_args_append [simp]: "wf_args (xs @ ys) \<longleftrightarrow> wf_args xs \<and> wf_args ys"
  by (induction xs) auto

lemma args_depth_append [simp]: "args_depth (xs @ ys) = max (args_depth xs) (args_depth ys)"
  by (induction xs) auto

lemma read_str_wf:
  assumes "read_str um data start = Ok (s, q)"
  shows "osc_string s \<and> (\<exists>n. s = take n (drop start data) \<and> start + n < length data
    \<and> data ! (start + n) = 0)"
proof -
  from assms obtain i where i: "position (\<lambda>b. b = 0) (drop start data) = Some i"
    and s: "s = take i (drop start data)" and v: "utf8_valid s"
    by (auto simp: read_str_def slice_eq_Ok split: if_splits)
  have "0 \<notin> set s"
    using position_first [OF i] position_less [OF i] by (auto simp: s in_set_conv_nth)
  moreover have "start + i < length data" and "data ! (start + i) = 0"
    using position_less [OF i] by auto
  ultimately show ?thesis using v s by (auto simp: osc_string_def)
qed

lemma read_blob_wf: "read_blob um data pos = Ok (b, q) \<Longrightarrow> length b < 2 ^ 32"
  by (auto simp: read_blob_def Let_def slice_eq_Ok split: if_splits
      intro!: min.strict_coboundedI2)

lemma read_single_arg_wf:
  assumes "read_single_arg um data pos tag = Ok (a, q)"
  shows "wf_arg a \<and> arg_depth a = 0"
  using assms
  by (auto simp: read_single_arg_def Let_def dest: read_str_wf read_blob_wf split: if_splits)

text \<open>The accumulator with \<open>i\<close> accumulators below it holds arrays at most \<open>31 - i\<close> deep.\<close>

fun stack_ok :: "osc_arg list list \<Rightarrow> bool" where
  "stack_ok [] = True"
| "stack_ok (acc # below) =
     (wf_args acc \<and> args_depth acc + length below < MAX_NESTING_DEPTH \<and> stack_ok below)"

lemma typed_args_loop_wf:
  "typed_args_loop um data tags pos stack = Ok (stack', q) \<Longrightarrow> stack_ok stack \<Longrightarrow> stack_ok stack'"
proof (induction um data tags pos stack arbitrary: stack' q rule: typed_args_loop.induct)
  case (2 um data tag tags pos stack)
  show ?case
    using "2.prems" "2.IH"
    using read_single_arg_wf [of um data pos tag]
    by (cases stack; cases "read_single_arg um data pos tag")
      (auto simp: max_def split: if_splits list.split_asm)
qed simp

lemma read_typed_args_wf:
  assumes "read_typed_args um data pos tags = Ok (as, q)"
  shows "wf_args as \<and> args_depth as < MAX_NESTING_DEPTH"
proof -
  from assms have "typed_args_loop um data tags pos [[]] = Ok ([as], q)"
    by (cases "typed_args_loop um data tags pos [[]]")
      (auto simp: read_typed_args_def split: list.split_asm)
  then have "stack_ok [as]"
    by (rule typed_args_loop_wf) (simp add: MAX_NESTING_DEPTH_def)
  then show ?thesis by simp
qed

lemma decode_message_wf:
  assumes "decode_message um data = Ok m" and "get data 0 = Some (ascii CHR ''/'')"
  shows "wf_message m"
proof -
  from assms(1) obtain p tags p' q where s: "read_str um data 0 = Ok (address m, p)"
    and a: "read_typed_args um data p' tags = Ok (args m, q)"
    by (auto simp: decode_message_def)
  from read_str_wf [OF s] obtain n where o: "osc_string (address m)"
    and n: "address m = take n data" "n < length data" "data ! n = 0" by auto
  have "n \<noteq> 0"
    using assms(2) n(3) by (intro notI) (simp add: ascii_def)
  then have "take 1 (address m) = [data ! 0]"
    using n by (cases data) (auto simp: take_Cons')
  with assms(2) o read_typed_args_wf [OF a] show ?thesis
    by (auto simp: wf_message_def)
qed

lemma decode_with_depth_wf:
  "decode_with_depth um data depth = Ok p \<Longrightarrow>
     wf_packet p \<and> packet_depth p + depth \<le> MAX_NESTING_DEPTH"
  "decode_bundle um data depth = Ok b \<Longrightarrow> depth \<le> MAX_NESTING_DEPTH \<Longrightarrow>
     wf_bundle b \<and> bundle_depth b + depth \<le> MAX_NESTING_DEPTH"
  "decode_elements um data depth pos = Ok es \<Longrightarrow> depth \<le> MAX_NESTING_DEPTH \<Longrightarrow>
     wf_elements es \<and> elements_depth es + depth \<le> MAX_NESTING_DEPTH"
proof (induction um data depth and um data depth and um data depth pos
    arbitrary: p and b and es rule: decode_with_depth_decode_bundle_decode_elements.induct)
  case (1 um data depth)
  then show ?case
    by (auto simp: decode_with_depth.simps [of um data] dest: decode_message_wf split: if_splits)
next
  case (2 um data depth)
  then show ?case
    by (auto simp: decode_bundle.simps [of um data])
next
  case (3 um data depth pos)
  show ?case
  proof (cases "pos < length data")
    case True
    with "3.prems" obtain n p' "end" part e es' where r: "read_u32 um data pos = Ok (n, p')"
        "element_end um p' (unat n) = Ok end" "\<not> length data < end"
        "slice data p' end = (Ok part :: (byte list, osc_error) result)"
      and e: "decode_with_depth um part (depth + 1) = Ok e"
      and es': "decode_elements um data depth end = Ok es'" and es: "es = e # es'"
      unfolding decode_elements.simps [of um data depth pos] by (force split: if_splits)
    have "wf_packet e \<and> packet_depth e + (depth + 1) \<le> MAX_NESTING_DEPTH"
      by (rule "3.IH"(1) [OF True r(1) refl r(2-4) e])
    moreover have "wf_elements es' \<and> elements_depth es' + depth \<le> MAX_NESTING_DEPTH"
      by (rule "3.IH"(2) [OF True r(1) refl r(2-4) e es' "3.prems"(2)])
    ultimately show ?thesis by (simp add: es max_def)
  next
    case False
    with "3.prems" show ?thesis by (auto simp: decode_elements.simps [of um data])
  qed
qed

end
