(* ===== verification/Osc_Roundtrip.thy ===== *)
theory Osc_Roundtrip
  imports Osc_Decode
begin

text \<open>
  The encoder and the decoder of OSC against each other. The writers and readers of the
  fields are interpretations of the codec interface; on top of them, type tags and argument
  bytes are followed through the stack of accumulators, and size prefixes through the
  nesting of bundles.
\<close>

subsection \<open>Fields\<close>

interpretation exact: offset_codec "\<lambda>bs. bs" "read_exact um n"
  "\<lambda>bs. length bs = n \<and> aligned n" "slice_ok um" aligned for um n
  by unfold_locales (auto simp: read_exact_Ok slice_ok_def intro: aligned_add)

interpretation u32: offset_codec "to_be 4" "read_u32 um" "\<lambda>v. True" "slice_ok um" aligned for um
  by unfold_locales (auto simp: read_u32_Ok slice_ok_def intro: aligned_add)

interpretation time: offset_codec "\<lambda>t. write_timetag t []" "read_timetag um" "\<lambda>t. True"
  "slice_ok um" aligned for um
proof
  fix t :: osc_time_tag and pre post :: "byte list"
  assume "slice_ok um (pre @ write_timetag t [] @ post)"
  then show "read_timetag um (pre @ write_timetag t [] @ post) (length pre)
      = Ok (t, length pre + length (write_timetag t []))"
    by (auto simp: read_timetag_def read_exact_Ok write_timetag_def slice_ok_def)
qed (auto intro: aligned_add)

lemma align4_padding: "n + 3 \<le> um \<Longrightarrow> align4 um n = Ok (n + padding n)"
  using mod_4_cases [of n] by (elim disjE; simp add: align4_def padding_def; presburger)

lemma write_str_Nil: "write_str s [] = s @ 0 # replicate (padding (length s + 1)) 0"
  by (simp add: write_str_def pad4_eq)

lemma write_blob_Nil:
  "write_blob b [] = to_be 4 (word_of_nat (length b) :: 32 word) @ b @ replicate (padding (length b)) 0"
  using padding_add [of 4 "length b"] by (simp add: write_blob_def pad4_eq)

interpretation str: offset_codec "\<lambda>s. write_str s []" "read_str um" osc_string "slice_ok um" aligned for um
proof
  fix s :: rstring and pre post :: "byte list"
  let ?n = "length pre + length s"
  let ?z = "replicate (padding (length s + 1)) 0 @ post"
  assume s: "osc_string s" and a: "aligned (length pre)" and ok: "slice_ok um (pre @ write_str s [] @ post)"
  have data: "pre @ write_str s [] @ post = pre @ s @ 0 # ?z"
    by (simp add: write_str_Nil)
  with ok have "?n + 1 + 3 \<le> um"
    by (intro slice_ok_add) auto
  then have al: "align4 um (?n + 1) = Ok (?n + 1 + padding (?n + 1))"
    by (rule align4_padding)
  have pad: "padding (Suc ?n) = padding (Suc (length s))"
    using padding_add [of "length pre" "Suc (length s)"] a by (simp add: aligned_def)
  have pos: "position (\<lambda>b. b = 0) (s @ 0 # ?z) = Some (length s)"
    using s by (intro position_append) (auto simp: osc_string_def)
  show "read_str um (pre @ write_str s [] @ post) (length pre)
      = Ok (s, length pre + length (write_str s []))"
    unfolding data using s pos al \<open>?n + 1 + 3 \<le> um\<close>
    by (simp add: read_str_def slice_eq_Ok osc_string_def pad write_str_Nil)
qed (auto intro: aligned_add)

interpretation blob: offset_codec "\<lambda>b. write_blob b []" "read_blob um" "\<lambda>b. length b < 2 ^ 32"
  "slice_ok um" aligned for um
proof
  fix b pre post :: "byte list"
  let ?n = "length pre + 4 + length b"
  assume b: "length b < 2 ^ 32" and a: "aligned (length pre)"
    and ok: "slice_ok um (pre @ write_blob b [] @ post)"
  have "?n + 3 \<le> um"
    using ok by (rule slice_ok_add) (simp add: write_blob_Nil)
  then have al: "align4 um ?n = Ok (?n + padding ?n)"
    by (rule align4_padding)
  have pad: "padding ?n = padding (length b)"
    using padding_add [of "length pre + 4" "length b"] a
    by (simp add: aligned_def)
  show "read_blob um (pre @ write_blob b [] @ post) (length pre)
      = Ok (b, length pre + length (write_blob b []))"
    using b al \<open>?n + 3 \<le> um\<close>
    by (simp add: read_blob_def read_u32_Ok slice_eq_Ok pad write_blob_Nil Let_def)
qed (auto intro: aligned_add)

subsection \<open>Arguments\<close>

fun arg_tags :: "osc_arg \<Rightarrow> byte list" where
  "arg_tags (OscArray as) = ascii CHR ''['' # concat (map arg_tags as) @ [ascii CHR '']'']"
| "arg_tags a = [type_tag a]"

lemma collect_type_tags_concat: "collect_type_tags as tags = tags @ concat (map arg_tags as)"
  by (induction as tags rule: collect_type_tags.induct) simp_all

lemma type_tag_ascii: "type_tag a < 0x80"
  by (induction a rule: type_tag.induct) (simp_all add: ascii_def)

lemma type_tag_not_0: "type_tag a \<noteq> 0"
  by (induction a rule: type_tag.induct) (simp_all add: ascii_def)

lemma arg_tags_ascii: "t \<in> set (arg_tags a) \<Longrightarrow> t < 0x80 \<and> t \<noteq> 0"
  by (induction a rule: arg_tags.induct)
    (auto simp: type_tag_ascii type_tag_not_0 ascii_def)

lemma write_args_concat: "write_args as [] = concat (map (\<lambda>a. write_arg a []) as)"
  by (simp add: write_args_block)

lemmas field_reads = u32.rd_enc exact.rd_enc time.rd_enc str.rd_enc blob.rd_enc

text \<open>An argument that is not an array is read back under its own tag.\<close>

lemma read_single_arg_enc:
  assumes "wf_arg a" and "arg_depth a = 0" and "aligned (length pre)"
    and "slice_ok um (pre @ write_arg a [] @ post)"
  shows "read_single_arg um (pre @ write_arg a [] @ post) (length pre) (unat (type_tag a))
       = Ok (a, length pre + length (write_arg a []))"
proof -
  have x4: "read_exact um 4 (pre @ bs @ post) (length pre) = Ok (bs, length pre + 4)"
    if "length bs = 4" and "slice_ok um (pre @ bs @ post)" for bs
    using exact.rd_enc [of bs 4 pre um post] that assms(3) by simp
  have x8: "read_exact um 8 (pre @ bs @ post) (length pre) = Ok (bs, length pre + 8)"
    if "length bs = 8" and "slice_ok um (pre @ bs @ post)" for bs
    using exact.rd_enc [of bs 8 pre um post] that assms(3) by simp
  have x1: "read_exact um 4 (pre @ w # x # y # z # post) (length pre)
      = Ok ([w, x, y, z], Suc (Suc (Suc (Suc (length pre)))))"
    if "slice_ok um (pre @ w # x # y # z # post)" for w x y z
    using x4 [of "[w, x, y, z]"] that by simp
  have c: "unat (word_of_nat c :: 32 word) = c" if "is_scalar c" for c
    using that by (intro unat_word_of_nat_32) (auto simp: is_scalar_def)
  show ?thesis
    using assms
  proof (cases a)
    case (OscBool b)
    then show ?thesis by (cases b) (simp_all add: read_single_arg_def ascii_def)
  qed (auto simp: read_single_arg_def ascii_def read_i32_def x1 x4 x8 c str.rd_enc blob.rd_enc
      time.rd_enc Let_def)
qed

lemma type_tag_not_bracket:
  "arg_depth a = 0 \<Longrightarrow> unat (type_tag a) \<noteq> tag_char CHR ''['' \<and> unat (type_tag a) \<noteq> tag_char CHR '']''"
  by (induction a rule: type_tag.induct) (simp_all add: ascii_def)

lemma typed_args_loop_single:
  assumes "wf_arg a" and "arg_depth a = 0" and "aligned (length pre)"
    and "slice_ok um (pre @ write_arg a [] @ post)"
  shows "typed_args_loop um (pre @ write_arg a [] @ post) (map unat (arg_tags a) @ rest) (length pre)
           (upper # below)
       = typed_args_loop um (pre @ write_arg a [] @ post) rest
           (length pre + length (write_arg a [])) ((upper @ [a]) # below)"
proof -
  have "arg_tags a = [type_tag a]" using assms(2) by (cases a) auto
  with read_single_arg_enc [OF assms] type_tag_not_bracket [OF assms(2)] show ?thesis by simp
qed

text \<open>The tags of an argument, read off the stack machine, push exactly that argument.\<close>

lemma typed_args_loop_enc:
  "wf_arg a \<Longrightarrow> arg_depth a + length below < MAX_NESTING_DEPTH \<Longrightarrow> aligned (length pre)
     \<Longrightarrow> slice_ok um (pre @ write_arg a [] @ post)
     \<Longrightarrow> typed_args_loop um (pre @ write_arg a [] @ post) (map unat (arg_tags a) @ rest) (length pre)
           (upper # below)
       = typed_args_loop um (pre @ write_arg a [] @ post) rest
           (length pre + length (write_arg a [])) ((upper @ [a]) # below)"
  "wf_args as \<Longrightarrow> args_depth as + length below < MAX_NESTING_DEPTH \<Longrightarrow> aligned (length pre)
     \<Longrightarrow> slice_ok um (pre @ write_args as [] @ post)
     \<Longrightarrow> typed_args_loop um (pre @ write_args as [] @ post)
           (map unat (concat (map arg_tags as)) @ rest) (length pre) (upper # below)
       = typed_args_loop um (pre @ write_args as [] @ post) rest
           (length pre + length (write_args as [])) ((upper @ as) # below)"
proof (induction a and as arbitrary: below pre post rest upper and below pre post rest upper
    rule: arg_depth_args_depth.induct)
  case (1 as)
  have "typed_args_loop um (pre @ write_args as [] @ post)
      (map unat (concat (map arg_tags as)) @ unat (ascii CHR '']'') # rest) (length pre)
        ([] # upper # below)
      = typed_args_loop um (pre @ write_args as [] @ post) (unat (ascii CHR '']'') # rest)
          (length pre + length (write_args as [])) (as # upper # below)"
    using "1.IH" [of "upper # below" pre post "unat (ascii CHR '']'') # rest" "[]"] "1.prems" by simp
  with "1.prems" show ?case
    by (simp add: ascii_def)
next
  case 3
  then show ?case by simp
next
  case (4 a as)
  let ?w = "write_arg a []" and ?v = "write_args as []"
  have w: "write_args (a # as) [] = ?w @ ?v"
    by (simp add: write_args_concat write_args_block [of ?w] aligned_write_arg)
  have "typed_args_loop um (pre @ ?w @ (?v @ post))
      (map unat (arg_tags a) @ (map unat (concat (map arg_tags as)) @ rest)) (length pre) (upper # below)
    = typed_args_loop um (pre @ ?w @ (?v @ post)) (map unat (concat (map arg_tags as)) @ rest)
        (length pre + length ?w) ((upper @ [a]) # below)"
    using "4.prems" w by (intro "4.IH"(1)) auto
  also have "\<dots> = typed_args_loop um ((pre @ ?w) @ ?v @ post) rest
        (length (pre @ ?w) + length ?v) ((upper @ [a] @ as) # below)"
    using "4.prems" w "4.IH"(2) [of below "pre @ ?w" post rest "upper @ [a]"]
    by (simp add: aligned_add)
  finally show ?case by (simp add: w [simplified] add.assoc)
qed (rule typed_args_loop_single; simp)+

subsection \<open>Messages\<close>

definition tag_string :: "osc_arg list \<Rightarrow> byte list" where
  "tag_string as = ascii CHR '','' # concat (map arg_tags as)"

lemma tag_string_ascii: "t \<in> set (tag_string as) \<Longrightarrow> t < 0x80 \<and> t \<noteq> 0"
  using arg_tags_ascii by (auto simp: tag_string_def ascii_def)

lemma osc_string_tag_string: "osc_string (tag_string as)"
  using tag_string_ascii [of _ as] utf8_valid_ascii [of "tag_string as"] by (auto simp: osc_string_def)

lemma chars_tag_string: "drop 1 (chars (tag_string as)) = map unat (concat (map arg_tags as))"
  using tag_string_ascii [of _ as] utf8_decode_ascii [of "tag_string as"]
  by (simp add: chars_def) (simp add: tag_string_def)

lemma encode_message_parts:
  assumes "aligned (length buf)"
  shows "encode_message m buf
       = buf @ write_str (address m) [] @ write_str (tag_string (args m)) [] @ write_args (args m) []"
proof -
  let ?a = "write_str (address m) buf" and ?t = "tag_string (args m)"
  have "collect_type_tags (args m) [ascii CHR '',''] = ?t"
    by (simp add: collect_type_tags_concat tag_string_def)
  then have "encode_message m buf = write_args (args m) (write_str ?t ?a)"
    by (simp add: encode_message_def)
  also have "\<dots> = write_str ?t ?a @ write_args (args m) []"
    by (simp add: write_args_block [of "write_str ?t ?a"] write_args_concat)
  also have "write_str ?t ?a = ?a @ write_str ?t []"
    by (rule write_str_block) simp
  also have "?a = buf @ write_str (address m) []"
    by (rule write_str_block [OF assms])
  finally show ?thesis by simp
qed

lemma encode_message_block: "aligned (length buf) \<Longrightarrow> encode_message m buf = buf @ encode_message m []"
  by (simp add: encode_message_parts)

lemma aligned_encode_message [simp]: "aligned (length (encode_message m []))"
  by (simp add: encode_message_parts aligned_add aligned_write_args)

lemma decode_message_enc:
  assumes "wf_message m" and "slice_ok um (encode_message m [])"
  shows "decode_message um (encode_message m []) = Ok m"
proof -
  let ?t = "tag_string (args m)"
  let ?a = "write_str (address m) []" and ?ts = "write_str ?t []" and ?w = "write_args (args m) []"
  have data: "encode_message m [] = ?a @ ?ts @ ?w" by (simp add: encode_message_parts)
  with assms have ok: "slice_ok um (?a @ ?ts @ ?w)" by simp
  have "read_str um (?a @ ?ts @ ?w) 0 = Ok (address m, length ?a)"
    using assms(1) ok str.rd_enc [of "address m" "[]" um "?ts @ ?w"] by (simp add: wf_message_def)
  moreover have "read_str um (?a @ ?ts @ ?w) (length ?a) = Ok (?t, length ?a + length ?ts)"
    using ok by (intro str.rd_enc) (auto simp: osc_string_tag_string)
  moreover have "(?a @ ?ts @ ?w) ! length ?a = ascii CHR '',''" and "?ts \<noteq> []"
    by (simp_all add: write_str_Nil nth_append tag_string_def)
  moreover have "typed_args_loop um ((?a @ ?ts) @ ?w @ []) (map unat (concat (map arg_tags (args m))) @ [])
        (length (?a @ ?ts)) ([] # [])
      = typed_args_loop um ((?a @ ?ts) @ ?w @ []) [] (length (?a @ ?ts) + length ?w)
          (([] @ args m) # [])"
    using assms(1) ok by (intro typed_args_loop_enc) (auto simp: wf_message_def intro: aligned_add)
  ultimately show ?thesis
    using chars_tag_string [of "args m"]
    by (simp add: data decode_message_def read_typed_args_def)
qed

subsection \<open>Bundles\<close>

definition element_block :: "osc_packet \<Rightarrow> byte list" where
  "element_block e =
     to_be 4 (word_of_nat (length (encode_packet e [])) :: 32 word) @ encode_packet e []"

lemma encode_packet_block:
  "aligned (length buf) \<Longrightarrow> encode_packet p buf = buf @ encode_packet p []
     \<and> aligned (length (encode_packet p []))"
  "aligned (length buf) \<Longrightarrow> encode_bundle b buf = buf @ encode_bundle b []
     \<and> aligned (length (encode_bundle b []))"
  "aligned (length buf) \<Longrightarrow> encode_elements es buf = buf @ concat (map element_block es)
     \<and> aligned (length (concat (map element_block es)))"
proof (induction p and b and es arbitrary: buf and buf and buf
    rule: packet_depth_bundle_depth_elements_depth.induct)
  case (1 m)
  then show ?case by (simp add: encode_message_block [of buf])
next
  case (2 b)
  then show ?case unfolding encode_packet.simps by blast
next
  case (3 t es)
  let ?C = "concat (map element_block es)"
  have aligned_magic: "aligned (length bundle_magic + 8)" by (simp add: bundle_magic_def aligned_def)
  have a: "aligned (length (write_timetag t (buf @ bundle_magic)))" if "aligned (length buf)" for buf
    using aligned_add [OF that aligned_magic] by (simp add: add.assoc)
  have ab: "encode_elements es (write_timetag t (buf @ bundle_magic))
      = write_timetag t (buf @ bundle_magic) @ ?C"
    and a0: "encode_elements es (write_timetag t bundle_magic) = write_timetag t bundle_magic @ ?C"
    and C: "aligned (length ?C)"
    using "3.IH" [OF a [OF "3.prems"]] "3.IH" [OF a [of "[]"]] by simp_all
  show ?case
    using C
    by (simp add: ab a0 aligned_magic aligned_add) (simp add: write_timetag_def)
next
  case 4
  then show ?case by simp
next
  case (5 e es)
  let ?e = "encode_packet e []"
  have e: "encode_packet e (buf @ replicate 4 0) = buf @ replicate 4 0 @ ?e" and a: "aligned (length ?e)"
    using "5.IH"(1) [of "buf @ replicate 4 0"] "5.prems" by (simp_all add: aligned_add)
  have "aligned (length (buf @ element_block e))"
    using "5.prems" a by (simp add: element_block_def aligned_add)
  from "5.IH"(2) [OF this] a show ?case
    by (simp add: Let_def e element_block_def [of e] aligned_add)
qed

lemmas encode_elements_blocks = encode_packet_block(3) [THEN conjunct1]

lemma encode_bundle_parts:
  "encode_bundle (OscBundle t es) []
     = bundle_magic @ write_timetag t [] @ concat (map element_block es)"
  using encode_elements_blocks [of "write_timetag t bundle_magic" es]
  by (simp add: write_timetag_def bundle_magic_def aligned_def)

text \<open>The size of a packet, without writing it out.\<close>

lemma length_element_blocks:
  "length (concat (map element_block es)) = (\<Sum>e\<leftarrow>es. 4 + length (encode_packet e []))"
  by (induction es) (auto simp: element_block_def)

lemma length_encode_bundle:
  "length (encode_bundle (OscBundle t es) []) = 16 + (\<Sum>e\<leftarrow>es. 4 + length (encode_packet e []))"
  unfolding encode_bundle_parts by (simp add: length_element_blocks bundle_magic_def)

lemma length_encode_message:
  "length (encode_message m []) = length (write_str (address m) [])
     + length (write_str (tag_string (args m)) []) + length (write_args (args m) [])"
  by (simp add: encode_message_parts)

lemma length_write_str: "length (write_str s []) = length s + 1 + padding (length s + 1)"
  by (simp add: write_str_Nil)

lemma length_write_blob: "length (write_blob b []) = 4 + length b + padding (length b)"
  by (simp add: write_blob_Nil)

lemmas encoded_length = encode_def length_encode_bundle length_encode_message length_write_str
  length_write_blob write_args_concat tag_string_def padding_def

lemma decode_elements_Cons:
  assumes "length (encode_packet e []) < 2 ^ 32"
    and "slice_ok um (pre @ element_block e @ post)"
  shows "decode_elements um (pre @ element_block e @ post) depth (length pre)
       = and_then (decode_with_depth um (encode_packet e []) (depth + 1)) (\<lambda>e'.
         and_then (decode_elements um (pre @ element_block e @ post) depth
           (length (pre @ element_block e))) (\<lambda>elements. Ok (e' # elements)))"
proof -
  let ?d = "pre @ element_block e @ post" and ?e = "encode_packet e []"
  let ?n = "word_of_nat (length ?e) :: 32 word" and ?stop = "length pre + 4 + length ?e"
  have n: "unat ?n = length ?e" using assms(1) by simp
  have lt: "length pre < length ?d" and le: "\<not> length ?d < ?stop"
    and l: "length (pre @ element_block e) = ?stop"
    by (simp_all add: element_block_def)
  have r: "read_u32 um ?d (length pre) = Ok (?n, length pre + 4)"
    using assms(2) by (auto simp: read_u32_Ok element_block_def slice_ok_def)
  have el: "element_end um (length pre + 4) (length ?e) = Ok ?stop"
    using assms(2) by (auto simp: element_block_def slice_ok_def)
  have sl: "slice ?d (length pre + 4) ?stop = (Ok ?e :: (byte list, osc_error) result)"
    by (simp add: slice_eq_Ok element_block_def)
  show ?thesis
    unfolding decode_elements.simps [of um ?d depth "length pre"]
    by (simp only: lt le l n r el sl if_True if_False and_then.simps prod.case)
qed

lemma encode_message_start:
  assumes "wf_message m"
  shows "take 8 (encode_message m []) \<noteq> bundle_magic"
    and "get (encode_message m []) 0 = Some (ascii CHR ''/'')"
proof -
  from assms have "take 1 (address m) = [ascii CHR ''/'']" by (simp add: wf_message_def)
  then obtain cs where "address m = ascii CHR ''/'' # cs" by (cases "address m") auto
  then show "take 8 (encode_message m []) \<noteq> bundle_magic"
    and "get (encode_message m []) 0 = Some (ascii CHR ''/'')"
    by (simp_all add: encode_message_parts write_str_Nil bundle_magic_def ascii_def get_def)
qed

lemma decode_bundle_enc:
  assumes "slice_ok um (encode_bundle (OscBundle t es) [])"
  shows "decode_bundle um (encode_bundle (OscBundle t es) []) depth
       = and_then (decode_elements um ((bundle_magic @ write_timetag t []) @ concat (map element_block es))
           depth (length (bundle_magic @ write_timetag t []))) (\<lambda>elements. Ok (OscBundle t elements))"
proof -
  let ?es = "concat (map element_block es)"
  have m: "length bundle_magic = 8" by (simp add: bundle_magic_def)
  have "read_timetag um (bundle_magic @ write_timetag t [] @ ?es) 8 = Ok (t, 16)"
    using assms [unfolded encode_bundle_parts]
      time.rd_enc [where x = t and pre = bundle_magic and post = ?es and um = um] by (simp add: m)
  then show ?thesis
    unfolding encode_bundle_parts decode_bundle.simps [of um _ depth] by (simp add: m)
qed

text \<open>
  The depth counter is the only thing between the encoder's output and its value: a chain
  of elements within the cap comes back, a longer one is refused with the nesting error.
\<close>

lemma decode_with_depth_enc:
  "wf_packet p \<Longrightarrow> slice_ok um (encode_packet p []) \<Longrightarrow> length (encode_packet p []) < 2 ^ 32
     \<Longrightarrow> decode_with_depth um (encode_packet p []) depth
       = (if packet_depth p + depth \<le> MAX_NESTING_DEPTH then Ok p else Err BundleNesting)"
  "wf_bundle b \<Longrightarrow> slice_ok um (encode_bundle b []) \<Longrightarrow> length (encode_bundle b []) < 2 ^ 32
     \<Longrightarrow> depth \<le> MAX_NESTING_DEPTH
     \<Longrightarrow> decode_bundle um (encode_bundle b []) depth
       = (if bundle_depth b + depth \<le> MAX_NESTING_DEPTH then Ok b else Err BundleNesting)"
  "wf_elements es \<Longrightarrow> slice_ok um (pre @ concat (map element_block es))
     \<Longrightarrow> length (concat (map element_block es)) < 2 ^ 32 \<Longrightarrow> depth \<le> MAX_NESTING_DEPTH
     \<Longrightarrow> decode_elements um (pre @ concat (map element_block es)) depth (length pre)
       = (if elements_depth es + depth \<le> MAX_NESTING_DEPTH then Ok es else Err BundleNesting)"
proof (induction p and b and es arbitrary: depth and depth and depth pre
    rule: packet_depth_bundle_depth_elements_depth.induct)
  case (1 m)
  with encode_message_start [of m] show ?case
    by (simp add: decode_with_depth.simps [of um _ depth] decode_message_enc)
next
  case (2 b)
  obtain t es where b: "b = OscBundle t es" by (cases b)
  have "take 8 (encode_bundle b []) = bundle_magic"
    unfolding b encode_bundle_parts by (simp add: bundle_magic_def)
  with 2 show ?case by (simp add: decode_with_depth.simps [of um _ depth])
next
  case (3 t es)
  let ?pre = "bundle_magic @ write_timetag t []" and ?es = "concat (map element_block es)"
  have "decode_elements um (?pre @ ?es) depth (length ?pre)
      = (if elements_depth es + depth \<le> MAX_NESTING_DEPTH then Ok es else Err BundleNesting)"
    using "3.prems"(1,4) "3.prems"(2,3) [unfolded encode_bundle_parts] by (intro "3.IH") auto
  with decode_bundle_enc [OF "3.prems"(2), of depth] show ?case by simp
next
  case 4
  then show ?case by (simp add: decode_elements.simps [of um pre])
next
  case (5 e es)
  have small: "slice_ok um (encode_packet e [])" and len: "length (encode_packet e []) < 2 ^ 32"
    using "5.prems"(2,3) by (auto simp: element_block_def slice_ok_def)
  have "decode_with_depth um (encode_packet e []) (depth + 1)
      = (if packet_depth e + (depth + 1) \<le> MAX_NESTING_DEPTH then Ok e else Err BundleNesting)"
    using "5.prems"(1) small len by (intro "5.IH"(1)) auto
  moreover have "decode_elements um ((pre @ element_block e) @ concat (map element_block es)) depth
      (length (pre @ element_block e))
      = (if elements_depth es + depth \<le> MAX_NESTING_DEPTH then Ok es else Err BundleNesting)"
    using "5.prems" by (intro "5.IH"(2)) auto
  ultimately show ?case
    using decode_elements_Cons [OF len, of um pre "concat (map element_block es)" depth] "5.prems"(2)
    by auto
qed

text \<open>The decoder on the encoder's output, without a bound on the nesting.\<close>

lemma decode_encode:
  assumes "wf_packet p" and "slice_ok um (encode p)" and "length (encode p) < 2 ^ 32"
  shows "decode um (encode p)
       = (if packet_depth p \<le> MAX_NESTING_DEPTH then Ok p else Err BundleNesting)"
  using assms decode_with_depth_enc(1) [of p um 0] by (simp add: decode_def encode_def)

subsection \<open>A sample packet\<close>

definition sample_packet :: osc_packet where
  "sample_packet = Bundle (OscBundle IMMEDIATE
     [Message \<lparr>address = map ascii ''/synth'',
        args = [OscInt 60, OscArray [OscString (map ascii ''saw''), OscBool True], OscBlob [1, 2, 3]]\<rparr>,
      Bundle (OscBundle \<lparr>seconds = 1, fractional = 2\<rparr>
        [Message \<lparr>address = map ascii ''/off'', args = []\<rparr>])])"

lemmas sample_simps = sample_packet_def wf_message_def osc_string_def utf8_valid_def
  utf8_decode_Cons ascii_def MAX_NESTING_DEPTH_def IMMEDIATE_def

lemma wf_sample: "wf_packet sample_packet"
  and depth_sample: "packet_depth sample_packet \<le> MAX_NESTING_DEPTH"
  by (simp_all add: sample_simps)

lemma length_sample: "length (encode sample_packet) = 88"
  by (simp add: sample_packet_def encoded_length del: encode_bundle.simps write_args.simps)

lemma sample_fits: "slice_ok usize_max_64 (encode sample_packet)"
  "slice_ok usize_max_32 (encode sample_packet)" "length (encode sample_packet) < 2 ^ 32"
  by (simp_all add: slice_ok_def length_sample)

lemma decode_sample: "decode usize_max_64 (encode sample_packet) = Ok sample_packet"
  using decode_encode [OF wf_sample sample_fits(1,3)] depth_sample by simp

text \<open>\<open>n\<close> bundles around a packet.\<close>

fun nested :: "nat \<Rightarrow> osc_packet \<Rightarrow> osc_packet" where
  "nested 0 p = p"
| "nested (Suc n) p = Bundle (OscBundle IMMEDIATE [nested n p])"

lemma wf_nested: "wf_packet p \<Longrightarrow> wf_packet (nested n p)"
  by (induction n) auto

lemma depth_nested: "packet_depth (nested n p) = n + packet_depth p"
  by (induction n) auto

lemma length_nested: "length (encode_packet (nested n p) []) = 20 * n + length (encode_packet p [])"
  by (induction n) (simp_all add: length_encode_bundle del: encode_bundle.simps)

subsection \<open>Properties\<close>

text \<open>
  C1: Every packet that the wire format can express and whose nesting is within the cap
  survives encoding and decoding unchanged: addresses, all fourteen argument types, nested
  arrays and nested bundles with their time tags. The length bounds say that the encoded
  bytes exist on the target and that every size fits its four-byte field.
\<close>

theorem osc_roundtrip:
  assumes "wf_packet p" and "packet_depth p \<le> MAX_NESTING_DEPTH"
    and "slice_ok um (encode p)" and "length (encode p) < 2 ^ 32"
  shows "decode um (encode p) = Ok p"
  using assms by (simp add: decode_encode)

theorem osc_roundtrip_witness:
  "decode usize_max_64 (encode sample_packet) = Ok sample_packet"
  by (rule osc_roundtrip [OF wf_sample depth_sample sample_fits(1,3)])

text \<open>
  C3: Whatever bytes arrive, the decoder returns a packet or an error: no index, slice or
  offset computation panics, on 32-bit targets as on 64-bit ones.
\<close>

theorem osc_decode_no_panic:
  assumes "slice_ok um data"
  shows "decode um data \<noteq> Panic"
  using assms by (simp add: decode_def decode_with_depth_no_panic)

theorem osc_decode_no_panic_witness:
  "decode usize_max_32 [0x2F, 0x61, 0, 0, 0x2C, 0x73, 0] \<noteq> Panic"
  by (rule osc_decode_no_panic) (simp add: slice_ok_def)

text \<open>
  C27: Whatever the decoder accepts is a value of the format: no string has a NUL, every
  character is a scalar value, every address starts with a slash, arrays are nested less
  than 32 deep and bundles at most 32 deep, however hostile the input.
\<close>

theorem osc_decode_wf:
  assumes "decode um data = Ok p"
  shows "wf_packet p \<and> packet_depth p \<le> MAX_NESTING_DEPTH"
  using decode_with_depth_wf(1) [OF assms [unfolded decode_def]] by simp

theorem osc_decode_wf_witness:
  "decode usize_max_64 (encode sample_packet) = Ok sample_packet
     \<and> wf_packet sample_packet \<and> packet_depth sample_packet \<le> MAX_NESTING_DEPTH"
  using decode_sample osc_decode_wf [OF decode_sample] by simp

text \<open>
  Bundles nested deeper than the cap are refused with the nesting error and nothing is
  built, although the encoder writes them.
\<close>

lemma osc_deep_bundle_rejected:
  assumes "wf_packet p" and "MAX_NESTING_DEPTH < packet_depth p"
    and "slice_ok um (encode p)" and "length (encode p) < 2 ^ 32"
  shows "decode um (encode p) = Err BundleNesting"
  using assms by (simp add: decode_encode)

theorem osc_deep_bundle_rejected_witness:
  "decode usize_max_64 (encode (nested 40 sample_packet)) = Err BundleNesting"
proof (rule osc_deep_bundle_rejected)
  have "length (encode (nested 40 sample_packet)) = 888"
    using length_nested [of 40 sample_packet] length_sample by (simp add: encode_def)
  then show "slice_ok usize_max_64 (encode (nested 40 sample_packet))"
    and "length (encode (nested 40 sample_packet)) < 2 ^ 32"
    by (simp_all add: slice_ok_def)
qed (simp_all add: wf_nested wf_sample depth_nested MAX_NESTING_DEPTH_def)

text \<open>
  Decoding normalises: a packet that came off the wire is written back to bytes that
  decode to the same packet, whatever padding or truncation the original bytes had.
\<close>

lemma osc_decode_stable:
  assumes "decode um data = Ok p" and "slice_ok um (encode p)" and "length (encode p) < 2 ^ 32"
  shows "decode um (encode p) = Ok p"
  using decode_with_depth_wf(1) [OF assms(1) [unfolded decode_def]] assms(2,3)
  by (simp add: decode_encode)

theorem osc_decode_stable_witness:
  "decode usize_max_64 [0x2F, 0x61, 0] = Ok (Message \<lparr>address = [0x2F, 0x61], args = []\<rparr>)
     \<and> decode usize_max_64 (encode (Message \<lparr>address = [0x2F, 0x61], args = []\<rparr>))
       = Ok (Message \<lparr>address = [0x2F, 0x61], args = []\<rparr>)"
proof -
  let ?p = "Message \<lparr>address = [0x2F, 0x61 :: byte], args = []\<rparr>"
  have d: "decode usize_max_64 [0x2F, 0x61, 0] = Ok ?p"
    by (simp add: decode_def decode_with_depth.simps decode_message_def read_str_def slice_def
        utf8_valid_def utf8_decode_Cons uadd_def align4_def read_typed_args_def get_def ascii_def
        bundle_magic_def MAX_NESTING_DEPTH_def)
  have "length (encode ?p) = 8"
    by (simp add: encoded_length del: write_args.simps)
  with osc_decode_stable [OF d] d show ?thesis by (simp add: slice_ok_def)
qed

text \<open>Every encoded packet is a multiple of four bytes long, as OSC requires.\<close>

lemma osc_encode_aligned: "length (encode p) mod 4 = 0"
  using encode_packet_block(1) [of "[]" p] by (simp add: encode_def aligned_def)

end
