(* ===== verification/Core_Midi.thy ===== *)
theory Core_Midi
  imports Prelude
begin

text \<open>
  MIDI messages and the MIDI clock of \<open>crates/oxisound-core/src/lib.rs\<close>. The tempo
  that the clock computes from its window of timestamps is in \<open>Core_Clock\<close>.
\<close>

subsection \<open>Messages\<close>

record midi_message =
  m_status :: byte
  m_data :: "byte list"
  m_timestamp_micros :: "64 word"

definition is_sysex :: "midi_message \<Rightarrow> bool" where
  "is_sysex m \<longleftrightarrow> m_status m = 0xF0"

definition sysex_payload :: "midi_message \<Rightarrow> byte list option" where
  "sysex_payload m = (if is_sysex m then Some (m_data m) else None)"

definition new_sysex :: "byte list \<Rightarrow> midi_message" where
  "new_sysex payload = \<lparr>m_status = 0xF0, m_data = payload, m_timestamp_micros = 0\<rparr>"

definition to_bytes :: "midi_message \<Rightarrow> byte list" where
  "to_bytes m = (if is_sysex m then 0xF0 # m_data m @ [0xF7] else m_status m # m_data m)"

lemma to_bytes_not_Nil [simp]: "to_bytes m \<noteq> []"
  by (simp add: to_bytes_def)

lemma sysex_payload_new [simp]: "sysex_payload (new_sysex p) = Some p"
  by (simp add: sysex_payload_def new_sysex_def is_sysex_def)

subsection \<open>Output ports\<close>

text \<open>
  The contract of the trait \<open>MidiOutput\<close>: a message that is sent goes out as its bytes, behind what
  went out before; one that is refused may leave a first part of its bytes. \<open>wire\<close> is what has gone out.
\<close>

locale midi_port =
  fixes send :: "midi_message \<Rightarrow> 's \<Rightarrow> (unit, 'e) result \<times> 's"
    and wire :: "'s \<Rightarrow> byte list"
  assumes sent: "send msg s = (Ok u, s') \<Longrightarrow> wire s' = wire s @ to_bytes msg"
    and refused: "send msg s = (Err e, s') \<Longrightarrow> \<exists>part rest. to_bytes msg = part @ rest \<and> wire s' = wire s @ part"

subsection \<open>Clock\<close>

definition MIDI_CLOCK :: byte where [simp]: "MIDI_CLOCK = 0xF8"
definition MIDI_START :: byte where [simp]: "MIDI_START = 0xFA"
definition MIDI_CONTINUE :: byte where [simp]: "MIDI_CONTINUE = 0xFB"
definition MIDI_STOP :: byte where [simp]: "MIDI_STOP = 0xFC"

record midi_clock =
  tick_timestamps :: "64 word list"
  running :: bool

definition new_clock :: midi_clock where
  "new_clock = \<lparr>tick_timestamps = [], running = False\<rparr>"

definition tick :: "64 word \<Rightarrow> midi_clock \<Rightarrow> midi_clock" where
  "tick ts c =
     (let ticks = tick_timestamps c @ [ts]
      in \<lparr>tick_timestamps = (if 24 < length ticks then tl ticks else ticks), running = True\<rparr>)"

definition handle_message :: "midi_message \<Rightarrow> midi_clock \<Rightarrow> midi_clock" where
  "handle_message m c =
     (if m_status m = MIDI_CLOCK then tick (m_timestamp_micros m) c
      else if m_status m = MIDI_START then c\<lparr>tick_timestamps := [], running := True\<rparr>
      else if m_status m = MIDI_CONTINUE then c\<lparr>running := True\<rparr>
      else if m_status m = MIDI_STOP then c\<lparr>running := False\<rparr>
      else c)"

definition handle_all :: "midi_message list \<Rightarrow> midi_clock \<Rightarrow> midi_clock" where
  "handle_all ms c = fold handle_message ms c"

text \<open>The last \<open>n\<close> elements of a list, which is what the window keeps.\<close>

definition last_n :: "nat \<Rightarrow> 'a list \<Rightarrow> 'a list" where
  "last_n n xs = drop (length xs - n) xs"

lemma length_last_n [simp]: "length (last_n n xs) = min n (length xs)"
  by (simp add: last_n_def)

lemma last_n_snoc: "0 < n \<Longrightarrow> last_n n (xs @ [x]) = last_n n (last_n (n - 1) xs @ [x])"
  by (cases "length xs < n") (auto simp: last_n_def)

lemma Suc_diff_24: "24 \<le> n \<Longrightarrow> Suc (n - 24) = n - 23"
  by simp

lemma tick_window:
  "tick_timestamps c = last_n 24 xs \<Longrightarrow> tick_timestamps (tick ts c) = last_n 24 (xs @ [ts])"
  by (cases "length xs < 24")
    (auto simp: tick_def Let_def last_n_def tl_drop drop_Suc [symmetric] Suc_diff_le not_less Suc_diff_24)

text \<open>
  What the state is after a history: the ticks since the last Start, and whether the last
  message that is not ignored was anything but a Stop.
\<close>

fun ticks_since_start :: "midi_message list \<Rightarrow> 64 word list \<Rightarrow> 64 word list" where
  "ticks_since_start [] acc = acc"
| "ticks_since_start (m # ms) acc =
     ticks_since_start ms
       (if m_status m = MIDI_CLOCK then acc @ [m_timestamp_micros m]
        else if m_status m = MIDI_START then [] else acc)"

fun runs_after :: "midi_message list \<Rightarrow> bool \<Rightarrow> bool" where
  "runs_after [] r = r"
| "runs_after (m # ms) r =
     runs_after ms
       (if m_status m \<in> {MIDI_CLOCK, MIDI_START, MIDI_CONTINUE} then True
        else if m_status m = MIDI_STOP then False else r)"

lemma handle_message_state:
  assumes "tick_timestamps c = last_n 24 acc"
  shows "tick_timestamps (handle_message m c)
      = last_n 24 (if m_status m = MIDI_CLOCK then acc @ [m_timestamp_micros m]
                   else if m_status m = MIDI_START then [] else acc)"
    and "running (handle_message m c)
      = (if m_status m \<in> {MIDI_CLOCK, MIDI_START, MIDI_CONTINUE} then True
         else if m_status m = MIDI_STOP then False else running c)"
  using assms tick_window [OF assms, of "m_timestamp_micros m"]
  by (auto simp: handle_message_def tick_def Let_def last_n_def)

lemma handle_all_state:
  "tick_timestamps c = last_n 24 acc \<Longrightarrow>
     tick_timestamps (handle_all ms c) = last_n 24 (ticks_since_start ms acc)
     \<and> running (handle_all ms c) = runs_after ms (running c)"
proof (induction ms arbitrary: c acc)
  case Nil
  then show ?case by (simp add: handle_all_def)
next
  case (Cons m ms)
  from Cons.IH [OF handle_message_state(1) [OF Cons.prems, of m]]
  show ?case
    using handle_message_state(2) [OF Cons.prems, of m] by (simp add: handle_all_def)
qed

subsection \<open>Properties\<close>

text \<open>
  The clock after any history of messages: its window holds the last 24 tick timestamps
  since the last Start, in order, and it runs exactly when the last clock message was not a
  Stop. A timing tick counts as starting the clock, which the documentation of \<open>is_running\<close>
  does not say.
\<close>

lemma midi_clock_history:
  "tick_timestamps (handle_all ms new_clock) = last_n 24 (ticks_since_start ms [])
   \<and> running (handle_all ms new_clock) = runs_after ms False"
  using handle_all_state [of new_clock "[]" ms] by (simp add: new_clock_def last_n_def)

end
