(* ===== verification/Smf_Types.thy ===== *)
theory Smf_Types
  imports Utf8 Core_Midi
begin

text \<open>
  The data model of Standard MIDI Files (\<open>crates/oxisound-smf/src/lib.rs\<close>) and the errors of
  the parser and the writer, one constructor per message.
\<close>

datatype smf_format = SingleTrack | MultiTrack | MultiSong

datatype division =
    TicksPerBeat "16 word"
  | Smpte (fps: byte) (subframes: byte)

text \<open>A signed byte (\<open>sharps_flats\<close>) is its bit pattern.\<close>

datatype smf_event =
    Midi midi_message
  | Tempo "32 word"
  | TimeSignature (numerator: byte) (denominator_pow2: byte) (clocks_per_click: byte)
      (notated_32nds_per_beat: byte)
  | KeySignature (sharps_flats: byte) (is_minor: bool)
  | TrackName rstring
  | EndOfTrack
  | UnknownMeta (meta_type: byte) (meta_data: "byte list")

record track_event =
  delta_ticks :: "32 word"
  ev :: smf_event

record smf_track =
  track_name :: "rstring option"
  track_events :: "track_event list"

record smf_file =
  file_format :: smf_format
  file_division :: division
  file_tracks :: "smf_track list"

datatype smf_error =
    NeedBytes nat string nat
  | MissingMThd
  | MThdLength "32 word"
  | UnknownFormat "16 word"
  | MissingMTrk
  | ChunkPastEnd
  | TruncatedAfterDelta
  | MetaPastEnd
  | SysexPastEnd
  | NoRunningStatus
  | TruncatedDataByte
  | Unrecognised byte
  | TempoTooShort
  | TimeSignatureTooShort
  | KeySignatureTooShort
  | VlqEof
  | VlqTooLong
  | UnexpectedEof
  | EmptyMidiMessage

end
