(* ===== verification/Smf_Parser.thy ===== *)
theory Smf_Parser
  imports Smf_Types Wire
begin

text \<open>
  The parser of Standard MIDI Files (\<open>crates/oxisound-smf/src/parser.rs\<close>): chunks, variable-length
  quantities, running status, meta events and system-exclusive messages. Unlike the OSC
  decoder it adds attacker-controlled lengths to the cursor with a plain \<open>+\<close>, which \<open>uadd\<close>
  models.
\<close>

subsection \<open>Low-level readers\<close>

definition require_bytes :: "nat \<Rightarrow> byte list \<Rightarrow> nat \<Rightarrow> nat \<Rightarrow> string \<Rightarrow> (unit, smf_error) result" where
  "require_bytes um data pos n ctx =
     and_then (uadd um pos n) (\<lambda>end.
     if length data < end then Err (NeedBytes n ctx (length data - pos)) else Ok ())"

definition read_u16_be :: "nat \<Rightarrow> byte list \<Rightarrow> nat \<Rightarrow> (16 word \<times> nat, smf_error) result" where
  "read_u16_be um data pos =
     and_then (require_bytes um data pos 2 ''u16'') (\<lambda>_.
     and_then (slice data pos (pos + 2)) (\<lambda>bs. Ok (from_be bs, pos + 2)))"

definition read_u32_be :: "nat \<Rightarrow> byte list \<Rightarrow> nat \<Rightarrow> (32 word \<times> nat, smf_error) result" where
  "read_u32_be um data pos =
     and_then (require_bytes um data pos 4 ''u32'') (\<lambda>_.
     and_then (slice data pos (pos + 4)) (\<lambda>bs. Ok (from_be bs, pos + 4)))"

definition read_byte :: "byte list \<Rightarrow> nat \<Rightarrow> (byte \<times> nat, smf_error) result" where
  "read_byte data pos = and_then (ok_or UnexpectedEof (get data pos)) (\<lambda>b. Ok (b, pos + 1))"

text \<open>The four rounds of the loop of \<open>read_vlq\<close>.\<close>

fun vlq_loop :: "nat \<Rightarrow> 32 word \<Rightarrow> byte list \<Rightarrow> nat \<Rightarrow> (32 word \<times> nat, smf_error) result" where
  "vlq_loop 0 val data pos = Err VlqTooLong"
| "vlq_loop (Suc n) val data pos =
     and_then (ok_or VlqEof (get data pos)) (\<lambda>b.
     let val = push_bit 7 val OR ucast (b AND 0x7F) in
     if b AND 0x80 = 0 then Ok (val, pos + 1) else vlq_loop n val data (pos + 1))"

definition read_vlq :: "byte list \<Rightarrow> nat \<Rightarrow> (32 word \<times> nat, smf_error) result" where
  "read_vlq data pos = vlq_loop 4 0 data pos"

subsection \<open>Events\<close>

definition invalid_utf8_name :: rstring where
  "invalid_utf8_name = map of_char ''<invalid UTF-8>''"

definition decode_meta :: "byte \<Rightarrow> byte list \<Rightarrow> (smf_event, smf_error) result" where
  "decode_meta ty d =
     (if ty = 0x03 then Ok (TrackName (if utf8_valid d then d else invalid_utf8_name))
      else if ty = 0x51 then
        if length d < 3 then Err TempoTooShort
        else Ok (Tempo (push_bit 16 (ucast (d ! 0)) OR push_bit 8 (ucast (d ! 1)) OR ucast (d ! 2)))
      else if ty = 0x58 then
        if length d < 4 then Err TimeSignatureTooShort
        else Ok (TimeSignature (d ! 0) (d ! 1) (d ! 2) (d ! 3))
      else if ty = 0x59 then
        if length d < 2 then Err KeySignatureTooShort
        else Ok (KeySignature (d ! 0) (d ! 1 \<noteq> 0))
      else if ty = 0x2F then Ok EndOfTrack
      else Ok (UnknownMeta ty d))"

definition read_data_byte :: "nat \<Rightarrow> byte list \<Rightarrow> nat \<Rightarrow> (byte \<times> nat, smf_error) result" where
  "read_data_byte track_end data pos =
     (if track_end \<le> pos then Err TruncatedDataByte else read_byte data pos)"

definition build_channel_message :: "byte list \<Rightarrow> nat \<Rightarrow> byte \<Rightarrow> byte \<Rightarrow> byte option \<Rightarrow> nat
    \<Rightarrow> (midi_message \<times> nat, smf_error) result" where
  "build_channel_message data pos status msg_type first_data_byte track_end =
     and_then (case first_data_byte of Some b \<Rightarrow> Ok (b, pos)
               | None \<Rightarrow> read_data_byte track_end data pos) (\<lambda>(b1, pos).
     and_then (if msg_type \<in> {0x80, 0x90, 0xA0, 0xB0, 0xE0} then
                 and_then (read_data_byte track_end data pos) (\<lambda>(b2, pos). Ok ([b1, b2], pos))
               else if msg_type \<in> {0xC0, 0xD0} then Ok ([b1], pos)
               else Err (Unrecognised msg_type)) (\<lambda>(d, pos).
     Ok (\<lparr>m_status = status, m_data = d, m_timestamp_micros = 0\<rparr>, pos)))"

definition parse_event :: "nat \<Rightarrow> byte list \<Rightarrow> nat \<Rightarrow> nat \<Rightarrow> byte option
    \<Rightarrow> (smf_event \<times> byte option \<times> nat, smf_error) result" where
  "parse_event um data pos track_end running_status =
     and_then (read_byte data pos) (\<lambda>(first_byte, pos).
     if first_byte = 0xFF then
       and_then (read_byte data pos) (\<lambda>(ty, pos).
       and_then (read_vlq data pos) (\<lambda>(meta_len, pos).
       and_then (uadd um pos (unat meta_len)) (\<lambda>end.
       if track_end < end then Err MetaPastEnd
       else and_then (slice data pos end) (\<lambda>d.
            and_then (decode_meta ty d) (\<lambda>event. Ok (event, None, end))))))
     else if first_byte = 0xF0 \<or> first_byte = 0xF7 then
       and_then (read_vlq data pos) (\<lambda>(sysex_len, pos).
       and_then (uadd um pos (unat sysex_len)) (\<lambda>end.
       if track_end < end then Err SysexPastEnd
       else and_then (slice data pos end) (\<lambda>payload.
            let msg = (if first_byte = 0xF0 then new_sysex payload
                       else \<lparr>m_status = 0xF7, m_data = payload, m_timestamp_micros = 0\<rparr>)
            in Ok (Midi msg, None, end))))
     else
       and_then (if first_byte AND 0x80 \<noteq> 0 then Ok (first_byte, None)
                 else and_then (ok_or NoRunningStatus running_status)
                        (\<lambda>s. Ok (s, Some first_byte))) (\<lambda>(status, first_data_byte).
       and_then (build_channel_message data pos status (status AND 0xF0) first_data_byte track_end)
         (\<lambda>(msg, pos). Ok (Midi msg, Some status, pos))))"

subsection \<open>Tracks and files\<close>

lemma vlq_loop_pos: "vlq_loop n val data pos = Ok (v, q) \<Longrightarrow> pos < q \<and> q \<le> length data"
  by (induction n val data pos arbitrary: v q rule: vlq_loop.induct)
    (fastforce simp: Let_def split: if_splits)+

lemma read_vlq_pos: "read_vlq data pos = Ok (v, q) \<Longrightarrow> pos < q \<and> q \<le> length data"
  by (simp add: read_vlq_def vlq_loop_pos)

lemma read_byte_Ok: "read_byte data pos = Ok (b, q) \<longleftrightarrow> pos < length data \<and> b = data ! pos \<and> q = pos + 1"
  by (auto simp: read_byte_def)

lemma read_data_byte_pos: "read_data_byte e data pos = Ok (b, q) \<Longrightarrow> q = pos + 1 \<and> pos < length data"
  by (auto simp: read_data_byte_def read_byte_Ok split: if_splits)

lemma build_channel_message_pos:
  "build_channel_message data pos st ty fb e = Ok (m, q) \<Longrightarrow> pos \<le> q"
  by (auto simp: build_channel_message_def split: if_splits option.splits dest!: read_data_byte_pos)

lemma parse_event_pos:
  assumes "parse_event um data pos track_end rs = Ok (e, st, q)"
  shows "pos < q"
  using assms
  by (auto simp: parse_event_def read_byte_Ok Let_def
      dest!: read_vlq_pos build_channel_message_pos split: if_splits)

text \<open>
  The event loop of \<open>parse_mtrk\<close>: it stops at the end of the chunk or behind an end-of-track
  event; the name is that of the last track-name event.
\<close>

function mtrk_loop :: "nat \<Rightarrow> byte list \<Rightarrow> nat \<Rightarrow> nat \<Rightarrow> byte option \<Rightarrow> rstring option \<Rightarrow> track_event list
    \<Rightarrow> (rstring option \<times> track_event list, smf_error) result" where
  "mtrk_loop um data track_end pos running_status nm events =
     (if pos < track_end then
        and_then (read_vlq data pos) (\<lambda>(delta, pos1).
        if track_end \<le> pos1 then Err TruncatedAfterDelta
        else and_then (parse_event um data pos1 track_end running_status) (\<lambda>(event, new_status, pos2).
          let rs = (case new_status of Some s \<Rightarrow> Some s | None \<Rightarrow> running_status);
              nm' = (case event of TrackName n \<Rightarrow> Some n | _ \<Rightarrow> nm);
              events' = events @ [\<lparr>delta_ticks = delta, ev = event\<rparr>]
          in if event = EndOfTrack then Ok (nm', events')
             else mtrk_loop um data track_end pos2 rs nm' events'))
      else Ok (nm, events))"
  by pat_completeness auto
termination
  by (relation "measure (\<lambda>(um, data, track_end, pos, rs, nm, events). track_end - pos)")
    (auto dest!: read_vlq_pos parse_event_pos)

declare mtrk_loop.simps [simp del]

definition ascii_bytes :: "string \<Rightarrow> byte list" where
  "ascii_bytes s = map of_char s"

definition parse_mtrk :: "nat \<Rightarrow> byte list \<Rightarrow> nat \<Rightarrow> (smf_track \<times> nat, smf_error) result" where
  "parse_mtrk um data pos =
     and_then (require_bytes um data pos 8 ''MTrk header'') (\<lambda>_.
     and_then (slice data pos (pos + 4)) (\<lambda>magic.
     if magic \<noteq> ascii_bytes ''MTrk'' then Err MissingMTrk
     else and_then (read_u32_be um data (pos + 4)) (\<lambda>(chunk_len, pos).
          and_then (uadd um pos (unat chunk_len)) (\<lambda>track_end.
          if length data < track_end then Err ChunkPastEnd
          else and_then (mtrk_loop um data track_end pos None None []) (\<lambda>(nm, events).
               Ok (\<lparr>track_name = nm, track_events = events\<rparr>, track_end))))))"

definition format_of_word :: "16 word \<Rightarrow> (smf_format, smf_error) result" where
  "format_of_word w =
     (if w = 0 then Ok SingleTrack else if w = 1 then Ok MultiTrack
      else if w = 2 then Ok MultiSong else Err (UnknownFormat w))"

definition division_of_word :: "16 word \<Rightarrow> division" where
  "division_of_word w =
     (if w AND 0x8000 = 0 then TicksPerBeat w
      else Smpte (ucast (drop_bit 8 w AND 0x7F)) (ucast (w AND 0xFF)))"

definition parse_mthd :: "nat \<Rightarrow> byte list \<Rightarrow> nat
    \<Rightarrow> ((smf_format \<times> 16 word \<times> division) \<times> nat, smf_error) result" where
  "parse_mthd um data pos =
     and_then (require_bytes um data pos 14 ''MThd chunk'') (\<lambda>_.
     and_then (slice data pos (pos + 4)) (\<lambda>magic.
     if magic \<noteq> ascii_bytes ''MThd'' then Err MissingMThd
     else and_then (read_u32_be um data (pos + 4)) (\<lambda>(n, pos).
          if n \<noteq> 6 then Err (MThdLength n)
          else and_then (read_u16_be um data pos) (\<lambda>(format_word, pos).
               and_then (format_of_word format_word) (\<lambda>fmt.
               and_then (read_u16_be um data pos) (\<lambda>(num_tracks, pos).
               and_then (read_u16_be um data pos) (\<lambda>(division_word, pos).
               Ok ((fmt, num_tracks, division_of_word division_word), pos))))))))"

definition parse :: "nat \<Rightarrow> byte list \<Rightarrow> (smf_file, smf_error) result" where
  "parse um data =
     and_then (parse_mthd um data 0) (\<lambda>((fmt, num_tracks, division), pos).
     and_then (read_n (parse_mtrk um) (unat num_tracks) data pos) (\<lambda>(tracks, pos).
     Ok \<lparr>file_format = fmt, file_division = division, file_tracks = tracks\<rparr>))"

end
