(* ===== verification/Smf_Writer.thy ===== *)
theory Smf_Writer
  imports Smf_Parser
begin

text \<open>
  The writer of Standard MIDI Files (\<open>crates/oxisound-smf/src/writer.rs\<close>). \<open>write_vlq\<close> collects
  at most four groups of seven bits in a fixed array, so a value of more than 28 bits
  indexes past its end: that panic is an outcome of the model.
\<close>

text \<open>The groups, least significant first; \<open>n\<close> cells of the array are still free.\<close>

fun vlq_groups :: "nat \<Rightarrow> 32 word \<Rightarrow> (byte list, smf_error) result" where
  "vlq_groups 0 val = Panic"
| "vlq_groups (Suc n) val =
     (let group = ucast (val AND 0x7F); val = drop_bit 7 val
      in if val = 0 then Ok [group]
         else and_then (vlq_groups n val) (\<lambda>groups. Ok (group # groups)))"

definition write_vlq :: "32 word \<Rightarrow> byte list \<Rightarrow> (byte list, smf_error) result" where
  "write_vlq val buf =
     and_then (vlq_groups 4 val) (\<lambda>bytes.
     Ok (buf @ map (\<lambda>i. bytes ! i OR (if 0 < i then 0x80 else 0)) (rev [0..<length bytes])))"

fun encode_event :: "smf_event \<Rightarrow> byte list \<Rightarrow> (byte list, smf_error) result" where
  "encode_event (Midi msg) buf =
     (let bytes = to_bytes msg in if bytes = [] then Err EmptyMidiMessage else Ok (buf @ bytes))"
| "encode_event (Tempo us) buf = Ok (buf @ [0xFF, 0x51, 0x03] @ drop 1 (to_be 4 us))"
| "encode_event (TimeSignature n d c t) buf = Ok (buf @ [0xFF, 0x58, 0x04, n, d, c, t])"
| "encode_event (KeySignature sf minor) buf = Ok (buf @ [0xFF, 0x59, 0x02, sf, of_bool minor])"
| "encode_event (TrackName nm) buf =
     and_then (write_vlq (word_of_nat (length nm)) (buf @ [0xFF, 0x03])) (\<lambda>buf. Ok (buf @ nm))"
| "encode_event EndOfTrack buf = Ok (buf @ [0xFF, 0x2F, 0x00])"
| "encode_event (UnknownMeta ty d) buf =
     and_then (write_vlq (word_of_nat (length d)) (buf @ [0xFF, ty])) (\<lambda>buf. Ok (buf @ d))"

fun encode_events :: "track_event list \<Rightarrow> byte list \<Rightarrow> bool \<Rightarrow> (byte list \<times> bool, smf_error) result" where
  "encode_events [] buf has_eot = Ok (buf, has_eot)"
| "encode_events (e # es) buf has_eot =
     and_then (write_vlq (delta_ticks e) buf) (\<lambda>buf.
     and_then (encode_event (ev e) buf) (\<lambda>buf.
     encode_events es buf (has_eot \<or> ev e = EndOfTrack)))"

definition encode_track :: "smf_track \<Rightarrow> (byte list, smf_error) result" where
  "encode_track track =
     and_then (encode_events (track_events track) [] False) (\<lambda>(buf, has_eot).
     Ok (if has_eot then buf else buf @ [0x00, 0xFF, 0x2F, 0x00]))"

fun format_word :: "smf_format \<Rightarrow> 16 word" where
  "format_word SingleTrack = 0"
| "format_word MultiTrack = 1"
| "format_word MultiSong = 2"

fun division_bytes :: "division \<Rightarrow> byte list" where
  "division_bytes (TicksPerBeat tpb) = to_be 2 tpb"
| "division_bytes (Smpte f sub) = [(0 - f) OR 0x80, sub]"

fun write_tracks :: "smf_track list \<Rightarrow> byte list \<Rightarrow> (byte list, smf_error) result" where
  "write_tracks [] out = Ok out"
| "write_tracks (t # ts) out =
     and_then (encode_track t) (\<lambda>track_data.
     write_tracks ts
       (out @ ascii_bytes ''MTrk'' @ to_be 4 (word_of_nat (length track_data) :: 32 word) @ track_data))"

definition write_smf :: "smf_file \<Rightarrow> (byte list, smf_error) result" where
  "write_smf file =
     write_tracks (file_tracks file)
       (ascii_bytes ''MThd'' @ to_be 4 (6 :: 32 word) @ to_be 2 (format_word (file_format file))
        @ to_be 2 (word_of_nat (length (file_tracks file)) :: 16 word)
        @ division_bytes (file_division file))"

end
