(* ===== verification/Smf_Vlq.thy ===== *)
theory Smf_Vlq
  imports Smf_Writer
begin

text \<open>
  Variable-length quantities: what \<open>write_vlq\<close> emits, when it panics, and that \<open>read_vlq\<close>
  reads it back.
\<close>

lemma unat_drop_bit_7: "unat (drop_bit 7 (v :: 32 word)) = unat v div 128"
  unfolding unat_drop_bit_eq by (simp add: drop_bit_eq_div)

lemma unat_and_7F: "unat (v AND 0x7F) = unat v mod 128" for v :: "'a::len word"
proof -
  have "v AND 0x7F = take_bit 7 v"
    by (simp add: take_bit_eq_mask mask_eq_exp_minus_1)
  then have "unat (v AND 0x7F) = take_bit 7 (unat v)"
    by (simp only: unsigned_take_bit_eq)
  then show ?thesis by (simp add: take_bit_eq_mod)
qed

text \<open>The groups of a value, least significant first.\<close>

fun groups :: "nat \<Rightarrow> byte list" where
  "groups v = word_of_nat (v mod 128) # (if v < 128 then [] else groups (v div 128))"

declare groups.simps [simp del]

lemma ucast_group: "(ucast (v AND 0x7F) :: byte) = word_of_nat (unat (v :: 32 word) mod 128)"
  unfolding unat_and_7F [symmetric] of_nat_unat ..

lemma vlq_groups_eq:
  "vlq_groups n v = (if unat v < 128 ^ n \<and> 0 < n then Ok (groups (unat v)) else Panic)"
proof (induction n arbitrary: v)
  case 0
  then show ?case by simp
next
  case (Suc n)
  have z: "drop_bit 7 v = 0 \<longleftrightarrow> unat v < 128"
    by (simp only: unat_eq_0 [symmetric] unat_drop_bit_7) (simp add: div_eq_0_iff)
  have d: "unat v div 128 < 128 ^ n \<longleftrightarrow> unat v < 128 ^ Suc n"
    by (simp add: less_mult_imp_div_less div_less_iff_less_mult mult.commute)
  have "128 \<le> unat v \<Longrightarrow> unat v < 128 ^ Suc n \<Longrightarrow> 0 < n"
    by (cases n) auto
  moreover have "unat v < 128 \<Longrightarrow> unat v < 128 ^ Suc n"
    by (rule less_le_trans [of _ 128]) simp_all
  ultimately show ?case
    using d by (auto simp: Let_def z Suc.IH unat_drop_bit_7 ucast_group groups.simps [of "unat v"]
        simp del: power_Suc)
qed

text \<open>The bytes of a value: the groups in the other order, all but the last marked.\<close>

definition vlq :: "nat \<Rightarrow> byte list" where
  "vlq v = map (\<lambda>b. b OR 0x80) (rev (tl (groups v))) @ [word_of_nat (v mod 128)]"

lemma mark_groups:
  "map (\<lambda>i. (g # gs) ! i OR (if 0 < i then 0x80 else 0)) (rev [0..<length (g # gs)])
     = map (\<lambda>b. b OR 0x80) (rev gs) @ [g :: byte]"
proof -
  have "map (\<lambda>i. (g # gs) ! i OR (if 0 < i then 0x80 else 0)) [0..<Suc (length gs)]
      = g # map (\<lambda>b. b OR 0x80) gs"
    by (rule nth_equalityI) (auto simp: nth_Cons' simp del: upt_Suc)
  then show ?thesis by (simp add: rev_map [symmetric] del: upt_Suc)
qed

lemma write_vlq_eq:
  "write_vlq v buf = (if unat v < 2 ^ 28 then Ok (buf @ vlq (unat v)) else Panic)"
proof -
  obtain gs where "groups (unat v) = word_of_nat (unat v mod 128) # gs"
    by (simp add: groups.simps)
  then show ?thesis
    using mark_groups [of "word_of_nat (unat v mod 128)" gs]
    by (simp add: write_vlq_def vlq_groups_eq vlq_def)
qed

subsection \<open>Reading back\<close>

lemma byte_low_bits: "b < (0x80 :: byte) \<Longrightarrow> take_bit 7 b = b"
  by (simp add: word_unat_eq_iff unsigned_take_bit_eq take_bit_nat_eq_self word_less_nat_alt)

lemma and_7F: "v AND 0x7F = take_bit 7 (v :: byte)"
  by (simp add: take_bit_eq_mask mask_eq_exp_minus_1)

lemma byte_80: "(0x80 :: byte) = push_bit 7 1"
  by (simp add: push_bit_eq_mult)

lemma marked_byte:
  assumes "b < (0x80 :: byte)"
  shows "(b OR 0x80) AND 0x7F = b" and "(b OR 0x80) AND 0x80 \<noteq> 0"
proof -
  have "take_bit 7 (b OR push_bit 7 1) = take_bit 7 b"
    by (rule bit_eqI) (auto simp: bit_take_bit_iff bit_or_iff bit_push_bit_iff)
  then show "(b OR 0x80) AND 0x7F = b"
    unfolding and_7F byte_80 using byte_low_bits [OF assms] by simp
  have "(b OR 0x80) AND 0x80 = (0x80 :: byte)"
    by (rule bit_eqI) (auto simp: bit_or_iff bit_and_iff)
  then show "(b OR 0x80) AND 0x80 \<noteq> 0" by simp
qed

lemma unmarked_byte:
  assumes "b < (0x80 :: byte)"
  shows "b AND 0x7F = b" and "b AND 0x80 = 0"
proof -
  show "b AND 0x7F = b" unfolding and_7F by (rule byte_low_bits [OF assms])
  have "take_bit 7 b AND push_bit 7 1 = 0"
    by (rule bit_eqI) (simp only: bit_take_bit_iff bit_and_iff bit_push_bit_iff bit_0_eq, auto)
  then show "b AND 0x80 = 0" unfolding byte_80 byte_low_bits [OF assms] .
qed

lemma push_or_group:
  assumes "b < (0x80 :: byte)"
  shows "push_bit 7 (acc :: 32 word) OR ucast b = acc * 128 + ucast b"
proof -
  have "ucast b = (take_bit 7 (ucast b) :: 32 word)"
    using byte_low_bits [OF assms] by (metis unsigned_take_bit_eq)
  then have "\<not> bit (push_bit 7 acc) n \<or> \<not> bit (ucast b :: 32 word) n" for n
    by (metis bit_push_bit_iff bit_take_bit_iff not_le)
  then have "push_bit 7 acc AND ucast b = 0"
    by (intro bit_eqI) (simp add: bit_and_iff)
  then have "push_bit 7 acc OR ucast b = push_bit 7 acc + ucast b"
    by (simp only: disjunctive_add_eq_or)
  then show ?thesis by (simp add: push_bit_eq_mult)
qed

text \<open>The value of a list of groups, most significant first, behind an accumulator.\<close>

fun group_value :: "nat \<Rightarrow> byte list \<Rightarrow> nat" where
  "group_value acc [] = acc"
| "group_value acc (b # bs) = group_value (acc * 128 + unat b) bs"

lemma group_value_append: "group_value acc (bs @ [b]) = group_value acc bs * 128 + unat b"
  by (induction bs arbitrary: acc) auto

lemma vlq_loop_groups:
  assumes "\<forall>b \<in> set hs. b < 0x80" and "g < (0x80 :: byte)"
  shows "vlq_loop (Suc (length hs + k)) (word_of_nat acc)
           (pre @ map (\<lambda>b. b OR 0x80) hs @ g # post) (length pre)
       = Ok (word_of_nat (group_value acc (hs @ [g])), length pre + length hs + 1)"
  using assms(1)
proof (induction hs arbitrary: acc pre)
  case Nil
  then show ?case
    using unmarked_byte [OF assms(2)] push_or_group [OF assms(2), of "word_of_nat acc"]
    by (simp add: Let_def get_def)
next
  case (Cons h hs)
  then have h: "h < 0x80" by simp
  have "vlq_loop (Suc (length hs + k)) (word_of_nat (acc * 128 + unat h))
      ((pre @ [h OR 0x80]) @ map (\<lambda>b. b OR 0x80) hs @ g # post) (length (pre @ [h OR 0x80]))
      = Ok (word_of_nat (group_value (acc * 128 + unat h) (hs @ [g])),
          length (pre @ [h OR 0x80]) + length hs + 1)"
    using Cons.prems by (intro Cons.IH) simp
  then show ?case
    using marked_byte [OF h] push_or_group [OF h, of "word_of_nat acc"]
    by (simp add: Let_def get_def)
qed

lemma groups_small: "b \<in> set (groups v) \<Longrightarrow> b < 0x80"
proof (induction v rule: groups.induct)
  case (1 v)
  have "word_of_nat (v mod 128) < (0x80 :: byte)"
    by (simp add: word_less_nat_alt unat_of_nat)
  with 1 show ?case by (subst (asm) groups.simps) (auto split: if_splits)
qed

lemma group_value_groups: "group_value 0 (rev (groups v)) = v"
proof (induction v rule: groups.induct)
  case (1 v)
  then show ?case
    by (subst groups.simps) (auto simp: group_value_append unat_of_nat)
qed

lemma length_groups: "v < 128 ^ Suc n \<Longrightarrow> length (groups v) \<le> Suc n"
proof (induction n arbitrary: v)
  case 0
  then show ?case by (simp add: groups.simps)
next
  case (Suc n)
  then have "v div 128 < 128 ^ Suc n"
    by (simp add: less_mult_imp_div_less mult.commute)
  from Suc.IH [OF this] show ?case by (subst groups.simps) simp
qed

interpretation vlq: offset_codec "\<lambda>v. vlq (unat v)" read_vlq "\<lambda>v. unat v < 2 ^ 28" "\<lambda>data. True"
  "\<lambda>pos. True"
proof
  fix v :: "32 word" and pre post :: "byte list"
  assume v: "unat v < 2 ^ 28"
  define gs where "gs = tl (groups (unat v))"
  let ?g = "word_of_nat (unat v mod 128) :: byte"
  have gr: "groups (unat v) = ?g # gs"
    by (simp add: gs_def groups.simps)
  have small: "\<forall>b \<in> set (rev gs). b < 0x80" "?g < 0x80"
    using groups_small [of _ "unat v"] gr by auto
  have "length (groups (unat v)) \<le> 4"
    using length_groups [of "unat v" 3] v by simp
  then have "4 = Suc (length (rev gs) + (3 - length gs))"
    using gr by simp
  then obtain k where k: "4 = Suc (length (rev gs) + k)" ..
  have val: "group_value 0 (rev gs @ [?g]) = unat v"
    using group_value_groups [of "unat v"] gr by simp
  show "read_vlq (pre @ vlq (unat v) @ post) (length pre) = Ok (v, length pre + length (vlq (unat v)))"
    using vlq_loop_groups [OF small, of k 0 pre post] val
    by (simp add: read_vlq_def k vlq_def gs_def [symmetric])
qed simp

end
