(* ===== verification/Smf_Roundtrip.thy ===== *)
theory Smf_Roundtrip
  imports Smf_Vlq
begin

text \<open>
  The writer and the parser of Standard MIDI Files against each other: when the writer
  panics, what the parser makes of its output, and where the two disagree.
\<close>

subsection \<open>What the writer emits\<close>

text \<open>The fields whose variable-length quantity does not fit 28 bits.\<close>

fun payload_too_long :: "smf_event \<Rightarrow> bool" where
  "payload_too_long (TrackName nm) = (2 ^ 28 \<le> length nm mod 2 ^ 32)"
| "payload_too_long (UnknownMeta ty d) = (2 ^ 28 \<le> length d mod 2 ^ 32)"
| "payload_too_long e = False"

definition unwritable :: "track_event \<Rightarrow> bool" where
  "unwritable e \<longleftrightarrow> 2 ^ 28 \<le> unat (delta_ticks e) \<or> payload_too_long (ev e)"

fun event_block :: "smf_event \<Rightarrow> byte list" where
  "event_block (Midi msg) = to_bytes msg"
| "event_block (Tempo us) = [0xFF, 0x51, 0x03] @ drop 1 (to_be 4 us)"
| "event_block (TimeSignature n d c t) = [0xFF, 0x58, 0x04, n, d, c, t]"
| "event_block (KeySignature sf minor) = [0xFF, 0x59, 0x02, sf, of_bool minor]"
| "event_block (TrackName nm) = [0xFF, 0x03] @ vlq (length nm mod 2 ^ 32) @ nm"
| "event_block EndOfTrack = [0xFF, 0x2F, 0x00]"
| "event_block (UnknownMeta ty d) = [0xFF, ty] @ vlq (length d mod 2 ^ 32) @ d"

definition timed_block :: "track_event \<Rightarrow> byte list" where
  "timed_block e = vlq (unat (delta_ticks e)) @ event_block (ev e)"

lemma encode_event_eq:
  "encode_event e buf = (if payload_too_long e then Panic else Ok (buf @ event_block e))"
  by (cases e) (auto simp: write_vlq_eq unat_of_nat Let_def)

lemma encode_events_eq:
  "encode_events es buf eot =
     (if \<exists>e \<in> set es. unwritable e then Panic
      else Ok (buf @ concat (map timed_block es), eot \<or> EndOfTrack \<in> ev ` set es))"
  by (induction es arbitrary: buf eot)
    (auto simp: write_vlq_eq encode_event_eq unwritable_def timed_block_def)

text \<open>The end-of-track event that the writer adds when a track has none.\<close>

definition with_eot :: "track_event list \<Rightarrow> track_event list" where
  "with_eot es =
     (if EndOfTrack \<in> ev ` set es then es else es @ [\<lparr>delta_ticks = 0, ev = EndOfTrack\<rparr>])"

definition track_data :: "smf_track \<Rightarrow> byte list" where
  "track_data t = concat (map timed_block (with_eot (track_events t)))"

lemma vlq_0 [simp]: "vlq 0 = [0]"
  by (simp add: vlq_def groups.simps)

lemma encode_track_eq:
  "encode_track t = (if \<exists>e \<in> set (track_events t). unwritable e then Panic else Ok (track_data t))"
  by (auto simp: encode_track_def encode_events_eq track_data_def with_eot_def timed_block_def)

definition track_block :: "smf_track \<Rightarrow> byte list" where
  "track_block t = ascii_bytes ''MTrk''
     @ to_be 4 (word_of_nat (length (track_data t)) :: 32 word) @ track_data t"

lemma write_tracks_eq:
  "write_tracks ts out =
     (if \<exists>t \<in> set ts. \<exists>e \<in> set (track_events t). unwritable e then Panic
      else Ok (out @ concat (map track_block ts)))"
  by (induction ts arbitrary: out) (auto simp: encode_track_eq track_block_def)

definition header :: "smf_file \<Rightarrow> byte list" where
  "header f = ascii_bytes ''MThd'' @ to_be 4 (6 :: 32 word) @ to_be 2 (format_word (file_format f))
     @ to_be 2 (word_of_nat (length (file_tracks f)) :: 16 word) @ division_bytes (file_division f)"

lemma write_smf_eq:
  "write_smf f =
     (if \<exists>t \<in> set (file_tracks f). \<exists>e \<in> set (track_events t). unwritable e then Panic
      else Ok (header f @ concat (map track_block (file_tracks f))))"
  by (simp add: write_smf_def write_tracks_eq header_def)

subsection \<open>Reading an event back\<close>

definition channel_message :: "midi_message \<Rightarrow> bool" where
  "channel_message m \<longleftrightarrow> m_timestamp_micros m = 0 \<and>
     (if m_status m AND 0xF0 \<in> {0x80, 0x90, 0xA0, 0xB0, 0xE0} then length (m_data m) = 2
      else m_status m AND 0xF0 \<in> {0xC0, 0xD0} \<and> length (m_data m) = 1)"

text \<open>The events that mean to the parser what they mean to the writer.\<close>

fun good_event :: "smf_event \<Rightarrow> bool" where
  "good_event (Midi m) = channel_message m"
| "good_event (Tempo us) = (unat us < 2 ^ 24)"
| "good_event (TrackName nm) = (utf8_valid nm \<and> length nm < 2 ^ 28)"
| "good_event (UnknownMeta ty d) = (ty \<notin> {0x03, 0x51, 0x58, 0x59, 0x2F} \<and> length d < 2 ^ 28)"
| "good_event e = True"

lemma read_vlq_middle:
  "n < 2 ^ 28 \<Longrightarrow> read_vlq (pre @ vlq n @ post) (length pre)
     = Ok (word_of_nat n, length pre + length (vlq n))"
  using vlq.rd_enc [of "word_of_nat n" pre post] by (simp add: unat_of_nat)

lemma parse_meta:
  assumes "length d < 2 ^ 28" and "decode_meta ty d = Ok e"
    and "length pre + 2 + length (vlq (length d)) + length d \<le> track_end"
    and "length (pre @ [0xFF, ty] @ vlq (length d) @ d @ post) \<le> um"
  shows "parse_event um (pre @ [0xFF, ty] @ vlq (length d) @ d @ post) (length pre) track_end rs
     = Ok (e, None, length pre + 2 + length (vlq (length d)) + length d)"
proof -
  let ?data = "pre @ [0xFF, ty] @ vlq (length d) @ d @ post"
  let ?p = "length pre + 2 + length (vlq (length d))"
  have v: "read_vlq ?data (length pre + 2) = Ok (word_of_nat (length d), ?p)"
    using read_vlq_middle [OF assms(1), of "pre @ [0xFF, ty]" "d @ post"] by simp
  have s: "slice ?data ?p (?p + length d) = (Ok d :: (byte list, smf_error) result)"
    by (simp add: slice_eq_Ok)
  have n: "unat (word_of_nat (length d) :: 32 word) = length d"
    using assms(1) by simp
  have b: "read_byte ?data (length pre) = Ok (0xFF, length pre + 1)"
    "read_byte ?data (length pre + 1) = Ok (ty, length pre + 2)"
    by (simp_all add: read_byte_Ok nth_append)
  have "uadd um ?p (length d) = (Ok (?p + length d) :: (nat, smf_error) result)"
    using assms(4) by simp
  then show ?thesis
    using assms(2,3) by (simp only: parse_event_def b v n s and_then.simps prod.case) simp
qed

lemma high_bit:
  "s AND 0xF0 \<in> {0x80, 0x90, 0xA0, 0xB0, 0xE0, 0xC0, 0xD0} \<Longrightarrow> s AND 0x80 \<noteq> (0 :: byte)"
proof -
  have "s AND 0x80 = (s AND 0xF0) AND 0x80" by (simp add: and.assoc)
  then show "s AND 0xF0 \<in> {0x80, 0x90, 0xA0, 0xB0, 0xE0, 0xC0, 0xD0} \<Longrightarrow> s AND 0x80 \<noteq> 0" by auto
qed

lemma read_byte_at: "pos < length data \<Longrightarrow> read_byte data pos = Ok (data ! pos, pos + 1)"
  by (simp add: read_byte_def get_def)

lemma parse_channel:
  assumes "channel_message m" and "length pre + length (to_bytes m) \<le> track_end"
  shows "parse_event um (pre @ to_bytes m @ post) (length pre) track_end rs
     = Ok (Midi m, Some (m_status m), length pre + length (to_bytes m))"
proof -
  define st where "st = m_status m"
  have ty: "st AND 0xF0 \<in> {0x80, 0x90, 0xA0, 0xB0, 0xE0, 0xC0, 0xD0}"
    and m: "m = \<lparr>m_status = st, m_data = m_data m, m_timestamp_micros = 0\<rparr>"
    and two: "st AND 0xF0 \<in> {0x80, 0x90, 0xA0, 0xB0, 0xE0} \<Longrightarrow> \<exists>b1 b2. m_data m = [b1, b2]"
    and one: "st AND 0xF0 \<notin> {0x80, 0x90, 0xA0, 0xB0, 0xE0} \<Longrightarrow>
        st AND 0xF0 \<in> {0xC0, 0xD0} \<and> (\<exists>b1. m_data m = [b1])"
    using assms(1) unfolding st_def
    by (auto simp: channel_message_def length_Suc_conv numeral_2_eq_2 split: if_splits)
  have ne: "st \<noteq> 0xFF" "st \<noteq> 0xF0" "st \<noteq> 0xF7" using ty by auto
  have tb: "to_bytes m = st # m_data m"
    using ne by (simp add: to_bytes_def is_sysex_def st_def)
  have hb: "st AND 0x80 \<noteq> 0" by (rule high_bit [OF ty])
  have b: "read_byte (pre @ to_bytes m @ post) (length pre) = Ok (st, length pre + 1)"
    by (simp add: tb read_byte_at)
  have "build_channel_message (pre @ to_bytes m @ post) (length pre + 1) st (st AND 0xF0) None track_end
      = Ok (m, length pre + length (to_bytes m))"
  proof (cases "st AND 0xF0 \<in> {0x80, 0x90, 0xA0, 0xB0, 0xE0}")
    case True
    with two obtain b1 b2 where d: "m_data m = [b1, b2]" by blast
    have r: "read_data_byte track_end (pre @ st # b1 # b2 # post) (length pre + 1) = Ok (b1, length pre + 2)"
      "read_data_byte track_end (pre @ st # b1 # b2 # post) (length pre + 2) = Ok (b2, length pre + 3)"
      using assms(2) by (simp_all add: read_data_byte_def read_byte_at tb d nth_append)
    have mm: "\<lparr>m_status = st, m_data = [b1, b2], m_timestamp_micros = 0\<rparr> = m"
      using m by (simp add: d)
    have "to_bytes m = [st, b1, b2]" by (simp add: tb d)
    then show ?thesis
      using r True by (simp add: build_channel_message_def mm)
  next
    case False
    with one obtain b1 where d: "m_data m = [b1]" and ty1: "st AND 0xF0 \<in> {0xC0, 0xD0}" by blast
    have r: "read_data_byte track_end (pre @ st # b1 # post) (length pre + 1) = Ok (b1, length pre + 2)"
      using assms(2) by (simp add: read_data_byte_def read_byte_at tb d nth_append)
    have mm: "\<lparr>m_status = st, m_data = [b1], m_timestamp_micros = 0\<rparr> = m"
      using m by (simp add: d)
    have "to_bytes m = [st, b1]" by (simp add: tb d)
    then show ?thesis
      using r False ty1 by (auto simp add: build_channel_message_def mm)
  qed
  with ne hb show ?thesis
    by (simp add: parse_event_def b st_def)
qed

lemma push_or_byte:
  "push_bit 8 (acc :: 32 word) OR ucast (b :: byte) = acc * 256 + ucast b"
proof -
  have "\<not> bit (push_bit 8 acc) n \<or> \<not> bit (ucast b :: 32 word) n" for n
    by (auto simp: bit_push_bit_iff bit_ucast_iff dest: bit_imp_le_length)
  then have "push_bit 8 acc AND ucast b = 0"
    by (intro bit_eqI) (simp add: bit_and_iff)
  then have "push_bit 8 acc OR ucast b = push_bit 8 acc + ucast b"
    by (simp only: disjunctive_add_eq_or)
  then show ?thesis by (simp add: push_bit_eq_mult)
qed

lemma ucast_byte_of_nat: "(ucast (word_of_nat n :: byte) :: 32 word) = word_of_nat (n mod 256)"
  by (simp add: word_unat_eq_iff unsigned_ucast_eq unat_of_nat take_bit_eq_mod)

lemma to_be_4: "to_be 4 v = map word_of_nat [unat v div 256 div 256 div 256 mod 256,
    unat v div 256 div 256 mod 256, unat v div 256 mod 256, unat v mod 256]"
proof -
  have "(4::nat) = Suc (Suc (Suc (Suc 0)))" by simp
  then show ?thesis unfolding to_be_def by (simp only: be_bytes.simps) simp
qed

lemma decode_tempo:
  assumes "unat us < 2 ^ 24"
  shows "decode_meta 0x51 (drop 1 (to_be 4 us)) = Ok (Tempo us)"
proof -
  let ?v = "unat us"
  have w: "push_bit 16 (ucast a) OR push_bit 8 (ucast b) OR ucast c
      = (ucast a * 256 + ucast b) * 256 + (ucast c :: 32 word)" for a b c :: byte
  proof -
    have "push_bit 16 (ucast a) OR push_bit 8 (ucast b :: 32 word)
        = push_bit 8 (push_bit 8 (ucast a) OR ucast b)"
      by (simp add: push_bit_or)
    then have "push_bit 16 (ucast a) OR push_bit 8 (ucast b) OR ucast c
        = push_bit 8 (push_bit 8 (ucast a) OR ucast b) OR (ucast c :: 32 word)"
      by (simp only: or.assoc [symmetric])
    then show ?thesis by (simp only: push_or_byte)
  qed
  have "?v div 256 div 256 < 256" using assms by simp
  then have "(?v div 256 div 256 mod 256 * 256 + ?v div 256 mod 256) * 256 + ?v mod 256 = ?v"
    by (simp only: mod_less div_mult_mod_eq)
  then have "word_of_nat ((?v div 256 div 256 mod 256 * 256 + ?v div 256 mod 256) * 256 + ?v mod 256)
      = us"
    by simp
  then show ?thesis
    using w [of "word_of_nat (?v div 256 div 256 mod 256)" "word_of_nat (?v div 256 mod 256)"
        "word_of_nat (?v mod 256)", unfolded ucast_byte_of_nat]
    by (simp add: decode_meta_def to_be_4 ucast_byte_of_nat)
qed

text \<open>Every event that means the same to both is read back, whatever surrounds it.\<close>

lemma of_bool_byte: "(of_bool b :: byte) \<noteq> 0 \<longleftrightarrow> b"
  by simp

lemma parse_event_block:
  assumes "good_event e" and "length pre + length (event_block e) \<le> track_end"
    and "length (pre @ event_block e @ post) \<le> um"
  shows "\<exists>st. parse_event um (pre @ event_block e @ post) (length pre) track_end rs
     = Ok (e, st, length pre + length (event_block e))"
proof -
  have small: "vlq n = [word_of_nat n]" if "n < 128" for n
    using that by (simp add: vlq_def groups.simps)
  have meta: ?thesis
    if "length d < 2 ^ 28" and "decode_meta ty d = Ok e"
      and "event_block e = [0xFF, ty] @ vlq (length d) @ d" for ty d
    using parse_meta [OF that(1,2), of pre track_end post um rs] assms(2,3) that(3) by simp
  show ?thesis
  proof (cases e)
    case (Midi m)
    then show ?thesis using assms parse_channel [of m pre track_end um post rs] by simp
  next
    case (Tempo us)
    then show ?thesis using assms(1)
      by (intro meta [of "drop 1 (to_be 4 us)" "0x51"]) (simp_all add: decode_tempo [simplified] small)
  next
    case (TimeSignature n d c t)
    then show ?thesis
      by (intro meta [of "[n, d, c, t]" "0x58"]) (simp_all add: decode_meta_def small)
  next
    case (KeySignature sf minor)
    then show ?thesis
      by (intro meta [of "[sf, of_bool minor]" "0x59"]) (simp_all add: decode_meta_def small)
  next
    case (TrackName nm)
    then show ?thesis using assms(1)
      by (intro meta [of nm "0x03"]) (simp_all add: decode_meta_def)
  next
    case EndOfTrack
    then show ?thesis
      by (intro meta [of "[]" "0x2F"]) (simp_all add: decode_meta_def small)
  next
    case (UnknownMeta ty d)
    then show ?thesis using assms(1)
      by (intro meta [of d ty]) (simp_all add: decode_meta_def)
  qed
qed

subsection \<open>Reading a track back\<close>

definition good_timed :: "track_event \<Rightarrow> bool" where
  "good_timed e \<longleftrightarrow> good_event (ev e) \<and> unat (delta_ticks e) < 2 ^ 28"

text \<open>The name that a track gets from its events: that of the last track-name event.\<close>

fun last_name :: "track_event list \<Rightarrow> rstring option \<Rightarrow> rstring option" where
  "last_name [] nm = nm"
| "last_name (e # es) nm = last_name es (case ev e of TrackName n \<Rightarrow> Some n | _ \<Rightarrow> nm)"

lemma event_block_not_Nil: "event_block e \<noteq> []"
  by (cases e) simp_all

lemma mtrk_loop_step:
  assumes "good_timed e" and "length pre + length (timed_block e) \<le> track_end"
    and "length (pre @ timed_block e @ post) \<le> um"
  shows "\<exists>rs'. mtrk_loop um (pre @ timed_block e @ post) track_end (length pre) rs nm acc
     = (if ev e = EndOfTrack then Ok (last_name [e] nm, acc @ [e])
        else mtrk_loop um (pre @ timed_block e @ post) track_end (length pre + length (timed_block e)) rs'
               (last_name [e] nm) (acc @ [e]))"
proof -
  let ?v = "vlq (unat (delta_ticks e))" and ?b = "event_block (ev e)"
  let ?data = "pre @ ?v @ ?b @ post"
  have v: "read_vlq ?data (length pre) = Ok (delta_ticks e, length pre + length ?v)"
    using assms(1) vlq.rd_enc [of "delta_ticks e" pre "?b @ post"] by (simp add: good_timed_def)
  obtain st where p: "parse_event um ((pre @ ?v) @ ?b @ post) (length (pre @ ?v)) track_end rs
      = Ok (ev e, st, length (pre @ ?v) + length ?b)"
    using parse_event_block [of "ev e" "pre @ ?v" track_end post um rs] assms
    by (auto simp: good_timed_def timed_block_def)
  have len: "\<not> track_end \<le> length pre + length ?v" "length pre < track_end"
    using assms(2) event_block_not_Nil [of "ev e"] by (auto simp: timed_block_def neq_Nil_conv)
  have e: "\<lparr>delta_ticks = delta_ticks e, ev = ev e\<rparr> = e" by simp
  show ?thesis
    by (rule exI [of _ "case st of Some s \<Rightarrow> Some s | None \<Rightarrow> rs"])
      (use v p len in \<open>simp add: mtrk_loop.simps [of um _ track_end "length pre"] timed_block_def e
        Let_def add.assoc\<close>)
qed

lemma mtrk_loop_events:
  assumes "\<forall>e \<in> set es. good_timed e \<and> ev e \<noteq> EndOfTrack"
    and "length pre + length (concat (map timed_block es)) \<le> track_end"
    and "length (pre @ concat (map timed_block es) @ post) \<le> um"
  shows "\<exists>rs'. mtrk_loop um (pre @ concat (map timed_block es) @ post) track_end (length pre) rs nm acc
     = mtrk_loop um (pre @ concat (map timed_block es) @ post) track_end
         (length pre + length (concat (map timed_block es))) rs' (last_name es nm) (acc @ es)"
  using assms
proof (induction es arbitrary: pre rs nm acc)
  case Nil
  then show ?case by auto
next
  case (Cons e es)
  let ?c = "concat (map timed_block es)"
  obtain rs1 where 1: "mtrk_loop um (pre @ timed_block e @ ?c @ post) track_end (length pre) rs nm acc
      = mtrk_loop um (pre @ timed_block e @ ?c @ post) track_end (length pre + length (timed_block e)) rs1
          (last_name [e] nm) (acc @ [e])"
    using mtrk_loop_step [of e pre track_end "?c @ post" um rs nm acc] Cons.prems by auto
  obtain rs2 where 2: "mtrk_loop um ((pre @ timed_block e) @ ?c @ post) track_end
        (length (pre @ timed_block e)) rs1 (last_name [e] nm) (acc @ [e])
      = mtrk_loop um ((pre @ timed_block e) @ ?c @ post) track_end
        (length (pre @ timed_block e) + length ?c) rs2 (last_name es (last_name [e] nm)) ((acc @ [e]) @ es)"
    using Cons.IH [of "pre @ timed_block e" rs1 "last_name [e] nm" "acc @ [e]"] Cons.prems by auto
  show ?case
    by (rule exI [of _ rs2]) (use 1 2 in \<open>simp add: add.assoc\<close>)
qed

text \<open>
  A track in the form the parser gives it: its events are good, an end-of-track event closes
  it and occurs nowhere else, and its name is the one the events say.
\<close>

definition closed_track :: "smf_track \<Rightarrow> bool" where
  "closed_track t \<longleftrightarrow> (\<exists>es d. track_events t = es @ [\<lparr>delta_ticks = d, ev = EndOfTrack\<rparr>]
       \<and> (\<forall>e \<in> set es. good_timed e \<and> ev e \<noteq> EndOfTrack) \<and> unat d < 2 ^ 28)
     \<and> track_name t = last_name (track_events t) None \<and> length (track_data t) < 2 ^ 32"

lemma with_eot_closed: "closed_track t \<Longrightarrow> with_eot (track_events t) = track_events t"
  by (auto simp: closed_track_def with_eot_def)

lemma last_name_append: "last_name (xs @ ys) nm = last_name ys (last_name xs nm)"
  by (induction xs arbitrary: nm) auto

lemma mtrk_loop_closed:
  assumes "closed_track t" and "length (pre @ track_data t @ post) \<le> um"
  shows "mtrk_loop um (pre @ track_data t @ post) (length pre + length (track_data t)) (length pre)
       None None [] = Ok (track_name t, track_events t)"
proof -
  from assms(1) obtain es d where t: "track_events t = es @ [\<lparr>delta_ticks = d, ev = EndOfTrack\<rparr>]"
    and es: "\<forall>e \<in> set es. good_timed e \<and> ev e \<noteq> EndOfTrack" and d: "unat d < 2 ^ 28"
    and nm: "track_name t = last_name (track_events t) None"
    by (auto simp: closed_track_def)
  let ?eot = "\<lparr>delta_ticks = d, ev = EndOfTrack\<rparr>" and ?c = "concat (map timed_block es)"
  let ?stop = "length pre + length (track_data t)"
  have data: "track_data t = ?c @ timed_block ?eot"
    using with_eot_closed [OF assms(1)] by (simp add: track_data_def t)
  obtain rs where 1: "mtrk_loop um (pre @ ?c @ timed_block ?eot @ post) ?stop (length pre) None None []
      = mtrk_loop um (pre @ ?c @ timed_block ?eot @ post) ?stop (length pre + length ?c) rs
          (last_name es None) es"
    using mtrk_loop_events [OF es, of pre ?stop "timed_block ?eot @ post" um None None "[]"] assms(2)
    by (auto simp: data)
  have "good_timed ?eot" using d by (simp add: good_timed_def)
  then have "mtrk_loop um ((pre @ ?c) @ timed_block ?eot @ post) ?stop (length (pre @ ?c)) rs
      (last_name es None) es = Ok (last_name [?eot] (last_name es None), es @ [?eot])"
    using mtrk_loop_step [of ?eot "pre @ ?c" ?stop post um rs "last_name es None" es] assms(2)
    by (auto simp: data)
  with 1 show ?thesis by (simp add: data t nm last_name_append)
qed

lemma read_u32_be_at:
  "slice_ok um (pre @ to_be 4 v @ post) \<Longrightarrow>
     read_u32_be um (pre @ to_be 4 v @ post) (length pre) = Ok (v, length pre + 4)"
  by (auto simp: read_u32_be_def require_bytes_def uadd_def slice_ok_def slice_eq_Ok)

lemma read_u16_be_at:
  "slice_ok um (pre @ to_be 2 v @ post) \<Longrightarrow>
     read_u16_be um (pre @ to_be 2 v @ post) (length pre) = Ok (v, length pre + 2)"
  by (auto simp: read_u16_be_def require_bytes_def uadd_def slice_ok_def slice_eq_Ok)

lemma require_bytes_Ok:
  "slice_ok um data \<Longrightarrow> pos + n \<le> length data \<Longrightarrow> require_bytes um data pos n ctx = Ok ()"
  by (auto simp: require_bytes_def uadd_def slice_ok_def)

lemma length_magic [simp]:
  "length (ascii_bytes ''MTrk'') = 4" "length (ascii_bytes ''MThd'') = 4"
  by (simp_all add: ascii_bytes_def)

interpretation mtrk: offset_codec track_block "parse_mtrk um" closed_track "slice_ok um"
  "\<lambda>pos. True" for um
proof
  fix t pre post
  assume t: "closed_track t" and ok: "slice_ok um (pre @ track_block t @ post)"
  let ?m = "ascii_bytes ''MTrk''" and ?d = "track_data t"
  let ?n = "word_of_nat (length ?d) :: 32 word"
  let ?data = "pre @ ?m @ to_be 4 ?n @ ?d @ post"
  have n: "unat ?n = length ?d" using t by (simp add: closed_track_def)
  have ok': "slice_ok um ?data" using ok by (simp add: track_block_def)
  have r: "require_bytes um ?data (length pre) 8 ''MTrk header'' = Ok ()"
    by (rule require_bytes_Ok [OF ok']) simp
  have m: "slice ?data (length pre) (length pre + 4) = (Ok ?m :: (byte list, smf_error) result)"
    by (simp add: slice_eq_Ok)
  have len: "read_u32_be um ?data (length pre + 4) = Ok (?n, length pre + 8)"
    using read_u32_be_at [of um "pre @ ?m" ?n "?d @ post"] ok' by simp
  have add: "uadd um (length pre + 8) (length ?d) = (Ok (length pre + 8 + length ?d) :: (nat, smf_error) result)"
    using ok' by (auto simp: uadd_def slice_ok_def)
  have loop: "mtrk_loop um ?data (length pre + 8 + length ?d) (length pre + 8) None None []
      = Ok (track_name t, track_events t)"
    using mtrk_loop_closed [OF t, of "pre @ ?m @ to_be 4 ?n" post um] ok'
    by (auto simp: slice_ok_def add.assoc)
  have "parse_mtrk um ?data (length pre) = Ok (t, length pre + 8 + length ?d)"
    unfolding parse_mtrk_def r m and_then.simps
    by (simp add: len n add loop)
  then show "parse_mtrk um (pre @ track_block t @ post) (length pre)
      = Ok (t, length pre + length (track_block t))"
    by (simp add: track_block_def add.assoc)
qed simp

subsection \<open>Files\<close>

text \<open>
  The parser's reading of a track of the writer: the name comes from the events, and a
  missing end-of-track event has been added.
\<close>

definition normalise_track :: "smf_track \<Rightarrow> smf_track" where
  "normalise_track t = \<lparr>track_name = last_name (track_events t) None,
     track_events = with_eot (track_events t)\<rparr>"

definition normalise :: "smf_file \<Rightarrow> smf_file" where
  "normalise f = f\<lparr>file_tracks := map normalise_track (file_tracks f)\<rparr>"

text \<open>
  A time division that survives: ticks per beat without the top bit, or a frame rate that is
  its own negation in seven bits, which holds of 0 and 64 only.
\<close>

fun good_division :: "division \<Rightarrow> bool" where
  "good_division (TicksPerBeat w) = (w AND 0x8000 = 0)"
| "good_division (Smpte f sub) = (f \<in> {0, 64})"

definition good_file :: "smf_file \<Rightarrow> bool" where
  "good_file f \<longleftrightarrow> length (file_tracks f) < 2 ^ 16 \<and> good_division (file_division f)
     \<and> (\<forall>t \<in> set (file_tracks f). closed_track (normalise_track t))"

lemma with_eot_idem [simp]: "with_eot (with_eot es) = with_eot es"
  by (simp add: with_eot_def)

lemma track_block_normalise [simp]: "track_block (normalise_track t) = track_block t"
  by (simp add: track_block_def track_data_def normalise_track_def)

lemma good_timed_writable: "good_timed e \<Longrightarrow> \<not> unwritable e"
  by (cases "ev e") (auto simp: good_timed_def unwritable_def)

lemma closed_writable:
  assumes "closed_track (normalise_track t)" and "e \<in> set (track_events t)"
  shows "\<not> unwritable e"
proof -
  from assms(1) obtain es d where t: "with_eot (track_events t) = es @ [\<lparr>delta_ticks = d, ev = EndOfTrack\<rparr>]"
    and es: "\<forall>e \<in> set es. good_timed e" and d: "unat d < 2 ^ 28"
    by (auto simp: closed_track_def normalise_track_def)
  have "e \<in> set (with_eot (track_events t))"
    using assms(2) by (simp add: with_eot_def)
  then have "good_timed e"
    using es d by (auto simp: t good_timed_def)
  then show ?thesis by (rule good_timed_writable)
qed

text \<open>The division word, taken apart.\<close>

lemma from_be_2: "from_be [a, b] = (push_bit 8 (ucast a) OR ucast b :: 16 word)"
proof -
  have "\<not> bit (push_bit 8 (ucast a :: 16 word)) n \<or> \<not> bit (ucast b :: 16 word) n" for n
    by (auto simp: bit_push_bit_iff bit_ucast_iff dest: bit_imp_le_length)
  then have "push_bit 8 (ucast a :: 16 word) AND ucast b = 0"
    by (intro bit_eqI) (simp add: bit_and_iff)
  then have "push_bit 8 (ucast a) OR ucast b = push_bit 8 (ucast a) + (ucast b :: 16 word)"
    by (simp only: disjunctive_add_eq_or)
  then show ?thesis by (simp add: push_bit_eq_mult from_be_def be_nat_def mult.commute)
qed

lemma and_7F_16: "v AND 0x7F = take_bit 7 (v :: 16 word)"
  by (simp add: take_bit_eq_mask mask_eq_exp_minus_1)

lemma and_FF_16: "v AND 0xFF = take_bit 8 (v :: 16 word)"
  by (simp add: take_bit_eq_mask mask_eq_exp_minus_1)

lemma bit_nonzero: "bit (x :: 'a::len word) n \<Longrightarrow> x \<noteq> 0"
  by auto

lemma division_of_bytes:
  assumes "bit a 7"
  shows "division_of_word (from_be [a, sub]) = Smpte (a AND 0x7F) sub"
proof -
  let ?w = "push_bit 8 (ucast a) OR ucast sub :: 16 word"
  have "bit (?w AND push_bit 15 1) 15"
    using assms by (simp only: bit_and_iff bit_or_iff bit_push_bit_iff bit_ucast_iff) simp
  then have "?w AND push_bit 15 1 \<noteq> 0"
    by (rule bit_nonzero)
  then have top: "?w AND 0x8000 \<noteq> 0"
    by (simp add: push_bit_eq_mult)
  have "drop_bit 8 ?w = ucast a"
    by (rule bit_eqI) (auto simp: bit_drop_bit_eq bit_or_iff bit_push_bit_iff bit_ucast_iff
        dest: bit_imp_le_length)
  then have hi: "(ucast (drop_bit 8 ?w AND 0x7F) :: byte) = a AND 0x7F"
    unfolding and_7F_16 and_7F
    by (intro bit_eqI) (auto simp: bit_take_bit_iff bit_ucast_iff dest: bit_imp_le_length)
  have lo: "(ucast (?w AND 0xFF) :: byte) = sub"
    unfolding and_FF_16
    by (rule bit_eqI) (auto simp: bit_take_bit_iff bit_or_iff bit_push_bit_iff bit_ucast_iff
        dest: bit_imp_le_length)
  show ?thesis
    unfolding from_be_2 division_of_word_def using top hi lo by simp
qed

text \<open>What the parser makes of the division of a frame-based file that the writer wrote.\<close>

lemma smpte_reread:
  "division_of_word (from_be (division_bytes (Smpte f sub))) = Smpte ((0 - f) AND 0x7F) sub"
proof -
  have "bit ((0 - f) OR 0x80 :: byte) 7"
    unfolding byte_80 by (simp only: bit_or_iff bit_push_bit_iff) simp
  moreover have "((0 - f) OR 0x80) AND 0x7F = (0 - f) AND (0x7F :: byte)"
    unfolding and_7F byte_80
    by (rule bit_eqI) (auto simp: bit_take_bit_iff bit_or_iff bit_push_bit_iff)
  ultimately show ?thesis
    by (simp only: division_bytes.simps division_of_bytes)
qed

lemma from_be_division:
  assumes "good_division d"
  shows "division_of_word (from_be (division_bytes d)) = d"
proof (cases d)
  case (TicksPerBeat w)
  with assms show ?thesis by (simp add: division_of_word_def)
next
  case (Smpte f sub)
  with assms smpte_reread [of f sub] show ?thesis by (auto simp del: division_bytes.simps)
qed

lemma length_division_bytes [simp]: "length (division_bytes d) = 2"
  by (cases d) auto

lemma division_bytes_word: "division_bytes d = to_be 2 (from_be (division_bytes d) :: 16 word)"
  by (simp add: to_be_from_be_16)

lemma format_of_format_word: "format_of_word (format_word f) = Ok f"
  by (cases f) (simp_all add: format_of_word_def)

lemma length_header: "length (header f) = 14"
  by (simp add: header_def)

lemma parse_mthd_header:
  assumes "slice_ok um (header f @ rest)"
  shows "parse_mthd um (header f @ rest) 0
       = Ok ((file_format f, word_of_nat (length (file_tracks f)),
           division_of_word (from_be (division_bytes (file_division f)))), 14)"
proof -
  let ?m = "ascii_bytes ''MThd''" and ?l = "to_be 4 (6 :: 32 word)"
  let ?f = "to_be 2 (format_word (file_format f))"
  let ?n = "to_be 2 (word_of_nat (length (file_tracks f)) :: 16 word)"
  let ?w = "from_be (division_bytes (file_division f)) :: 16 word"
  let ?data = "?m @ ?l @ ?f @ ?n @ to_be 2 ?w @ rest"
  have data: "header f @ rest = ?data"
    using division_bytes_word [of "file_division f"] by (simp add: header_def)
  with assms have ok: "slice_ok um ?data" by simp
  have 1: "require_bytes um ?data 0 14 ''MThd chunk'' = Ok ()"
    by (rule require_bytes_Ok [OF ok]) simp
  have 2: "slice ?data 0 (0 + 4) = (Ok ?m :: (byte list, smf_error) result)"
    by (simp add: slice_eq_Ok)
  have 3: "read_u32_be um ?data (0 + 4) = Ok (6, 8)"
    using read_u32_be_at [of um ?m 6 "?f @ ?n @ to_be 2 ?w @ rest"] ok by simp
  have 4: "read_u16_be um ?data 8 = Ok (format_word (file_format f), 10)"
    using read_u16_be_at [of um "?m @ ?l" "format_word (file_format f)" "?n @ to_be 2 ?w @ rest"] ok by simp
  have 5: "read_u16_be um ?data 10 = Ok (word_of_nat (length (file_tracks f)), 12)"
    using read_u16_be_at [of um "?m @ ?l @ ?f" _ "to_be 2 ?w @ rest"] ok by simp
  have 6: "read_u16_be um ?data 12 = Ok (?w, 14)"
    using read_u16_be_at [of um "?m @ ?l @ ?f @ ?n" ?w rest] ok by simp
  show ?thesis
    unfolding data parse_mthd_def 1 2 3 and_then.simps prod.case
    by (simp add: 4 5 6 format_of_format_word)
qed

lemma parse_write:
  assumes "length (file_tracks f) < 2 ^ 16" and "\<forall>t \<in> set (file_tracks f). closed_track (normalise_track t)"
    and "slice_ok um (header f @ concat (map track_block (file_tracks f)))"
  shows "parse um (header f @ concat (map track_block (file_tracks f)))
       = Ok ((normalise f)\<lparr>file_division := division_of_word (from_be (division_bytes (file_division f)))\<rparr>)"
proof -
  let ?ts = "map normalise_track (file_tracks f)"
  let ?c = "concat (map track_block (file_tracks f))"
  have c: "concat (map track_block ?ts) = ?c"
    by (simp add: comp_def)
  have n: "unat (word_of_nat (length (file_tracks f)) :: 16 word) = length ?ts"
    using assms(1) by simp
  have "read_n (parse_mtrk um) (length ?ts) (header f @ concat (map track_block ?ts) @ []) (length (header f))
      = Ok (?ts, length (header f) + length (concat (map track_block ?ts)))"
    using assms(2,3) by (intro mtrk.read_n_enc) (auto simp: comp_def)
  then have r: "read_n (parse_mtrk um) (length ?ts) (header f @ ?c) 14
      = Ok (?ts, 14 + length ?c)"
    unfolding c length_header by simp
  show ?thesis
    unfolding parse_def parse_mthd_header [OF assms(3)] and_then.simps prod.case n r
    by (simp add: normalise_def)
qed

end
