(* ===== verification/Smf_Safety.thy ===== *)
theory Smf_Safety
  imports Smf_Roundtrip
begin

text \<open>
  What holds of the MIDI file parser on every input: it does not panic as long as a 32-bit
  length can be added to an offset into the data, and what it returns is well formed.
\<close>

subsection \<open>Freedom from panics\<close>

definition headroom :: "nat \<Rightarrow> byte list \<Rightarrow> bool" where
  "headroom um data \<longleftrightarrow> length data + 2 ^ 32 \<le> um"

lemma require_bytes_no_panic:
  "headroom um data \<Longrightarrow> pos \<le> length data \<Longrightarrow> n < 2 ^ 32 \<Longrightarrow> require_bytes um data pos n ctx \<noteq> Panic"
  by (auto simp: require_bytes_def headroom_def uadd_def)

lemma require_bytes_Ok_iff:
  "require_bytes um data pos n ctx = Ok u \<longleftrightarrow> pos + n \<le> um \<and> pos + n \<le> length data"
  by (auto simp: require_bytes_def split: if_splits)

lemma read_u32_be_no_panic:
  "headroom um data \<Longrightarrow> pos \<le> length data \<Longrightarrow> read_u32_be um data pos \<noteq> Panic"
  using require_bytes_no_panic [of um data pos 4]
  by (auto simp: read_u32_be_def result_simps require_bytes_Ok_iff)

lemma read_u16_be_no_panic:
  "headroom um data \<Longrightarrow> pos \<le> length data \<Longrightarrow> read_u16_be um data pos \<noteq> Panic"
  using require_bytes_no_panic [of um data pos 2]
  by (auto simp: read_u16_be_def result_simps require_bytes_Ok_iff)

lemma read_u32_be_pos: "read_u32_be um data pos = Ok (v, q) \<Longrightarrow> q = pos + 4 \<and> q \<le> length data"
  by (auto simp: read_u32_be_def require_bytes_Ok_iff)

lemma read_u16_be_pos: "read_u16_be um data pos = Ok (v, q) \<Longrightarrow> q = pos + 2 \<and> q \<le> length data"
  by (auto simp: read_u16_be_def require_bytes_Ok_iff)

lemma vlq_loop_no_panic: "vlq_loop n val data pos \<noteq> Panic"
  by (induction n val data pos rule: vlq_loop.induct) (auto simp: Let_def result_simps)

lemma read_vlq_no_panic [simp]: "read_vlq data pos \<noteq> Panic"
  by (simp add: read_vlq_def vlq_loop_no_panic)

lemma read_byte_no_panic [simp]: "read_byte data pos \<noteq> Panic"
  by (auto simp: read_byte_def result_simps)

lemma decode_meta_no_panic [simp]: "decode_meta ty d \<noteq> Panic"
  by (simp add: decode_meta_def)

lemma build_channel_message_no_panic [simp]: "build_channel_message data pos st ty fb e \<noteq> Panic"
  by (auto simp: build_channel_message_def read_data_byte_def result_simps split: option.splits)

lemma parse_event_no_panic:
  assumes "headroom um data" and "track_end \<le> length data"
  shows "parse_event um data pos track_end rs \<noteq> Panic"
proof -
  have b: "p + unat n \<le> um" if "read_vlq data q = Ok (n, p)" for n :: "32 word" and p q
  proof -
    have "p \<le> length data" using read_vlq_pos [OF that] by simp
    moreover have "unat n < 2 ^ 32" by simp
    ultimately show ?thesis using assms(1) unfolding headroom_def by linarith
  qed
  show ?thesis
    using assms(2)
    by (auto simp: parse_event_def result_simps Let_def not_le split: if_splits dest!: b)
qed

lemma mtrk_loop_no_panic:
  assumes "headroom um data" and "track_end \<le> length data"
  shows "mtrk_loop um data track_end pos rs nm evs \<noteq> Panic"
  using assms
proof (induction um data track_end pos rs nm evs rule: mtrk_loop.induct)
  case (1 um data track_end pos rs nm evs)
  then show ?case
    by (subst mtrk_loop.simps) (auto simp: result_simps Let_def parse_event_no_panic)
qed

lemma parse_mtrk_no_panic:
  assumes "headroom um data" and "pos \<le> length data"
  shows "parse_mtrk um data pos \<noteq> Panic"
proof -
  have b: "p + unat n \<le> um" if "read_u32_be um data q = Ok (n, p)" for n :: "32 word" and p q
  proof -
    have "p \<le> length data" using read_u32_be_pos [OF that] by simp
    moreover have "unat n < 2 ^ 32" by simp
    ultimately show ?thesis using assms(1) unfolding headroom_def by linarith
  qed
  show ?thesis
    using assms require_bytes_no_panic [of um data pos 8]
    by (auto simp: parse_mtrk_def result_simps require_bytes_Ok_iff not_le
        read_u32_be_no_panic mtrk_loop_no_panic split: if_splits dest!: b)
qed

lemma parse_mtrk_pos: "parse_mtrk um data pos = Ok (t, q) \<Longrightarrow> q \<le> length data"
  by (auto simp: parse_mtrk_def split: if_splits)

lemma parse_mthd_no_panic:
  assumes "headroom um data"
  shows "parse_mthd um data 0 \<noteq> Panic"
proof -
  have f: "format_of_word w \<noteq> Panic" for w by (simp add: format_of_word_def)
  show ?thesis
    using assms require_bytes_no_panic [of um data 0 14]
    by (auto simp: parse_mthd_def result_simps require_bytes_Ok_iff read_u32_be_no_panic
        read_u16_be_no_panic f dest!: read_u32_be_pos read_u16_be_pos)
qed

lemma parse_mthd_pos: "parse_mthd um data 0 = Ok (h, q) \<Longrightarrow> q \<le> length data"
  by (auto simp: parse_mthd_def split: if_splits dest!: read_u16_be_pos)

lemma parse_no_panic:
  assumes "headroom um data"
  shows "parse um data \<noteq> Panic"
proof -
  have "read_n (parse_mtrk um) n data pos \<noteq> Panic" if "pos \<le> length data" for n pos
    by (rule read_n_no_panic [where I = "\<lambda>p. p \<le> length data"])
      (use assms that parse_mtrk_no_panic parse_mtrk_pos in auto)
  then show ?thesis
    using parse_mthd_no_panic [OF assms] parse_mthd_pos
    by (fastforce simp: parse_def result_simps)
qed

subsection \<open>What the parser returns\<close>

text \<open>System-exclusive messages and their continuations, which the writer does not give back.\<close>

definition sysex_event :: "smf_event \<Rightarrow> bool" where
  "sysex_event e \<longleftrightarrow> (\<exists>m. e = Midi m \<and> m_status m \<in> {0xF0, 0xF7} \<and> m_timestamp_micros m = 0)"

text \<open>
  The fallback name of a track whose name is not UTF-8 is a string like any other. Every
  event that is parsed is good or system-exclusive.
\<close>

definition parsed_event :: "track_event \<Rightarrow> bool" where
  "parsed_event e \<longleftrightarrow> unat (delta_ticks e) < 2 ^ 28 \<and> (good_event (ev e) \<or> sysex_event (ev e))"

definition parsed_track :: "smf_track \<Rightarrow> bool" where
  "parsed_track t \<longleftrightarrow> (\<forall>e \<in> set (track_events t). parsed_event e)
     \<and> EndOfTrack \<notin> ev ` set (butlast (track_events t))
     \<and> track_name t = last_name (track_events t) None"

lemma unat_push_or_group:
  assumes "unat val < 2 ^ 25"
  shows "unat (push_bit 7 (val :: 32 word) OR ucast (b AND 0x7F :: byte)) < (unat val + 1) * 128"
proof -
  let ?g = "b AND 0x7F"
  have g: "unat ?g < 128" by (simp only: unat_and_7F)
  then have "?g < 0x80" by (simp add: word_less_nat_alt)
  then have "push_bit 7 val OR ucast ?g = val * 128 + ucast ?g"
    by (rule push_or_group)
  also have "\<dots> = word_of_nat (unat val * 128 + unat ?g)"
    by simp
  finally have "unat (push_bit 7 val OR ucast ?g) = (unat val * 128 + unat ?g) mod 2 ^ 32"
    by (simp only: unat_of_nat) simp
  also have "\<dots> = unat val * 128 + unat ?g"
    using assms g by (intro mod_less) simp
  finally show ?thesis using g by simp
qed

lemma vlq_loop_bound:
  "vlq_loop n val data pos = Ok (v, q) \<Longrightarrow> unat val < 128 ^ k \<Longrightarrow> n + k = 4 \<Longrightarrow> unat v < 2 ^ 28"
proof (induction n val data pos arbitrary: k v q rule: vlq_loop.induct)
  case (2 n val data pos)
  obtain b where b: "get data pos = Some b"
    using "2.prems"(1) by (cases "get data pos") auto
  let ?val = "push_bit 7 val OR ucast (b AND 0x7F)"
  have k: "k \<le> 3" using "2.prems"(3) by simp
  have "(128::nat) ^ k \<le> 128 ^ 3" by (rule power_increasing [OF k]) simp
  then have "unat val < 2 ^ 25" using "2.prems"(2) by simp
  then have "unat ?val < (unat val + 1) * 128" by (rule unat_push_or_group)
  also have "\<dots> \<le> 128 ^ k * 128" using "2.prems"(2) by (intro mult_right_mono) simp_all
  finally have v: "unat ?val < 128 ^ Suc k" by (simp add: mult.commute)
  show ?case
  proof (cases "b AND 0x80 = 0")
    case True
    have "(128::nat) ^ Suc k \<le> 128 ^ 4" using k by (intro power_increasing) simp_all
    with v have "unat ?val < 2 ^ 28" by simp
    with True b "2.prems"(1) show ?thesis by (simp add: Let_def)
  next
    case False
    have "ok_or VlqEof (get data pos) = Ok b" using b by simp
    moreover have "vlq_loop n ?val data (pos + 1) = Ok (v, q)" and "n + Suc k = 4"
      using b False "2.prems"(1,3) by (simp_all add: Let_def)
    ultimately show ?thesis using "2.IH" [OF _ refl False _ v] by blast
  qed
qed simp

lemma read_vlq_bound: "read_vlq data pos = Ok (v, q) \<Longrightarrow> unat v < 2 ^ 28"
  unfolding read_vlq_def using vlq_loop_bound [of 4 0 data pos v q 0] by simp

lemma unat_less_take_bit:
  assumes "take_bit n (x :: 'a::len word) = x"
  shows "unat x < 2 ^ n"
proof -
  have "unat x = unat (take_bit n x)" by (simp only: assms)
  also have "\<dots> = take_bit n (unat x)" by (rule unsigned_take_bit_eq)
  also have "\<dots> < 2 ^ n" by (rule take_bit_nat_less_exp)
  finally show ?thesis .
qed

lemma unat_tempo: "unat (push_bit 16 (ucast (a :: byte)) OR push_bit 8 (ucast (b :: byte))
    OR ucast (c :: byte) :: 32 word) < 2 ^ 24"
proof (rule unat_less_take_bit)
  let ?x = "push_bit 16 (ucast a) OR push_bit 8 (ucast b) OR ucast c :: 32 word"
  have "bit ?x n \<Longrightarrow> n < 24" for n
    by (auto simp: bit_or_iff bit_push_bit_iff bit_ucast_iff dest: bit_imp_le_length)
  then show "take_bit 24 ?x = ?x"
    by (intro bit_eqI) (simp only: bit_take_bit_iff, blast)
qed

lemma utf8_valid_fallback: "utf8_valid invalid_utf8_name"
  by (rule utf8_valid_ascii) (simp add: invalid_utf8_name_def)

lemma length_fallback: "length invalid_utf8_name = 15"
  by (simp add: invalid_utf8_name_def)

lemma decode_meta_good: "decode_meta ty d = Ok e \<Longrightarrow> length d < 2 ^ 28 \<Longrightarrow> good_event e"
  using unat_tempo
  by (auto simp: decode_meta_def utf8_valid_fallback length_fallback split: if_splits)

lemma build_channel_message_good:
  assumes "build_channel_message data pos st (st AND 0xF0) fb e = Ok (m, q)"
  shows "channel_message m"
  using assms by (auto simp: build_channel_message_def channel_message_def split: if_splits)

lemma parse_event_good:
  assumes "parse_event um data pos track_end rs = Ok (e, st, q)"
  shows "good_event e \<or> sysex_event e"
proof -
  obtain b p where b: "read_byte data pos = Ok (b, p)"
    using assms by (auto simp: parse_event_def)
  consider "b = 0xFF" | "b = 0xF0 \<or> b = 0xF7" "b \<noteq> 0xFF" | "b \<notin> {0xFF, 0xF0, 0xF7}" by auto
  then show ?thesis
  proof cases
    case 1
    with assms b obtain ty n p1 p2 "end" d where "read_vlq data p1 = Ok (n, p2)"
      and "slice data p2 end = (Ok d :: (byte list, smf_error) result)" and "end = p2 + unat n"
      and "decode_meta ty d = Ok e"
      by (auto simp: parse_event_def split: if_splits)
    with slice_length have "length d = unat n" by fastforce
    with read_vlq_bound have "length d < 2 ^ 28" by (metis \<open>read_vlq data p1 = Ok (n, p2)\<close>)
    with \<open>decode_meta ty d = Ok e\<close> show ?thesis by (simp add: decode_meta_good)
  next
    case 2
    with assms b show ?thesis
      by (auto simp: parse_event_def sysex_event_def new_sysex_def split: if_splits)
  next
    case 3
    with assms b show ?thesis
      by (auto simp: parse_event_def split: if_splits dest!: build_channel_message_good)
  qed
qed

lemma mtrk_loop_wf:
  assumes "mtrk_loop um data track_end pos rs nm acc = Ok (nm', evs)"
  shows "\<exists>es. evs = acc @ es \<and> (\<forall>e \<in> set es. parsed_event e)
    \<and> EndOfTrack \<notin> ev ` set (butlast es) \<and> nm' = last_name es nm"
  using assms
proof (induction um data track_end pos rs nm acc rule: mtrk_loop.induct)
  case (1 um data track_end pos rs nm acc)
  show ?case
  proof (cases "pos < track_end")
    case False
    with "1.prems" show ?thesis by (simp add: mtrk_loop.simps [of um data])
  next
    case True
    with "1.prems" obtain dl p1 e st p2 where v: "read_vlq data pos = Ok (dl, p1)"
      and le: "\<not> track_end \<le> p1" and p: "parse_event um data p1 track_end rs = Ok (e, st, p2)"
      by (auto simp: mtrk_loop.simps [of um data] split: if_splits)
    let ?e = "\<lparr>delta_ticks = dl, ev = e\<rparr>"
    let ?nm = "case e of TrackName n \<Rightarrow> Some n | _ \<Rightarrow> nm"
    have pe: "parsed_event ?e"
      using read_vlq_bound [OF v] parse_event_good [OF p] by (simp add: parsed_event_def)
    show ?thesis
    proof (cases "e = EndOfTrack")
      case True
      with "1.prems" \<open>pos < track_end\<close> v le p pe show ?thesis
        by (intro exI [of _ "[?e]"]) (auto simp: mtrk_loop.simps [of um data] Let_def)
    next
      case False
      have "mtrk_loop um data track_end p2 (case st of Some s \<Rightarrow> Some s | None \<Rightarrow> rs) ?nm (acc @ [?e])
          = Ok (nm', evs)"
        using "1.prems" \<open>pos < track_end\<close> v le p False
        by (simp add: mtrk_loop.simps [of um data track_end pos] Let_def)
      from "1.IH" [OF True v refl le p refl refl refl refl refl False this]
      obtain es where es: "evs = (acc @ [?e]) @ es" "\<forall>e \<in> set es. parsed_event e"
        "EndOfTrack \<notin> ev ` set (butlast es)" "nm' = last_name es ?nm"
        by blast
      with pe False show ?thesis
        by (intro exI [of _ "?e # es"]) auto
    qed
  qed
qed

lemma parse_mtrk_wf: "parse_mtrk um data pos = Ok (t, q) \<Longrightarrow> parsed_track t"
  by (auto simp: parse_mtrk_def parsed_track_def split: if_splits dest!: mtrk_loop_wf)

lemma parse_wf:
  assumes "parse um data = Ok f"
  shows "length (file_tracks f) < 2 ^ 16 \<and> (\<forall>t \<in> set (file_tracks f). parsed_track t)"
proof -
  from assms obtain h n d pos q where
    r: "read_n (parse_mtrk um) (unat (n :: 16 word)) data pos = Ok (file_tracks f, q)"
    by (auto simp: parse_def)
  have "length (file_tracks f) = unat n" by (rule read_n_length [OF r])
  moreover have "unat n < 2 ^ 16" using unat_less_pow [of n] by simp
  moreover have "\<forall>t \<in> set (file_tracks f). parsed_track t"
    using read_n_all [where I = "\<lambda>p. True" and P = parsed_track, OF _ _ r] parse_mtrk_wf by blast
  ultimately show ?thesis by simp
qed

text \<open>A parsed track without system-exclusive messages is one the writer gives back.\<close>

lemma parsed_closed:
  assumes "parsed_track t" and "\<forall>e \<in> set (track_events t). \<not> sysex_event (ev e)"
    and "length (track_data t) < 2 ^ 32"
  shows "closed_track (normalise_track t)"
proof -
  let ?es = "track_events t"
  have good: "\<forall>e \<in> set ?es. good_timed e"
    using assms(1,2) by (auto simp: parsed_track_def parsed_event_def good_timed_def)
  have data: "track_data (normalise_track t) = track_data t"
    by (simp add: track_data_def normalise_track_def)
  have last: "EndOfTrack \<notin> ev ` set (butlast ?es)"
    using assms(1) by (simp add: parsed_track_def)
  have "\<exists>es d. with_eot ?es = es @ [\<lparr>delta_ticks = d, ev = EndOfTrack\<rparr>]
      \<and> (\<forall>e \<in> set es. good_timed e \<and> ev e \<noteq> EndOfTrack) \<and> unat d < 2 ^ 28"
  proof (cases "EndOfTrack \<in> ev ` set ?es")
    case True
    then have "?es \<noteq> []" by auto
    then obtain es0 e0 where es: "?es = es0 @ [e0]" by (metis rev_exhaust)
    from True last have e0: "ev e0 = EndOfTrack" by (auto simp: es)
    then have "\<lparr>delta_ticks = delta_ticks e0, ev = EndOfTrack\<rparr> = e0" by simp
    with es e0 last good show ?thesis
      by (intro exI [of _ es0] exI [of _ "delta_ticks e0"]) (auto simp: with_eot_def good_timed_def image_iff)
  next
    case False
    with good show ?thesis
      by (intro exI [of _ ?es] exI [of _ 0]) (auto simp: with_eot_def image_iff)
  qed
  then show ?thesis
    using assms(3) data by (simp add: closed_track_def normalise_track_def last_name_append with_eot_def)
qed

subsection \<open>Sample files\<close>

definition sample_note :: "byte \<Rightarrow> byte \<Rightarrow> byte \<Rightarrow> smf_event" where
  "sample_note st n v = Midi \<lparr>m_status = st, m_data = [n, v], m_timestamp_micros = 0\<rparr>"

definition sample_track :: smf_track where
  "sample_track = \<lparr>track_name = Some (ascii_bytes ''lead''),
     track_events =
       [\<lparr>delta_ticks = 0, ev = TrackName (ascii_bytes ''lead'')\<rparr>,
        \<lparr>delta_ticks = 0, ev = Tempo 500000\<rparr>,
        \<lparr>delta_ticks = 0, ev = sample_note 0x90 60 64\<rparr>,
        \<lparr>delta_ticks = 480, ev = sample_note 0x80 60 0\<rparr>]\<rparr>"

definition sample_file :: "division \<Rightarrow> smf_track list \<Rightarrow> smf_file" where
  "sample_file d ts = \<lparr>file_format = MultiTrack, file_division = d, file_tracks = ts\<rparr>"

lemma length_vlq_480: "vlq 480 = [0x83, 0x60]"
  by (simp add: vlq_def groups.simps)

lemma sample_closed: "closed_track (normalise_track sample_track)"
proof -
  have valid: "utf8_valid (ascii_bytes ''lead'')"
    by (rule utf8_valid_ascii) (simp add: ascii_bytes_def)
  show ?thesis
    unfolding closed_track_def normalise_track_def
    by (intro conjI exI [of _ "track_events sample_track"] exI [of _ 0])
      (simp_all add: sample_track_def with_eot_def good_timed_def valid [unfolded ascii_bytes_def, simplified] sample_note_def
        channel_message_def track_data_def timed_block_def to_bytes_def is_sysex_def length_vlq_480
        ascii_bytes_def vlq_def groups.simps)
qed

lemma length_sample_block: "length (track_block sample_track) = 36"
  by (simp add: track_block_def sample_track_def with_eot_def sample_note_def track_data_def
      timed_block_def to_bytes_def is_sysex_def length_vlq_480 ascii_bytes_def vlq_def groups.simps)

definition sample_bytes :: "division \<Rightarrow> byte list" where
  "sample_bytes d = header (sample_file d [sample_track]) @ track_block sample_track"

lemma write_sample: "write_smf (sample_file d [sample_track]) = Ok (sample_bytes d)"
  using closed_writable [OF sample_closed]
  by (auto simp: write_smf_eq sample_bytes_def) (auto simp: sample_file_def)

lemma sample_bytes_fit: "slice_ok usize_max_32 (sample_bytes d)" "slice_ok usize_max_64 (sample_bytes d)"
  by (simp_all add: slice_ok_def sample_bytes_def length_header length_sample_block)

lemma good_sample: "good_file (sample_file (TicksPerBeat 480) [sample_track])"
  using sample_closed by (simp add: good_file_def sample_file_def)

lemma parse_sample:
  "parse usize_max_64 (sample_bytes (TicksPerBeat 480)) = Ok (normalise (sample_file (TicksPerBeat 480) [sample_track]))"
proof -
  let ?f = "sample_file (TicksPerBeat 480) [sample_track]"
  have "(normalise ?f)\<lparr>file_division := file_division ?f\<rparr> = normalise ?f"
    by (simp add: normalise_def)
  then show ?thesis
    using parse_write [of ?f usize_max_64] from_be_division [of "TicksPerBeat 480"] sample_closed
      sample_bytes_fit(2) [of "TicksPerBeat 480"]
    by (simp add: sample_bytes_def) (simp add: sample_file_def)
qed

definition sysex_track :: smf_track where
  "sysex_track = \<lparr>track_name = None,
     track_events = [\<lparr>delta_ticks = 0, ev = Midi (new_sysex [0x41, 0x10])\<rparr>]\<rparr>"

lemma sysex_track_data: "track_data sysex_track = [0, 0xF0, 0x41, 0x10, 0xF7, 0, 0xFF, 0x2F, 0]"
  by (simp add: track_data_def sysex_track_def with_eot_def timed_block_def to_bytes_def is_sysex_def
      new_sysex_def)

text \<open>The start of a file whose only track claims to be as long as a 32-bit length can say.\<close>

definition hostile_start :: "byte list" where
  "hostile_start = ascii_bytes ''MThd'' @ [0, 0, 0, 6, 0, 0, 0, 1, 0x01, 0xE0]
     @ ascii_bytes ''MTrk'' @ [0xFF, 0xFF, 0xFF, 0xFF]"

subsection \<open>Properties\<close>

text \<open>
  C2: A file of channel messages and meta events, with ticks per beat, that the writer turned
  into bytes is parsed back to the same file, up to the end-of-track event the writer adds
  and the track name that the events say.
\<close>

theorem smf_roundtrip:
  assumes "good_file f" and "write_smf f = Ok bytes" and "slice_ok um bytes"
  shows "parse um bytes = Ok (normalise f)"
proof -
  have bytes: "bytes = header f @ concat (map track_block (file_tracks f))"
    using assms(2) by (simp add: write_smf_eq split: if_splits)
  have "(normalise f)\<lparr>file_division := file_division f\<rparr> = normalise f"
    by (simp add: normalise_def)
  with parse_write [of f um] from_be_division [of "file_division f"] assms(1,3) bytes show ?thesis
    by (simp add: good_file_def)
qed

theorem smf_roundtrip_witness:
  "parse usize_max_32 (sample_bytes (TicksPerBeat 480))
     = Ok (normalise (sample_file (TicksPerBeat 480) [sample_track]))"
  by (rule smf_roundtrip [OF good_sample write_sample sample_bytes_fit(1)])

text \<open>
  C30: The writer never returns an error; it panics exactly when some delta time, track name or
  meta payload needs more than 28 bits of variable-length quantity, because the array of the
  groups has four cells.
\<close>

theorem smf_write_outcome:
  "\<not> is_err (write_smf f) \<and>
   (write_smf f = Panic \<longleftrightarrow> list_ex (\<lambda>t. list_ex unwritable (track_events t)) (file_tracks f))"
  by (auto simp: write_smf_eq list_ex_iff)

text \<open>
  Variable-length quantities: a value of at most 28 bits takes at most four bytes and is
  read back, leaving the cursor behind it, wherever it stands in the data.
\<close>

lemma smf_vlq_roundtrip:
  assumes "write_vlq v [] = Ok bs"
  shows "read_vlq (pre @ bs @ post) (length pre) = Ok (v, length pre + length bs) \<and> length bs \<le> 4"
proof -
  from assms have v: "unat v < 2 ^ 28" and bs: "bs = vlq (unat v)"
    by (auto simp: write_vlq_eq split: if_splits)
  have "length (groups (unat v)) \<le> 4" using length_groups [of "unat v" 3] v by simp
  moreover have "groups (unat v) \<noteq> []" by (simp add: groups.simps)
  ultimately have "length bs \<le> 4" by (cases "groups (unat v)") (simp_all add: bs vlq_def)
  then show ?thesis using vlq.rd_enc [OF v, of pre post] by (simp add: bs)
qed

theorem smf_vlq_roundtrip_witness:
  "write_vlq 480 [] = Ok [0x83, 0x60] \<and> read_vlq [7, 0x83, 0x60, 9] 1 = Ok (480, 3)"
proof -
  have w: "write_vlq 480 [] = Ok [0x83, 0x60]"
    by (simp add: write_vlq_eq length_vlq_480)
  with smf_vlq_roundtrip [OF w, of "[7]" "[9]"] show ?thesis by simp
qed

text \<open>
  C4: Where \<open>usize\<close> has more than 32 bits, no input makes the parser panic.
\<close>

theorem smf_parse_no_panic:
  assumes "slice_ok um data" and "2 ^ 33 \<le> um"
  shows "parse um data \<noteq> Panic"
proof (rule parse_no_panic)
  have "length data + 2 ^ 32 \<le> um div 2 + um div 2"
    using assms div_le_mono [OF assms(2), of 2] by (intro add_mono) (auto simp: slice_ok_def)
  then show "headroom um data" by (simp add: headroom_def)
qed

theorem smf_parse_no_panic_witness: "parse usize_max_64 (hostile_start @ [1, 2, 3]) \<noteq> Panic"
  by (rule smf_parse_no_panic) (simp_all add: slice_ok_def hostile_start_def ascii_bytes_def)

text \<open>
  On 32-bit targets a track header that claims the largest length overflows the addition
  of length and cursor, whatever follows it; the OSC decoder guards the same addition.
\<close>

lemma smf_parse_overflow_32: "parse usize_max_32 (hostile_start @ rest) = Panic"
proof -
  let ?d = "hostile_start @ rest"
  have len: "length hostile_start = 22" by (simp add: hostile_start_def ascii_bytes_def)
  have words: "from_be [0, 0, 0, 6] = (6 :: 32 word)" "from_be [0, 0] = (0 :: 16 word)"
    "from_be [0, 1] = (1 :: 16 word)" "from_be [1, 0xE0] = (0x1E0 :: 16 word)"
    "from_be [0xFF, 0xFF, 0xFF, 0xFF] = (0xFFFFFFFF :: 32 word)"
    by (simp_all add: from_be_def be_nat_def)
  have r: "read_u32_be usize_max_32 ?d 4 = Ok (6, 8)" "read_u16_be usize_max_32 ?d 8 = Ok (0, 10)"
    "read_u16_be usize_max_32 ?d 10 = Ok (1, 12)"
    "read_u16_be usize_max_32 ?d 12 = Ok (0x1E0, 14)"
    "read_u32_be usize_max_32 ?d 18 = Ok (0xFFFFFFFF, 22)"
    by (simp_all add: read_u32_be_def read_u16_be_def require_bytes_def uadd_def len slice_def words
        del: append.simps) (simp_all add: hostile_start_def ascii_bytes_def words)
  have m: "slice ?d 0 (0 + 4) = (Ok (ascii_bytes ''MThd'') :: (byte list, smf_error) result)"
    "slice ?d 14 (14 + 4) = (Ok (ascii_bytes ''MTrk'') :: (byte list, smf_error) result)"
    by (simp_all add: slice_def len) (simp_all add: hostile_start_def ascii_bytes_def)
  have h: "parse_mthd usize_max_32 ?d 0 = Ok ((SingleTrack, 1, division_of_word 0x1E0), 14)"
    by (simp add: parse_mthd_def require_bytes_def uadd_def len r [simplified] m [simplified] format_of_word_def)
  have "parse_mtrk usize_max_32 ?d 14 = Panic"
    by (simp add: parse_mtrk_def require_bytes_def uadd_def len r [simplified] m [simplified])
  with h show ?thesis by (simp add: parse_def)
qed

text \<open>
  C28: What the parser returns: fewer than 65536 tracks; in every track the delta times fit 28
  bits, every event is one the writer gives back or a system-exclusive message, an
  end-of-track event can only be the last, and the name is that of the last track-name event.
\<close>

theorem smf_parse_wf:
  assumes "parse um data = Ok f"
  shows "length (file_tracks f) < 2 ^ 16 \<and> list_all parsed_track (file_tracks f)"
  using parse_wf [OF assms] by (simp add: list_all_iff)

theorem smf_parse_wf_witness:
  "parse usize_max_64 (sample_bytes (TicksPerBeat 480))
     = Ok (normalise (sample_file (TicksPerBeat 480) [sample_track]))
   \<and> list_all parsed_track (file_tracks (normalise (sample_file (TicksPerBeat 480) [sample_track])))"
  using parse_sample smf_parse_wf [OF parse_sample] by simp

text \<open>
  The time division of a frame-based file does not survive: the writer negates the frame
  rate although the parser does not, so the rate comes back negated in seven bits, unless it
  is 0 or 64.
\<close>

lemma smf_smpte_reread:
  assumes "file_division f = Smpte rate sub" and "length (file_tracks f) < 2 ^ 16"
    and "list_all (\<lambda>t. closed_track (normalise_track t)) (file_tracks f)"
    and "write_smf f = Ok bytes" and "slice_ok um bytes"
  shows "parse um bytes = Ok ((normalise f)\<lparr>file_division := Smpte ((0 - rate) AND 0x7F) sub\<rparr>)"
proof -
  have "bytes = header f @ concat (map track_block (file_tracks f))"
    using assms(4) by (simp add: write_smf_eq split: if_splits)
  with parse_write [of f um] smpte_reread [of rate sub] assms show ?thesis
    by (simp add: list_all_iff del: division_bytes.simps)
qed

theorem smf_smpte_reread_witness:
  "parse usize_max_64 (sample_bytes (Smpte 24 40))
     = Ok ((normalise (sample_file (Smpte 24 40) [sample_track]))\<lparr>file_division := Smpte 104 40\<rparr>)"
  using smf_smpte_reread [OF _ _ _ write_sample sample_bytes_fit(2), of "Smpte 24 40" 24 40]
    sample_closed by (simp add: sample_file_def)

text \<open>
  A system-exclusive message is written without the length that the file format puts
  before its payload, so the parser takes the first payload byte for the length: the
  writer's own output is rejected.
\<close>

lemma smf_sysex_not_reread:
  "\<exists>bytes. write_smf (sample_file (TicksPerBeat 480) [sysex_track]) = Ok bytes
     \<and> parse usize_max_64 bytes = Err SysexPastEnd"
proof -
  let ?f = "sample_file (TicksPerBeat 480) [sysex_track]" and ?m = "ascii_bytes ''MTrk''"
  let ?t = "[0, 0xF0, 0x41, 0x10, 0xF7, 0, 0xFF, 0x2F, 0 :: byte]"
  let ?d = "header ?f @ ?m @ to_be 4 (9 :: 32 word) @ ?t"
  have w: "write_smf ?f = Ok ?d"
  proof -
    have "track_block sysex_track = ?m @ to_be 4 (9 :: 32 word) @ ?t"
      by (simp add: track_block_def sysex_track_data)
    moreover have "\<not> (\<exists>e \<in> set (track_events sysex_track). unwritable e)"
      by (simp add: sysex_track_def unwritable_def)
    moreover have "file_tracks ?f = [sysex_track]" by (simp add: sample_file_def)
    ultimately show ?thesis by (simp add: write_smf_eq)
  qed
  have len: "length ?d = 31" by (simp add: length_header)
  have ok: "slice_ok usize_max_64 ?d" by (simp add: slice_ok_def length_header)
  have r: "require_bytes usize_max_64 ?d 14 8 ''MTrk header'' = Ok ()"
    by (simp add: require_bytes_def uadd_def length_header)
  have m: "slice ?d 14 (14 + 4) = (Ok ?m :: (byte list, smf_error) result)"
    by (simp add: slice_eq_Ok length_header)
  have l: "read_u32_be usize_max_64 ?d (14 + 4) = Ok (9, 22)"
    using read_u32_be_at [of usize_max_64 "header ?f @ ?m" 9 ?t] ok by (simp add: length_header)
  have g: "get ?d 22 = Some 0" "get ?d 23 = Some 0xF0" "get ?d 24 = Some 0x41"
    by (simp_all add: get_def length_header nth_append)
  have v: "read_vlq ?d 22 = Ok (0, 23)" "read_vlq ?d 24 = Ok (0x41, 25)"
    using read_vlq_middle [of 0 "header ?f @ ?m @ to_be 4 (9 :: 32 word)" "tl ?t"]
      read_vlq_middle [of "0x41" "header ?f @ ?m @ to_be 4 (9 :: 32 word) @ [0, 0xF0]" "drop 3 ?t"]
    by (simp_all add: length_header vlq_def groups.simps)
  have e: "parse_event usize_max_64 ?d 23 31 None = Err SysexPastEnd"
    by (simp add: parse_event_def read_byte_def g v uadd_def del: append.simps)
  have "mtrk_loop usize_max_64 ?d 31 22 None None [] = Err SysexPastEnd"
    by (simp only: mtrk_loop.simps [of _ _ 31 22] v e and_then.simps prod.case if_False) simp
  then have "parse_mtrk usize_max_64 ?d 14 = Err SysexPastEnd"
    unfolding parse_mtrk_def r m and_then.simps
    by (simp add: l [simplified] length_header uadd_def del: append.simps)
  moreover have "parse_mthd usize_max_64 ?d 0 = Ok ((MultiTrack, 1, TicksPerBeat 480), 14)"
    using parse_mthd_header [OF ok] by (simp add: sample_file_def division_of_word_def)
  ultimately have "parse usize_max_64 ?d = Err SysexPastEnd"
    by (simp add: parse_def del: append.simps)
  with w show ?thesis by blast
qed

end
