(* ===== verification/Core_Types.thy ===== *)
theory Core_Types
  imports Utf8
begin

text \<open>
  The configuration types of \<open>crates/oxisound-core/src/lib.rs\<close>: sample formats, device
  descriptions, stream configurations with their builders, validation, host APIs, statistics
  and the error type. A builder is the value it wraps, and a setter is a record update.
\<close>

text \<open>A float that is only stored and compared for identity is its bit pattern.\<close>

type_synonym f32 = "32 word"

text \<open>String literals of the code are ASCII.\<close>

definition str_lit :: "string \<Rightarrow> rstring" where
  "str_lit s = map of_char s"

subsection \<open>Sample formats\<close>

datatype sample_format = F32 | I16 | I24 | I32 | U8 | F64

fun show_sample_format :: "sample_format \<Rightarrow> string" where
  "show_sample_format F32 = ''f32''"
| "show_sample_format I16 = ''i16''"
| "show_sample_format I24 = ''I24''"
| "show_sample_format I32 = ''i32''"
| "show_sample_format U8 = ''u8''"
| "show_sample_format F64 = ''f64''"

fun byte_size :: "sample_format \<Rightarrow> nat" where
  "byte_size U8 = 1"
| "byte_size I16 = 2"
| "byte_size I24 = 3"
| "byte_size F32 = 4"
| "byte_size I32 = 4"
| "byte_size F64 = 8"

definition is_float :: "sample_format \<Rightarrow> bool" where
  "is_float f \<longleftrightarrow> f = F32 \<or> f = F64"

fun pick_preferred_format :: "sample_format list \<Rightarrow> sample_format list \<Rightarrow> sample_format option" where
  "pick_preferred_format [] supported = (case supported of [] \<Rightarrow> None | f # _ \<Rightarrow> Some f)"
| "pick_preferred_format (f # preferred) supported =
     (if f \<in> set supported then Some f else pick_preferred_format preferred supported)"

subsection \<open>Channels and routing tables\<close>

datatype channel =
    FrontLeft | FrontRight | Center | Lfe | SurroundLeft | SurroundRight | BackLeft | BackRight

fun standard_index :: "channel \<Rightarrow> nat" where
  "standard_index FrontLeft = 0"
| "standard_index FrontRight = 1"
| "standard_index Center = 2"
| "standard_index Lfe = 3"
| "standard_index SurroundLeft = 4"
| "standard_index SurroundRight = 5"
| "standard_index BackLeft = 6"
| "standard_index BackRight = 7"

fun show_channel :: "channel \<Rightarrow> string" where
  "show_channel FrontLeft = ''FL''"
| "show_channel FrontRight = ''FR''"
| "show_channel Center = ''C''"
| "show_channel Lfe = ''LFE''"
| "show_channel SurroundLeft = ''SL''"
| "show_channel SurroundRight = ''SR''"
| "show_channel BackLeft = ''BL''"
| "show_channel BackRight = ''BR''"

type_synonym channel_routing = "(channel \<times> nat) list"

definition stereo :: channel_routing where
  "stereo = [(FrontLeft, 0), (FrontRight, 1)]"

definition surround_5_1 :: channel_routing where
  "surround_5_1 = [(FrontLeft, 0), (FrontRight, 1), (Center, 2), (Lfe, 3), (SurroundLeft, 4),
     (SurroundRight, 5)]"

definition surround_7_1 :: channel_routing where
  "surround_7_1 = [(FrontLeft, 0), (FrontRight, 1), (Center, 2), (Lfe, 3), (SurroundLeft, 4),
     (SurroundRight, 5), (BackLeft, 6), (BackRight, 7)]"

definition channel_count :: "channel_routing \<Rightarrow> nat" where
  "channel_count r = length r"

subsection \<open>Devices\<close>

record device_capabilities =
  min_buffer_size :: "32 word option"
  max_buffer_size :: "32 word option"
  supported_formats :: "sample_format list"
  exclusive_mode :: bool

record device_info =
  dev_name :: rstring
  is_default :: bool
  sample_rates :: "32 word list"
  channel_counts :: "16 word list"
  is_input :: bool
  is_output :: bool
  capabilities :: "device_capabilities option"

definition show_device_info :: "device_info \<Rightarrow> rstring" where
  "show_device_info d =
     dev_name d @ str_lit (if is_default d then '' [default]'' else '''')
       @ str_lit (case (is_input d, is_output d) of
           (True, True) \<Rightarrow> '' [in+out]''
         | (True, False) \<Rightarrow> '' [in]''
         | (False, True) \<Rightarrow> '' [out]''
         | (False, False) \<Rightarrow> '''')"

definition device_info_default :: device_info where
  "device_info_default = \<lparr>dev_name = [], is_default = False, sample_rates = [], channel_counts = [],
     is_input = False, is_output = False, capabilities = None\<rparr>"

text \<open>\<open>DeviceInfo::builder\<close> and the setters of \<open>DeviceInfoBuilder\<close>.\<close>

definition device_builder :: "rstring \<Rightarrow> device_info" where
  "device_builder nm = device_info_default\<lparr>dev_name := nm\<rparr>"

definition default_device :: "device_info \<Rightarrow> device_info" where
  "default_device d = d\<lparr>is_default := True\<rparr>"

definition set_input :: "bool \<Rightarrow> device_info \<Rightarrow> device_info" where
  "set_input v d = d\<lparr>is_input := v\<rparr>"

definition set_output :: "bool \<Rightarrow> device_info \<Rightarrow> device_info" where
  "set_output v d = d\<lparr>is_output := v\<rparr>"

definition set_sample_rates :: "32 word list \<Rightarrow> device_info \<Rightarrow> device_info" where
  "set_sample_rates rates d = d\<lparr>sample_rates := rates\<rparr>"

definition set_channel_counts :: "16 word list \<Rightarrow> device_info \<Rightarrow> device_info" where
  "set_channel_counts counts d = d\<lparr>channel_counts := counts\<rparr>"

definition set_capabilities :: "device_capabilities \<Rightarrow> device_info \<Rightarrow> device_info" where
  "set_capabilities caps d = d\<lparr>capabilities := Some caps\<rparr>"

definition build_device :: "device_info \<Rightarrow> device_info" where
  "build_device d = d"

subsection \<open>Stream configurations\<close>

record stream_config =
  sample_rate :: "32 word"
  channels :: "16 word"
  buffer_size :: "32 word option"
  sample_format_opt :: "sample_format option"
  exclusive :: bool
  preferred_formats :: "sample_format list"
  routing_opt :: "channel_routing option"
  buffer_capacity_secs :: "f32 option"

definition STEREO_48K :: stream_config where
  "STEREO_48K = \<lparr>sample_rate = 48000, channels = 2, buffer_size = None, sample_format_opt = None,
     exclusive = False, preferred_formats = [], routing_opt = None, buffer_capacity_secs = None\<rparr>"

definition STEREO_44K :: stream_config where
  "STEREO_44K = \<lparr>sample_rate = 44100, channels = 2, buffer_size = None, sample_format_opt = None,
     exclusive = False, preferred_formats = [], routing_opt = None, buffer_capacity_secs = None\<rparr>"

definition MONO_16K :: stream_config where
  "MONO_16K = \<lparr>sample_rate = 16000, channels = 1, buffer_size = None, sample_format_opt = None,
     exclusive = False, preferred_formats = [], routing_opt = None, buffer_capacity_secs = None\<rparr>"

definition stereo_48k :: stream_config where
  "stereo_48k = \<lparr>sample_rate = 48000, channels = 2, buffer_size = None, sample_format_opt = None,
     exclusive = False, preferred_formats = [], routing_opt = None, buffer_capacity_secs = None\<rparr>"

definition stereo_44k :: stream_config where
  "stereo_44k = \<lparr>sample_rate = 44100, channels = 2, buffer_size = None, sample_format_opt = None,
     exclusive = False, preferred_formats = [], routing_opt = None, buffer_capacity_secs = None\<rparr>"

definition mono_16k :: stream_config where
  "mono_16k = \<lparr>sample_rate = 16000, channels = 1, buffer_size = None, sample_format_opt = None,
     exclusive = False, preferred_formats = [], routing_opt = None, buffer_capacity_secs = None\<rparr>"

definition low_latency_stereo_48k :: stream_config where
  "low_latency_stereo_48k = \<lparr>sample_rate = 48000, channels = 2, buffer_size = Some 256,
     sample_format_opt = None, exclusive = False, preferred_formats = [], routing_opt = None,
     buffer_capacity_secs = None\<rparr>"

text \<open>\<open>StreamConfig::builder\<close> and the setters of \<open>StreamConfigBuilder\<close>.\<close>

definition config_builder :: stream_config where
  "config_builder = \<lparr>sample_rate = 44100, channels = 2, buffer_size = None, sample_format_opt = None,
     exclusive = False, preferred_formats = [], routing_opt = None, buffer_capacity_secs = None\<rparr>"

definition set_sample_rate :: "32 word \<Rightarrow> stream_config \<Rightarrow> stream_config" where
  "set_sample_rate rate c = c\<lparr>sample_rate := rate\<rparr>"

definition set_channels :: "16 word \<Rightarrow> stream_config \<Rightarrow> stream_config" where
  "set_channels ch c = c\<lparr>channels := ch\<rparr>"

definition set_buffer_size :: "32 word \<Rightarrow> stream_config \<Rightarrow> stream_config" where
  "set_buffer_size sz c = c\<lparr>buffer_size := Some sz\<rparr>"

definition set_sample_format :: "sample_format \<Rightarrow> stream_config \<Rightarrow> stream_config" where
  "set_sample_format fmt c = c\<lparr>sample_format_opt := Some fmt\<rparr>"

definition set_exclusive :: "stream_config \<Rightarrow> stream_config" where
  "set_exclusive c = c\<lparr>exclusive := True\<rparr>"

definition set_preferred_formats :: "sample_format list \<Rightarrow> stream_config \<Rightarrow> stream_config" where
  "set_preferred_formats fmts c = c\<lparr>preferred_formats := fmts\<rparr>"

definition set_channel_routing :: "channel_routing \<Rightarrow> stream_config \<Rightarrow> stream_config" where
  "set_channel_routing r c = c\<lparr>routing_opt := Some r\<rparr>"

definition set_buffer_capacity_secs :: "f32 \<Rightarrow> stream_config \<Rightarrow> stream_config" where
  "set_buffer_capacity_secs secs c = c\<lparr>buffer_capacity_secs := Some secs\<rparr>"

definition build_config :: "stream_config \<Rightarrow> stream_config" where
  "build_config c = c"

record negotiated_config =
  n_sample_rate :: "32 word"
  n_channels :: "16 word"
  n_buffer_size :: "32 word"
  n_sample_format :: sample_format

subsection \<open>Errors\<close>

text \<open>
  A message is the list of the pieces that \<open>format!\<close> puts together: literal text, numbers,
  lists of numbers and strings. The numbers are not rendered.
\<close>

datatype msg_part = Lit string | Num nat | Nums "nat list" | Str rstring

type_synonym msg = "msg_part list"

datatype oxi_error =
    NoDevice
  | Device msg
  | Stream msg
  | UnsupportedConfig msg
  | Disconnected msg
  | Overrun msg
  | Underrun msg
  | HotPlugError msg
  | PermissionDenied msg
  | Timeout msg
  | FormatMismatch msg
  | Io msg
  | Unsupported msg

fun kind :: "oxi_error \<Rightarrow> string" where
  "kind (Io _) = ''io''"
| "kind NoDevice = ''no-device''"
| "kind (Device _) = ''device''"
| "kind (Stream _) = ''stream''"
| "kind (UnsupportedConfig _) = ''unsupported-config''"
| "kind (Disconnected _) = ''disconnected''"
| "kind (Overrun _) = ''overrun''"
| "kind (Underrun _) = ''underrun''"
| "kind (HotPlugError _) = ''hot-plug-error''"
| "kind (PermissionDenied _) = ''permission-denied''"
| "kind (Timeout _) = ''timeout''"
| "kind (FormatMismatch _) = ''format-mismatch''"
| "kind (Unsupported _) = ''unsupported''"

subsection \<open>Validation\<close>

text \<open>\<open>iter().copied().min().unwrap_or(d)\<close> and its counterpart for the maximum.\<close>

fun min_or :: "'a::linorder \<Rightarrow> 'a list \<Rightarrow> 'a" where
  "min_or d [] = d"
| "min_or d (x # xs) = fold min xs x"

fun max_or :: "'a::linorder \<Rightarrow> 'a list \<Rightarrow> 'a" where
  "max_or d [] = d"
| "max_or d (x # xs) = fold max xs x"

definition supports_config :: "device_info \<Rightarrow> stream_config \<Rightarrow> bool" where
  "supports_config info config =
     (if channel_counts info \<noteq> [] \<and> channels config \<notin> set (channel_counts info) then False
      else if sample_rates info \<noteq> [] then
        (let lo = min_or 0 (sample_rates info); hi = max_or (- 1) (sample_rates info)
         in if sample_rate config < lo \<or> sample_rate config > hi then False else True)
      else True)"

definition validate :: "stream_config \<Rightarrow> device_info \<Rightarrow> (unit, oxi_error) result" where
  "validate config info =
     (if channel_counts info \<noteq> [] \<and> channels config \<notin> set (channel_counts info)
      then Err (UnsupportedConfig [Lit ''channel count '', Num (unat (channels config)),
             Lit '' not supported; device supports: '', Nums (map unat (channel_counts info))])
      else if sample_rates info \<noteq> [] then
        (let lo = min_or 0 (sample_rates info); hi = max_or (- 1) (sample_rates info)
         in if sample_rate config < lo \<or> sample_rate config > hi
            then Err (UnsupportedConfig [Lit ''sample rate '', Num (unat (sample_rate config)),
                   Lit '' Hz not supported; device range: '', Num (unat lo), Str [0xE2, 0x80, 0x93], Num (unat hi),
                   Lit '' Hz''])
            else Ok ())
      else Ok ())"

subsection \<open>Host APIs, statistics, events\<close>

datatype host_api = CoreAudio | Wasapi | Asio | Alsa | Jack | PipeWire | PulseAudio

fun show_host_api :: "host_api \<Rightarrow> string" where
  "show_host_api CoreAudio = ''Core Audio''"
| "show_host_api Wasapi = ''WASAPI''"
| "show_host_api Asio = ''ASIO''"
| "show_host_api Alsa = ''ALSA''"
| "show_host_api Jack = ''JACK''"
| "show_host_api PipeWire = ''PipeWire''"
| "show_host_api PulseAudio = ''PulseAudio''"

text \<open>The operating systems that the \<open>cfg!(target_os)\<close> tests distinguish.\<close>

datatype target_os = MacOs | Ios | Windows | Linux | Bsd | OtherOs

fun is_available :: "target_os \<Rightarrow> host_api \<Rightarrow> bool" where
  "is_available os CoreAudio = (os = MacOs \<or> os = Ios)"
| "is_available os Wasapi = (os = Windows)"
| "is_available os Alsa = (os = Linux)"
| "is_available os Jack = False"
| "is_available os Asio = False"
| "is_available os PulseAudio = (os = Linux)"
| "is_available os PipeWire = (os = Linux)"

record stream_stats =
  frames_processed :: "64 word"
  underruns :: "64 word"
  overruns :: "64 word"
  latency_frames :: "32 word"
  cpu_load_percent :: f32

datatype callback_priority = Normal | Realtime

datatype device_event =
    DeviceAdded device_info
  | DeviceRemoved rstring
  | DefaultChanged device_info

fun show_device_event :: "device_event \<Rightarrow> rstring" where
  "show_device_event (DeviceAdded d) = str_lit ''device added: '' @ dev_name d"
| "show_device_event (DeviceRemoved nm) = str_lit ''device removed: '' @ nm"
| "show_device_event (DefaultChanged d) = str_lit ''default changed: '' @ dev_name d"

datatype session_category = Playback | Record | PlayAndRecord | Ambient | SoloAmbient

datatype session_interruption = Began | Ended (should_resume: bool)

record midi_device_info =
  port_name :: rstring
  midi_is_input :: bool
  midi_is_output :: bool
  port_count :: nat

subsection \<open>Lemmas\<close>

lemma fold_min_Min: "fold min xs x = Min (insert x (set xs))"
  by (metis List.finite_set Min.set_eq_fold list.simps(15))

lemma fold_max_Max: "fold max xs x = Max (insert x (set xs))"
  by (metis List.finite_set Max.set_eq_fold list.simps(15))

lemma min_or_Min: "xs \<noteq> [] \<Longrightarrow> min_or d xs = Min (set xs)"
  by (cases xs) (simp_all add: fold_min_Min)

lemma max_or_Max: "xs \<noteq> [] \<Longrightarrow> max_or d xs = Max (set xs)"
  by (cases xs) (simp_all add: fold_max_Max)

lemma validate_cases: "validate c i = Ok () \<or> (\<exists>m. validate c i = Err (UnsupportedConfig m))"
  by (auto simp: validate_def Let_def)

lemma supports_config_iff:
  "supports_config info c \<longleftrightarrow>
     (channel_counts info = [] \<or> channels c \<in> set (channel_counts info)) \<and>
     (sample_rates info = [] \<or> (\<exists>lo hi. lo \<in> set (sample_rates info) \<and> hi \<in> set (sample_rates info)
        \<and> lo \<le> sample_rate c \<and> sample_rate c \<le> hi))"
proof (cases "sample_rates info = []")
  case True
  then show ?thesis by (auto simp: supports_config_def)
next
  case False
  then have "Min (set (sample_rates info)) \<le> sample_rate c \<and> sample_rate c \<le> Max (set (sample_rates info))
      \<longleftrightarrow> (\<exists>lo hi. lo \<in> set (sample_rates info) \<and> hi \<in> set (sample_rates info)
        \<and> lo \<le> sample_rate c \<and> sample_rate c \<le> hi)"
    by (auto simp: Min_le_iff Max_ge_iff)
  with False show ?thesis
    by (simp add: supports_config_def min_or_Min max_or_Max Let_def not_less [symmetric])
qed

subsection \<open>Properties\<close>

text \<open>
  A device accepts a configuration exactly when its channel list is unknown or names the
  channel count, and its list of rates is unknown or two of its rates enclose the requested
  one; \<open>validate\<close> succeeds in exactly these cases and otherwise says \<open>UnsupportedConfig\<close>.
\<close>

lemma validate_agrees_with_supports:
  "(validate c info = Ok () \<longleftrightarrow> supports_config info c) \<and>
   (supports_config info c \<longleftrightarrow>
     (channel_counts info = [] \<or> channels c \<in> set (channel_counts info)) \<and>
     (sample_rates info = [] \<or> (\<exists>lo hi. lo \<in> set (sample_rates info) \<and> hi \<in> set (sample_rates info)
        \<and> lo \<le> sample_rate c \<and> sample_rate c \<le> hi))) \<and>
   (validate c info = Ok () \<or> (\<exists>m. validate c info = Err (UnsupportedConfig m)))"
proof (intro conjI)
  show "validate c info = Ok () \<longleftrightarrow> supports_config info c"
    by (simp add: validate_def supports_config_def Let_def)
qed (rule supports_config_iff validate_cases)+

text \<open>
  The format picked for a stream is the first of the preferred formats that the device
  supports, else the device's first format; there is none only if the device has none.
\<close>

lemma pick_preferred_format_spec:
  "pick_preferred_format preferred supported =
     (case filter (\<lambda>f. f \<in> set supported) preferred of
        f # _ \<Rightarrow> Some f
      | [] \<Rightarrow> (case supported of f # _ \<Rightarrow> Some f | [] \<Rightarrow> None))"
  by (induction preferred) (auto split: list.splits)

end
