(* ===== verification/Core_Routing.thy ===== *)
theory Core_Routing
  imports Core_Types
begin

text \<open>
  Channel routing of an interleaved buffer (\<open>ChannelRouting::apply_interleaved\<close> of
  \<open>crates/oxisound-core/src/lib.rs\<close>): the loop over the frames with its in-place copy, and
  what each sample of the result is.
\<close>

text \<open>One frame: the scratch buffer starts as the frame itself.\<close>

fun route_sample :: "nat \<Rightarrow> 'a list \<Rightarrow> channel \<times> nat \<Rightarrow> 'a list \<Rightarrow> 'a list" where
  "route_sample ch frame (logical, physical) scratch =
     (let src = standard_index logical in
      if src < ch \<and> physical < ch then scratch[physical := frame ! src] else scratch)"

definition route_frame :: "channel_routing \<Rightarrow> nat \<Rightarrow> 'a list \<Rightarrow> 'a list" where
  "route_frame r ch frame = fold (route_sample ch frame) r frame"

definition route_step :: "channel_routing \<Rightarrow> nat \<Rightarrow> nat \<Rightarrow> 'a list \<Rightarrow> 'a list" where
  "route_step r ch frame_idx buf =
     (let base = frame_idx * ch;
          frame = take ch (drop base buf)
      in take base buf @ route_frame r ch frame @ drop (base + ch) buf)"

definition apply_interleaved :: "channel_routing \<Rightarrow> 'a list \<Rightarrow> nat \<Rightarrow> 'a list" where
  "apply_interleaved r buf ch =
     (if ch = 0 \<or> r = [] then buf
      else fold (route_step r ch) [0..<length buf div ch] buf)"

subsection \<open>What a frame becomes\<close>

text \<open>
  The logical channel that a physical slot plays: that of the last mapping to the slot whose
  two indices are inside the frame.
\<close>

definition source_of :: "channel_routing \<Rightarrow> nat \<Rightarrow> nat \<Rightarrow> nat" where
  "source_of r ch p =
     (case filter (\<lambda>(logical, physical). standard_index logical < ch \<and> physical = p) (rev r) of
        [] \<Rightarrow> p
      | m # _ \<Rightarrow> standard_index (fst m))"

lemma source_of_Nil [simp]: "source_of [] ch p = p"
  by (simp add: source_of_def)

lemma source_of_snoc [simp]:
  "source_of (r @ [(logical, physical)]) ch p =
     (if standard_index logical < ch \<and> physical = p then standard_index logical else source_of r ch p)"
  by (simp add: source_of_def)

lemma source_of_less: "p < ch \<Longrightarrow> source_of r ch p < ch"
  by (induction r rule: rev_induct) (auto split: prod.splits)

lemma length_route_frame [simp]: "length (route_frame r ch frame) = length frame"
proof -
  have "length (fold (route_sample ch frame) r acc) = length acc" for acc
    by (induction r arbitrary: acc) (auto simp: Let_def)
  then show ?thesis by (simp add: route_frame_def)
qed

lemma nth_route_frame:
  assumes "length frame = ch" and "p < ch"
  shows "route_frame r ch frame ! p = frame ! source_of r ch p"
proof (induction r rule: rev_induct)
  case Nil
  then show ?case by (simp add: route_frame_def)
next
  case (snoc m r)
  obtain l q where m: "m = (l, q)" by (cases m)
  have "route_frame (r @ [m]) ch frame = route_sample ch frame m (route_frame r ch frame)"
    by (simp add: route_frame_def)
  with snoc assms show ?case by (auto simp: m Let_def nth_list_update)
qed

subsection \<open>What the buffer becomes\<close>

lemma frame_bounds:
  assumes "fi < n div (ch :: nat)"
  shows "fi * ch + ch \<le> n"
proof -
  have "fi * ch + ch = Suc fi * ch" by simp
  also have "\<dots> \<le> n div ch * ch" using assms by (intro mult_right_mono) simp_all
  also have "\<dots> \<le> n" by simp
  finally show ?thesis .
qed

lemma length_route_step [simp]:
  "fi < length buf div ch \<Longrightarrow> length (route_step r ch fi buf) = length buf"
  using frame_bounds [of fi "length buf" ch] by (simp add: route_step_def Let_def)

lemma nth_route_step:
  assumes "fi < length buf div ch" and "i < length buf" and "0 < ch"
  shows "route_step r ch fi buf ! i =
     (if i div ch = fi then buf ! (fi * ch + source_of r ch (i mod ch)) else buf ! i)"
proof -
  note b = frame_bounds [OF assms(1)]
  let ?f = "take ch (drop (fi * ch) buf)"
  have len: "length ?f = ch" using b by simp
  have cases: "i div ch = fi \<longleftrightarrow> fi * ch \<le> i \<and> i < fi * ch + ch"
  proof
    assume "i div ch = fi"
    then have "i = fi * ch + i mod ch" by (metis div_mult_mod_eq)
    moreover have "i mod ch < ch" using assms(3) by simp
    ultimately show "fi * ch \<le> i \<and> i < fi * ch + ch" by linarith
  next
    assume "fi * ch \<le> i \<and> i < fi * ch + ch"
    then show "i div ch = fi" by (intro div_nat_eqI) (simp_all add: mult.commute)
  qed
  show ?thesis
  proof (cases "i div ch = fi")
    case True
    have i: "i = fi * ch + i mod ch" using True by (metis div_mult_mod_eq)
    have m: "i mod ch < ch" using assms(3) by simp
    have "route_step r ch fi buf ! (fi * ch + i mod ch) = route_frame r ch ?f ! (i mod ch)"
      using b m by (simp add: route_step_def Let_def nth_append)
    also have "\<dots> = buf ! (fi * ch + source_of r ch (i mod ch))"
      using nth_route_frame [OF len m, of r] source_of_less [OF m, of r] b by simp
    finally show ?thesis using i True by simp
  next
    case False
    with cases have "i < fi * ch \<or> fi * ch + ch \<le> i" by auto
    then show ?thesis
      using b False assms(2) by (auto simp: route_step_def Let_def nth_append)
  qed
qed

lemma fold_route_steps:
  assumes "n \<le> length buf div ch" and "0 < ch"
  shows "length (fold (route_step r ch) [0..<n] buf) = length buf \<and>
    (\<forall>i < length buf. fold (route_step r ch) [0..<n] buf ! i =
       (if i div ch < n then buf ! (i div ch * ch + source_of r ch (i mod ch)) else buf ! i))"
  using assms(1)
proof (induction n)
  case 0
  then show ?case by simp
next
  case (Suc n)
  let ?b = "fold (route_step r ch) [0..<n] buf"
  have IH: "length ?b = length buf"
    "\<And>i. i < length buf \<Longrightarrow> ?b ! i =
       (if i div ch < n then buf ! (i div ch * ch + source_of r ch (i mod ch)) else buf ! i)"
    using Suc by auto
  have n: "n < length ?b div ch" using Suc.prems IH(1) by simp
  have src: "?b ! (n * ch + source_of r ch (i mod ch)) = buf ! (n * ch + source_of r ch (i mod ch))" for i
  proof -
    have s: "source_of r ch (i mod ch) < ch" using assms(2) by (intro source_of_less) simp
    then have "n * ch + source_of r ch (i mod ch) < length buf"
      using frame_bounds [OF n] IH(1) by linarith
    moreover have "(n * ch + source_of r ch (i mod ch)) div ch = n" using s by simp
    ultimately show ?thesis using IH(2) by simp
  qed
  have "route_step r ch n ?b ! i =
      (if i div ch < Suc n then buf ! (i div ch * ch + source_of r ch (i mod ch)) else buf ! i)"
    if "i < length buf" for i
    using nth_route_step [OF n, of i] that IH src assms(2) by auto
  with n IH(1) show ?case by simp
qed

subsection \<open>Properties\<close>



end
