(* ===== verification/Core_Select.thy ===== *)
theory Core_Select
  imports Core_Types
begin

text \<open>
  Device selection strategies (the \<open>DeviceSelector\<close> trait of
  \<open>crates/oxisound-core/src/lib.rs\<close>). The trait is a locale: a selector returns an index into
  the list it was given. The three implementations of the code are its interpretations.
\<close>

subsection \<open>The interface\<close>

locale device_selector =
  fixes select :: "device_info list \<Rightarrow> nat option"
  assumes in_range: "select ds = Some i \<Longrightarrow> i < length ds"
begin

text \<open>What a backend does with a selector: it takes the device at the index.\<close>

lemma select_Nil: "select [] = None"
  using in_range [of "[]"] by (cases "select []") auto

lemma selected_in_set: "select ds = Some i \<Longrightarrow> get ds i = Some (ds ! i) \<and> ds ! i \<in> set ds"
  using in_range by (auto simp: get_def)

end

text \<open>Selectors that fail only when there is no device at all.\<close>

locale total_selector = device_selector +
  assumes total: "ds \<noteq> [] \<Longrightarrow> select ds \<noteq> None"
begin

lemma select_None_iff: "select ds = None \<longleftrightarrow> ds = []"
  using total [of ds] select_Nil by blast

end

subsection \<open>The implementations\<close>

definition default_select :: "device_info list \<Rightarrow> nat option" where
  "default_select ds =
     (if ds = [] then None
      else case position is_default ds of Some i \<Rightarrow> Some i | None \<Rightarrow> Some 0)"

definition latency_select :: "device_info list \<Rightarrow> nat option" where
  "latency_select ds = (if ds = [] then None else Some 0)"

text \<open>\<open>str::contains\<close>, on the bytes of the two strings.\<close>

fun contains :: "'a list \<Rightarrow> 'a list \<Rightarrow> bool" where
  "contains [] pat = (pat = [])"
| "contains (x # xs) pat = (take (length pat) (x # xs) = pat \<or> contains xs pat)"

text \<open>
  \<open>str::to_lowercase\<close> follows the Unicode tables; the table is an argument of the selector.
  \<open>ascii_lower\<close> is what it does to ASCII text.
\<close>

definition name_match_select :: "(rstring \<Rightarrow> rstring) \<Rightarrow> rstring \<Rightarrow> device_info list \<Rightarrow> nat option" where
  "name_match_select lower fragment ds =
     (let frag = lower fragment in position (\<lambda>d. contains (lower (dev_name d)) frag) ds)"

definition ascii_lower :: "rstring \<Rightarrow> rstring" where
  "ascii_lower s = map (\<lambda>b. if 0x41 \<le> b \<and> b \<le> 0x5A then b + 0x20 else b) s"

interpretation default: total_selector default_select
  by unfold_locales (auto simp: default_select_def dest: position_less split: if_splits option.splits)

interpretation latency: total_selector latency_select
  by unfold_locales (auto simp: latency_select_def split: if_splits)

interpretation name_match: device_selector "name_match_select lower fragment" for lower fragment
  by unfold_locales (auto simp: name_match_select_def Let_def dest: position_less)

lemma contains_iff: "contains xs pat \<longleftrightarrow> (\<exists>pre post. xs = pre @ pat @ post)"
proof (induction xs)
  case Nil
  then show ?case by auto
next
  case (Cons x xs)
  have "take (length pat) (x # xs) = pat \<longleftrightarrow> (\<exists>post. x # xs = pat @ post)"
    by (metis append_eq_conv_conj append_take_drop_id)
  then show ?case
    using Cons by (auto simp: Cons_eq_append_conv)
qed

subsection \<open>Properties\<close>

text \<open>
  The default selector fails only on an empty list; otherwise it returns the first device
  marked as default, or the first device when none is marked.
\<close>

lemma default_select_spec:
  "(default_select ds = None \<longleftrightarrow> ds = []) \<and>
   default_select ds =
     (if ds = [] then None
      else Some (case position is_default ds of Some i \<Rightarrow> i | None \<Rightarrow> 0)) \<and>
   (case position is_default ds of
      Some i \<Rightarrow> i < length ds \<and> is_default (ds ! i) \<and> list_all (\<lambda>d. \<not> is_default d) (take i ds)
    | None \<Rightarrow> list_all (\<lambda>d. \<not> is_default d) ds)"
proof (intro conjI)
  show "default_select ds = None \<longleftrightarrow> ds = []"
    by (rule default.select_None_iff)
  show "default_select ds = (if ds = [] then None
      else Some (case position is_default ds of Some i \<Rightarrow> i | None \<Rightarrow> 0))"
    by (auto simp: default_select_def split: option.splits)
qed (rule position_spec)

text \<open>
  A device selected by name is the first one whose lower-cased name has the lower-cased
  fragment as a contiguous part, whatever the lower-casing does; no device is selected only
  when no name has it.
\<close>

lemma name_match_spec:
  "case name_match_select lower fragment ds of
     Some i \<Rightarrow> i < length ds \<and> (\<exists>pre post. lower (dev_name (ds ! i)) = pre @ lower fragment @ post)
       \<and> list_all (\<lambda>d. \<not> contains (lower (dev_name d)) (lower fragment)) (take i ds)
   | None \<Rightarrow> list_all (\<lambda>d. \<not> contains (lower (dev_name d)) (lower fragment)) ds"
  using position_spec [of "\<lambda>d. contains (lower (dev_name d)) (lower fragment)" ds]
  by (simp add: name_match_select_def contains_iff split: option.splits)

end
