(* ===== verification/Ring.thy ===== *)
theory Ring
  imports Prelude
begin

text \<open>
  The lock-free queue between an application thread and an audio callback. It comes from the
  crate \<open>ringbuf\<close>, which is not part of the repository, so its operations are an argument of
  every definition that uses them: the record \<open>ring_ops\<close>. What the code relies on is the
  locale \<open>ring\<close>: a queue of a fixed capacity that rejects what does not fit. The loops of the
  callbacks over such a queue are defined here, with what they do under these laws.
\<close>

subsection \<open>The interface\<close>

text \<open>
  \<open>try_push\<close> returns \<open>None\<close> for a full queue, \<open>try_pop\<close> for an empty one. The slice operations
  move as many elements as fit; \<open>push_slice\<close> returns how many, \<open>pop_slice n\<close> the elements, and
  \<open>skip_front n\<close> (\<open>Consumer::skip\<close>) drops elements and returns how many.
\<close>

record ('r, 'a) ring_ops =
  new_ring :: "nat \<Rightarrow> 'r"
  try_push :: "'a \<Rightarrow> 'r \<Rightarrow> 'r option"
  try_pop :: "'r \<Rightarrow> ('a \<times> 'r) option"
  push_slice :: "'a list \<Rightarrow> 'r \<Rightarrow> nat \<times> 'r"
  pop_slice :: "nat \<Rightarrow> 'r \<Rightarrow> 'a list \<times> 'r"
  skip_front :: "nat \<Rightarrow> 'r \<Rightarrow> nat \<times> 'r"
  occupied_len :: "'r \<Rightarrow> nat"
  vacant_len :: "'r \<Rightarrow> nat"

text \<open>Push the elements one by one; the elements that do not fit are dropped and counted.\<close>

fun offer_all :: "('r, 'a) ring_ops \<Rightarrow> 'a list \<Rightarrow> 'r \<Rightarrow> 'r \<times> nat" where
  "offer_all R [] r = (r, 0)"
| "offer_all R (x # xs) r =
     (case try_push R x r of
        Some r' \<Rightarrow> offer_all R xs r'
      | None \<Rightarrow> (let (r', k) = offer_all R xs r in (r', Suc k)))"

text \<open>Fill \<open>n\<close> slots from the queue; a slot for which there is nothing gets \<open>d\<close> and is counted.\<close>

fun take_each :: "('r, 'a) ring_ops \<Rightarrow> 'a \<Rightarrow> nat \<Rightarrow> 'r \<Rightarrow> 'a list \<times> nat \<times> 'r" where
  "take_each R d 0 r = ([], 0, r)"
| "take_each R d (Suc n) r =
     (case try_pop R r of
        Some (x, r') \<Rightarrow> (let (xs, k, r'') = take_each R d n r' in (x # xs, k, r''))
      | None \<Rightarrow> (let (xs, k, r'') = take_each R d n r in (d # xs, Suc k, r'')))"

text \<open>Take up to \<open>n\<close> elements and stop at the first empty answer.\<close>

fun take_some :: "('r, 'a) ring_ops \<Rightarrow> nat \<Rightarrow> 'r \<Rightarrow> 'a list \<times> 'r" where
  "take_some R 0 r = ([], r)"
| "take_some R (Suc n) r =
     (case try_pop R r of
        Some (x, r') \<Rightarrow> (let (xs, r'') = take_some R n r' in (x # xs, r''))
      | None \<Rightarrow> ([], r))"

text \<open>\<open>HeapRb::new\<close> for \<open>n\<close> elements of \<open>sz\<close> bytes: it panics without elements and beyond \<open>isize::MAX\<close> bytes.\<close>

definition heap_rb :: "('r, 'a) ring_ops \<Rightarrow> nat \<Rightarrow> nat \<Rightarrow> nat \<Rightarrow> ('r, 'e) result" where
  "heap_rb R um sz n = (if 0 < n \<and> sz * n \<le> um div 2 then Ok (new_ring R n) else Panic)"

lemma heap_rb_eq_Ok [simp]: "heap_rb R um sz n = Ok r \<longleftrightarrow> 0 < n \<and> sz * n \<le> um div 2 \<and> r = new_ring R n"
  by (auto simp: heap_rb_def)

lemma heap_rb_not_Err [simp]: "heap_rb R um sz n \<noteq> Err e"
  by (simp add: heap_rb_def)

lemma heap_rb_eq_Panic: "heap_rb R um sz n = Panic \<longleftrightarrow> n = 0 \<or> um div 2 < sz * n"
  by (auto simp: heap_rb_def)

text \<open>What a consumer that needs \<open>n\<close> elements finds in a queue: \<open>None\<close> only when the queue has run out.\<close>

definition due :: "nat \<Rightarrow> 'a list \<Rightarrow> 'a option list" where
  "due n q = map Some (take n q) @ replicate (n - length q) None"

lemma length_due [simp]: "length (due n q) = n"
  by (simp add: due_def min_def)

lemma due_missing: "length (filter (\<lambda>x. x = None) (due n q)) = n - length q"
  by (simp add: due_def o_def filter_map)

lemma due_found: "map the (filter (\<lambda>x. x \<noteq> None) (due n q)) = take n q"
  by (simp add: due_def o_def filter_map)

locale ring =
  fixes R :: "('r, 'a) ring_ops"
    and contents :: "'r \<Rightarrow> 'a list"
    and cap :: "'r \<Rightarrow> nat"
  assumes new_spec: "contents (new_ring R n) = [] \<and> cap (new_ring R n) = n"
    and push_spec: "case try_push R x r of
          None \<Rightarrow> cap r \<le> length (contents r)
        | Some r' \<Rightarrow> length (contents r) < cap r \<and> contents r' = contents r @ [x] \<and> cap r' = cap r"
    and pop_spec: "case try_pop R r of
          None \<Rightarrow> contents r = []
        | Some (x, r') \<Rightarrow> contents r = x # contents r' \<and> cap r' = cap r"
    and push_slice_spec: "case push_slice R xs r of (n, r') \<Rightarrow>
          n = min (length xs) (cap r - length (contents r)) \<and>
          contents r' = contents r @ take n xs \<and> cap r' = cap r"
    and pop_slice_spec: "case pop_slice R n r of (xs, r') \<Rightarrow>
          xs = take n (contents r) \<and> contents r' = drop n (contents r) \<and> cap r' = cap r"
    and skip_spec: "case skip_front R n r of (k, r') \<Rightarrow>
          k = min n (length (contents r)) \<and> contents r' = drop n (contents r) \<and> cap r' = cap r"
    and occupied_spec: "occupied_len R r = length (contents r)"
    and vacant_spec: "vacant_len R r = cap r - length (contents r)"
begin

abbreviation room :: "'r \<Rightarrow> nat" where "room r \<equiv> cap r - length (contents r)"

lemma push_None: "try_push R x r = None \<longleftrightarrow> room r = 0"
  using push_spec [of r x] by (auto split: option.splits)

lemma push_Some:
  "try_push R x r = Some r' \<Longrightarrow>
     0 < room r \<and> contents r' = contents r @ [x] \<and> cap r' = cap r"
  using push_spec [of r x] by auto

lemma pop_None: "try_pop R r = None \<longleftrightarrow> contents r = []"
  using pop_spec [of r] by (auto split: option.splits)

lemma pop_Some: "try_pop R r = Some (x, r') \<Longrightarrow> contents r = x # contents r' \<and> cap r' = cap r"
  using pop_spec [of r] by auto

lemma offer_all_spec:
  "offer_all R xs r = (r', k) \<Longrightarrow>
     contents r' = contents r @ take (room r) xs \<and> cap r' = cap r \<and> k = length xs - room r"
proof (induction xs arbitrary: r r' k)
  case Nil
  then show ?case by simp
next
  case (Cons x xs)
  show ?case
  proof (cases "try_push R x r")
    case None
    then have "room r = 0" by (simp only: push_None)
    with None Cons.IH [of r] Cons.prems show ?thesis by (auto split: prod.splits)
  next
    case (Some s)
    note s = push_Some [OF Some]
    then have "room r = Suc (room s)" by auto
    with Some s Cons.IH [of s] Cons.prems show ?thesis by simp
  qed
qed

lemma take_each_spec:
  "take_each R d n r = (xs, k, r') \<Longrightarrow>
     xs = take n (contents r) @ replicate (n - length (contents r)) d \<and>
     k = n - length (contents r) \<and> contents r' = drop n (contents r) \<and> cap r' = cap r"
proof (induction n arbitrary: r xs k r')
  case 0
  then show ?case by simp
next
  case (Suc n)
  show ?case
  proof (cases "try_pop R r")
    case None
    then have "contents r = []" by (simp only: pop_None)
    with None Suc.IH [of r] Suc.prems show ?thesis by (auto split: prod.splits)
  next
    case (Some p)
    then obtain y s where p: "try_pop R r = Some (y, s)" by (cases p) auto
    note s = pop_Some [OF p]
    with p Suc.IH [of s] Suc.prems show ?thesis by (auto split: prod.splits)
  qed
qed

lemma take_some_spec:
  "take_some R n r = (xs, r') \<Longrightarrow>
     xs = take n (contents r) \<and> contents r' = drop n (contents r) \<and> cap r' = cap r"
proof (induction n arbitrary: r xs r')
  case 0
  then show ?case by simp
next
  case (Suc n)
  show ?case
  proof (cases "try_pop R r")
    case None
    then have "contents r = []" by (simp only: pop_None)
    with None Suc.prems show ?thesis by auto
  next
    case (Some p)
    then obtain y s where p: "try_pop R r = Some (y, s)" by (cases p) auto
    note s = pop_Some [OF p]
    with p Suc.IH [of s] Suc.prems show ?thesis by (auto split: prod.splits)
  qed
qed

end

subsection \<open>The bounded queue\<close>

text \<open>The specification of the interface as an executable queue: its elements and its capacity.\<close>

type_synonym 'a fifo = "'a list \<times> nat"

definition fifo :: "('a fifo, 'a) ring_ops" where
  "fifo = \<lparr>
     new_ring = (\<lambda>n. ([], n)),
     try_push = (\<lambda>x (q, c). if length q < c then Some (q @ [x], c) else None),
     try_pop = (\<lambda>(q, c). case q of [] \<Rightarrow> None | x # q' \<Rightarrow> Some (x, (q', c))),
     push_slice = (\<lambda>xs (q, c). let n = min (length xs) (c - length q) in (n, (q @ take n xs, c))),
     pop_slice = (\<lambda>n (q, c). (take n q, (drop n q, c))),
     skip_front = (\<lambda>n (q, c). (min n (length q), (drop n q, c))),
     occupied_len = (\<lambda>(q, c). length q),
     vacant_len = (\<lambda>(q, c). c - length q)\<rparr>"

interpretation fifo: ring fifo fst snd
  by unfold_locales (auto simp: fifo_def Let_def split: list.splits prod.splits)

lemmas fifo_ring = fifo.ring_axioms

end
