(* ===== verification/Jack_Stream.thy ===== *)
theory Jack_Stream
  imports Ring Core_Types "HOL-Library.Sublist"
begin

text \<open>
  The audio streams of \<open>crates/oxisound-jack/src/client.rs\<close> and the counters of
  \<open>crates/oxisound-jack/src/metrics.rs\<close>. A stream and its process callback share a queue of
  samples and atomic counters; the state records hold both, and each method and each callback
  is a function on it, so a run is a sequence of these steps in any order. The port buffers,
  the latency the server reports and the JACK client are arguments.
\<close>

subsection \<open>Metrics\<close>

record jack_metrics =
  jm_sample_rate :: "32 word"
  jm_xrun_count :: "64 word"
  jm_buffer_size :: "32 word"
  jm_latency :: "32 word"

definition new_metrics :: jack_metrics where
  "new_metrics = \<lparr>jm_sample_rate = 0, jm_xrun_count = 0, jm_buffer_size = 0, jm_latency = 0\<rparr>"

definition record_sample_rate :: "32 word \<Rightarrow> jack_metrics \<Rightarrow> jack_metrics" where
  "record_sample_rate rate m = m\<lparr>jm_sample_rate := rate\<rparr>"

definition record_xrun :: "jack_metrics \<Rightarrow> jack_metrics" where
  "record_xrun m = m\<lparr>jm_xrun_count := jm_xrun_count m + 1\<rparr>"

definition record_buffer_size :: "32 word \<Rightarrow> jack_metrics \<Rightarrow> jack_metrics" where
  "record_buffer_size sz m = m\<lparr>jm_buffer_size := sz\<rparr>"

definition record_latency :: "32 word \<Rightarrow> jack_metrics \<Rightarrow> jack_metrics" where
  "record_latency frames m = m\<lparr>jm_latency := frames\<rparr>"

text \<open>Events of the notification handler, and of the process handler besides \<open>process\<close>.\<close>

datatype notification = SampleRate "32 word" | Xrun | BufferSize "32 word"

fun notify :: "notification \<Rightarrow> jack_metrics \<Rightarrow> jack_metrics" where
  "notify (SampleRate srate) m = record_sample_rate srate m"
| "notify Xrun m = record_xrun m"
| "notify (BufferSize sz) m = record_buffer_size sz m"

subsection \<open>Output\<close>

record 'r jack_output =
  jo_ring :: 'r
  jo_frames :: "64 word"
  jo_underruns :: "64 word"
  jo_metrics :: jack_metrics

text \<open>\<open>(sample_rate as usize).saturating_mul(2)\<close>\<close>

definition ring_capacity :: "nat \<Rightarrow> 32 word \<Rightarrow> nat" where
  "ring_capacity um rate = min (unat rate * 2) um"

text \<open>
  A call of the JACK client that may fail: \<open>None\<close> is success, \<open>Some e\<close> a failure with the
  message \<open>e\<close>. Opening a stream registers its port and activates the client.
\<close>

definition client_call :: "string \<Rightarrow> rstring option \<Rightarrow> (unit, oxi_error) result" where
  "client_call what outcome =
     (case outcome of None \<Rightarrow> Ok () | Some e \<Rightarrow> Err (Device [Lit what, Lit '' failed: '', Str e]))"

definition new_device :: "rstring option \<Rightarrow> rstring \<Rightarrow> (rstring, oxi_error) result" where
  "new_device outcome client_name =
     and_then (client_call ''JACK client open'' outcome) (\<lambda>_. Ok client_name)"

definition open_output :: "('r, f32) ring_ops \<Rightarrow> nat \<Rightarrow> rstring option \<Rightarrow> rstring option \<Rightarrow> 32 word
    \<Rightarrow> ('r jack_output, oxi_error) result" where
  "open_output R um registered activated rate =
     and_then (heap_rb R um 4 (ring_capacity um rate)) (\<lambda>ring.
     and_then (client_call ''JACK port register'' registered) (\<lambda>_.
     and_then (client_call ''JACK activate_async'' activated) (\<lambda>_.
       Ok \<lparr>jo_ring = ring, jo_frames = 0, jo_underruns = 0,
         jo_metrics = new_metrics\<rparr>)))"

definition output_write :: "('r, f32) ring_ops \<Rightarrow> f32 list \<Rightarrow> 'r jack_output
    \<Rightarrow> (unit, oxi_error) result \<times> 'r jack_output" where
  "output_write R samples s =
     (let (r, _) = offer_all R samples (jo_ring s) in (Ok (), s\<lparr>jo_ring := r\<rparr>))"

text \<open>One cycle for a port buffer of \<open>n\<close> samples; the result is what the buffer then holds.\<close>

definition output_cycle :: "('r, f32) ring_ops \<Rightarrow> nat \<Rightarrow> 32 word \<Rightarrow> 'r jack_output \<Rightarrow> f32 list \<times> 'r jack_output" where
  "output_cycle R n latency s =
     (let (out, k, r) = take_each R 0 n (jo_ring s)
      in (out, s\<lparr>jo_ring := r, jo_underruns := jo_underruns s + word_of_nat k,
            jo_frames := jo_frames s + word_of_nat n,
            jo_metrics := record_latency latency (jo_metrics s)\<rparr>))"

definition output_stats :: "'r jack_output \<Rightarrow> stream_stats" where
  "output_stats s = \<lparr>frames_processed = jo_frames s, underruns = jo_underruns s, overruns = 0,
     latency_frames = jm_latency (jo_metrics s), cpu_load_percent = 0\<rparr>"

subsection \<open>Input\<close>

record 'r jack_input =
  ji_ring :: 'r
  ji_frames :: "64 word"
  ji_overruns :: "64 word"
  ji_metrics :: jack_metrics

definition open_input :: "('r, f32) ring_ops \<Rightarrow> nat \<Rightarrow> rstring option \<Rightarrow> rstring option \<Rightarrow> 32 word
    \<Rightarrow> ('r jack_input, oxi_error) result" where
  "open_input R um registered activated rate =
     and_then (heap_rb R um 4 (ring_capacity um rate)) (\<lambda>ring.
     and_then (client_call ''JACK port register'' registered) (\<lambda>_.
     and_then (client_call ''JACK activate_async'' activated) (\<lambda>_.
       Ok \<lparr>ji_ring = ring, ji_frames = 0, ji_overruns = 0,
         ji_metrics = new_metrics\<rparr>)))"

definition input_cycle :: "('r, f32) ring_ops \<Rightarrow> f32 list \<Rightarrow> 32 word \<Rightarrow> 'r jack_input \<Rightarrow> 'r jack_input" where
  "input_cycle R inp latency s =
     (let (r, k) = offer_all R inp (ji_ring s)
      in s\<lparr>ji_ring := r, ji_overruns := ji_overruns s + word_of_nat k,
           ji_frames := ji_frames s + word_of_nat (length inp),
           ji_metrics := record_latency latency (ji_metrics s)\<rparr>)"

text \<open>
  \<open>read\<close> into a buffer: the samples go to its front, the rest of it stays as it was, and the
  count is returned.
\<close>

definition input_read :: "('r, f32) ring_ops \<Rightarrow> f32 list \<Rightarrow> 'r jack_input
    \<Rightarrow> (nat, oxi_error) result \<times> f32 list \<times> 'r jack_input" where
  "input_read R buf s =
     (let (xs, r) = take_some R (length buf) (ji_ring s)
      in (Ok (length xs), xs @ drop (length xs) buf, s\<lparr>ji_ring := r\<rparr>))"

definition input_stats :: "'r jack_input \<Rightarrow> stream_stats" where
  "input_stats s = \<lparr>frames_processed = ji_frames s, underruns = 0, overruns = ji_overruns s,
     latency_frames = jm_latency (ji_metrics s), cpu_load_percent = 0\<rparr>"

subsection \<open>Callback streams\<close>

text \<open>The user's callback fills the port buffer; its captured state is \<open>'c\<close>.\<close>

record 'c jack_callback_output =
  jc_callback :: "f32 list \<Rightarrow> 'c \<Rightarrow> f32 list \<times> 'c"
  jc_captured :: 'c
  jc_frames :: "64 word"
  jc_metrics :: jack_metrics

definition open_output_callback :: "rstring option \<Rightarrow> rstring option
    \<Rightarrow> (f32 list \<Rightarrow> 'c \<Rightarrow> f32 list \<times> 'c) \<Rightarrow> 'c \<Rightarrow> ('c jack_callback_output, oxi_error) result" where
  "open_output_callback registered activated callback c =
     and_then (client_call ''JACK port register'' registered) (\<lambda>_.
     and_then (client_call ''JACK activate_async'' activated) (\<lambda>_.
       Ok \<lparr>jc_callback = callback, jc_captured = c, jc_frames = 0, jc_metrics = new_metrics\<rparr>))"

definition callback_cycle :: "f32 list \<Rightarrow> 32 word \<Rightarrow> 'c jack_callback_output
    \<Rightarrow> f32 list \<times> 'c jack_callback_output" where
  "callback_cycle buf latency s =
     (let (out, c) = jc_callback s buf (jc_captured s)
      in (out, s\<lparr>jc_captured := c, jc_frames := jc_frames s + word_of_nat (length buf),
            jc_metrics := record_latency latency (jc_metrics s)\<rparr>))"

definition callback_stats :: "'c jack_callback_output \<Rightarrow> stream_stats" where
  "callback_stats s = \<lparr>frames_processed = jc_frames s, underruns = 0, overruns = 0,
     latency_frames = jm_latency (jc_metrics s), cpu_load_percent = 0\<rparr>"

subsection \<open>Connections\<close>

text \<open>
  \<open>connect\<close> is \<open>connect_ports_by_name\<close> of the client: it changes the connections of the server
  and says whether it worked. Warnings go to a log.
\<close>

datatype connect_result = Connected | AlreadyConnected | ConnectFailed rstring

definition arrow :: msg_part where "arrow = Str [0x20, 0xE2, 0x86, 0x92, 0x20]"

definition connect_ports :: "(rstring \<Rightarrow> rstring \<Rightarrow> 'c \<Rightarrow> connect_result \<times> 'c) \<Rightarrow> rstring \<Rightarrow> rstring \<Rightarrow> 'c
    \<Rightarrow> (unit, oxi_error) result \<times> 'c" where
  "connect_ports connect src dst c =
     (case connect src dst c of
        (Connected, c') \<Rightarrow> (Ok (), c')
      | (AlreadyConnected, c') \<Rightarrow> (Ok (), c')
      | (ConnectFailed e, c') \<Rightarrow>
          (Err (Device [Lit ''JACK port connect '', Str src, arrow, Str dst, Lit '' failed: '', Str e]), c'))"

text \<open>The loop of the three \<open>auto_connect\<close> methods of the output side, then that of the input side.\<close>

fun auto_connect_loop :: "(rstring \<Rightarrow> rstring \<Rightarrow> 'c \<Rightarrow> connect_result \<times> 'c) \<Rightarrow> (rstring \<times> rstring) list
    \<Rightarrow> 'c \<Rightarrow> msg list \<times> 'c" where
  "auto_connect_loop connect [] c = ([], c)"
| "auto_connect_loop connect ((src, dst) # ps) c =
     (case connect src dst c of
        (ConnectFailed e, c') \<Rightarrow>
          (let (ws, c'') = auto_connect_loop connect ps c'
           in ([Lit ''[oxisound-jack] auto-connect '', Str src, arrow, Str dst, Lit '': '', Str e] # ws, c''))
      | (_, c') \<Rightarrow> auto_connect_loop connect ps c')"

definition port_path :: "rstring \<Rightarrow> rstring \<Rightarrow> rstring" where
  "port_path client port = client @ str_lit '':'' @ port"

definition auto_connect_device :: "(rstring \<Rightarrow> rstring \<Rightarrow> 'c \<Rightarrow> connect_result \<times> 'c) \<Rightarrow> rstring \<Rightarrow> rstring list
    \<Rightarrow> rstring \<Rightarrow> 'c \<Rightarrow> (unit, oxi_error) result \<times> msg list \<times> 'c" where
  "auto_connect_device connect client playback port c =
     (Ok (), auto_connect_loop connect (map (Pair (port_path client port)) (take 2 playback)) c)"

definition auto_connect_output :: "(rstring \<Rightarrow> rstring \<Rightarrow> 'c \<Rightarrow> connect_result \<times> 'c) \<Rightarrow> rstring \<Rightarrow> rstring list
    \<Rightarrow> 'c \<Rightarrow> (unit, oxi_error) result \<times> msg list \<times> 'c" where
  "auto_connect_output connect client playback c =
     (Ok (), auto_connect_loop connect (map (Pair (port_path client (str_lit ''out''))) (take 2 playback)) c)"

definition auto_connect_input :: "(rstring \<Rightarrow> rstring \<Rightarrow> 'c \<Rightarrow> connect_result \<times> 'c) \<Rightarrow> rstring \<Rightarrow> rstring list
    \<Rightarrow> 'c \<Rightarrow> (unit, oxi_error) result \<times> msg list \<times> 'c" where
  "auto_connect_input connect client capture c =
     (Ok (), auto_connect_loop connect (map (\<lambda>p. (p, port_path client (str_lit ''in''))) (take 2 capture)) c)"

subsection \<open>Transport\<close>

text \<open>What the client's transport queries answer, and how the device translates it.\<close>

datatype jack_transport = TransportRolling | TransportStarting | TransportStopped | TransportError

datatype transport_state = Rolling | Stopped | Starting

fun transport_state_of :: "jack_transport \<Rightarrow> transport_state" where
  "transport_state_of TransportRolling = Rolling"
| "transport_state_of TransportStarting = Starting"
| "transport_state_of _ = Stopped"

record 'bpm transport_position =
  tp_frame :: "64 word"
  tp_bpm :: "'bpm option"

definition transport_position_of :: "(32 word \<times> 'bpm option) option \<Rightarrow> 'bpm transport_position" where
  "transport_position_of q =
     (case q of
        Some (frame, bpm) \<Rightarrow> \<lparr>tp_frame = ucast frame, tp_bpm = bpm\<rparr>
      | None \<Rightarrow> \<lparr>tp_frame = 0, tp_bpm = None\<rparr>)"

definition set_freewheel :: "bool \<Rightarrow> (unit, oxi_error) result" where
  "set_freewheel enabled = Err (Unsupported [Lit ''JACK freewheel is not implemented in the jack 0.13.5 safe API (upstream TODO). Track: https://github.com/RustAudio/rust-jack''])"

subsection \<open>Runs\<close>

datatype out_step = Write "f32 list" | Cycle nat "32 word" | OutNotify notification

text \<open>The port buffers that a run of steps leaves, and the state after it.\<close>

fun run_output :: "('r, f32) ring_ops \<Rightarrow> out_step list \<Rightarrow> 'r jack_output \<Rightarrow> f32 list \<times> 'r jack_output" where
  "run_output R [] s = ([], s)"
| "run_output R (Write xs # es) s = run_output R es (snd (output_write R xs s))"
| "run_output R (Cycle n lat # es) s =
     (let (out, s') = output_cycle R n lat s; (outs, s'') = run_output R es s' in (out @ outs, s''))"
| "run_output R (OutNotify nt # es) s = run_output R es (s\<lparr>jo_metrics := notify nt (jo_metrics s)\<rparr>)"

datatype in_step = Capture "f32 list" "32 word" | Read "f32 list" | InNotify notification

fun run_input :: "('r, f32) ring_ops \<Rightarrow> in_step list \<Rightarrow> 'r jack_input \<Rightarrow> f32 list \<times> 'r jack_input" where
  "run_input R [] s = ([], s)"
| "run_input R (Capture xs lat # es) s = run_input R es (input_cycle R xs lat s)"
| "run_input R (Read buf # es) s =
     (let (res, buf', s') = input_read R buf s; (xs, s'') = run_input R es s'
      in (case res of Ok n \<Rightarrow> take n buf' @ xs | _ \<Rightarrow> xs, s''))"
| "run_input R (InNotify nt # es) s = run_input R es (s\<lparr>ji_metrics := notify nt (ji_metrics s)\<rparr>)"

subsection \<open>What a run does\<close>

fun written :: "out_step list \<Rightarrow> f32 list" where
  "written [] = []"
| "written (Write xs # es) = xs @ written es"
| "written (_ # es) = written es"

fun captured :: "in_step list \<Rightarrow> f32 list" where
  "captured [] = []"
| "captured (Capture xs _ # es) = xs @ captured es"
| "captured (_ # es) = captured es"

text \<open>The samples among the slots of the port buffers; the other slots are silence.\<close>

definition played :: "f32 option list \<Rightarrow> f32 list" where
  "played slots = map the (filter (\<lambda>x. x \<noteq> None) slots)"

fun slot_value :: "f32 option \<Rightarrow> f32" where
  "slot_value None = 0"
| "slot_value (Some y) = y"

lemma played_simps [simp]: "played [] = []" "played (xs @ ys) = played xs @ played ys"
  by (simp_all add: played_def)

lemma played_due: "played (due n q) = take n q"
  by (simp only: played_def due_found)

text \<open>
  What a run does to the queue of samples alone: \<open>c\<close> is its capacity and \<open>q\<close> what waits in it. A write fills the queue
  and drops the rest; a cycle plays what is there and then silence. The result is the slots of all port
  buffers, the samples that were taken and the queue at the end.
\<close>

fun abs_jack :: "nat \<Rightarrow> out_step list \<Rightarrow> f32 list \<Rightarrow> f32 option list \<times> f32 list \<times> f32 list" where
  "abs_jack c [] q = ([], [], q)"
| "abs_jack c (Write xs # es) q =
     (let fit = take (c - length q) xs; (sl, acc, q') = abs_jack c es (q @ fit) in (sl, fit @ acc, q'))"
| "abs_jack c (Cycle n lat # es) q =
     (let (sl, acc, q') = abs_jack c es (drop n q) in (due n q @ sl, acc, q'))"
| "abs_jack c (OutNotify nt # es) q = abs_jack c es q"

lemma abs_jack_order: "abs_jack c es q = (sl, acc, q') \<Longrightarrow>
    q @ acc = played sl @ q' \<and> subseq acc (written es) \<and>
    (length q + length (written es) \<le> c \<longrightarrow> acc = written es)"
proof (induction c es q arbitrary: sl acc rule: abs_jack.induct)
  case (2 c xs es q)
  let ?fit = "take (c - length q) xs"
  obtain acc1 where r: "abs_jack c es (q @ ?fit) = (sl, acc1, q')" "acc = ?fit @ acc1"
    using "2.prems" by (auto simp: Let_def split: prod.splits)
  from "2.IH" [OF refl r(1)] have ih: "(q @ ?fit) @ acc1 = played sl @ q'" "subseq acc1 (written es)"
    "length (q @ ?fit) + length (written es) \<le> c \<longrightarrow> acc1 = written es" by blast+
  have "subseq (?fit @ acc1) (xs @ written es)"
    by (rule list_emb_append_mono [OF prefix_imp_subseq [OF take_is_prefix] ih(2)])
  with ih r(2) show ?case by auto
next
  case (3 c n lat es q)
  obtain sl1 where r: "abs_jack c es (drop n q) = (sl1, acc, q')" "sl = due n q @ sl1"
    using "3.prems" by (auto split: prod.splits)
  have split: "q @ xs = take n q @ drop n q @ xs" for xs by simp
  from "3.IH" [OF r(1)] r(2) show ?case by (simp add: played_due split)
qed auto

lemma write_keeps:
  assumes "ring R contents cap"
  shows "\<exists>r. snd (output_write R xs s) = s\<lparr>jo_ring := r\<rparr> \<and> cap r = cap (jo_ring s) \<and>
    contents r = contents (jo_ring s) @ take (cap (jo_ring s) - length (contents (jo_ring s))) xs"
  using ring.offer_all_spec [OF assms, of xs "jo_ring s"]
  by (auto simp: output_write_def split: prod.splits)

lemma cycle_due:
  assumes "ring R contents cap"
  shows "\<exists>r. output_cycle R n lat s = (map slot_value (due n (contents (jo_ring s))),
      s\<lparr>jo_ring := r, jo_underruns := jo_underruns s + word_of_nat (n - length (contents (jo_ring s))),
        jo_frames := jo_frames s + word_of_nat n, jo_metrics := record_latency lat (jo_metrics s)\<rparr>) \<and>
    contents r = drop n (contents (jo_ring s)) \<and> cap r = cap (jo_ring s)"
proof -
  obtain out k r where t: "take_each R 0 n (jo_ring s) = (out, k, r)" by (cases "take_each R 0 n (jo_ring s)") auto
  from ring.take_each_spec [OF assms t] show ?thesis
    by (intro exI [of _ r]) (simp add: output_cycle_def t due_def o_def)
qed

lemma run_output_refines:
  assumes "ring R contents cap"
  shows "run_output R es s = (outs, s') \<Longrightarrow>
    \<exists>slots acc. abs_jack (cap (jo_ring s)) es (contents (jo_ring s)) = (slots, acc, contents (jo_ring s')) \<and>
      outs = map slot_value slots \<and>
      jo_frames s' = jo_frames s + word_of_nat (length slots) \<and>
      jo_underruns s' = jo_underruns s + word_of_nat (length (filter (\<lambda>x. x = None) slots))"
proof (induction es arbitrary: s outs)
  case Nil
  then show ?case by simp
next
  case (Cons e es)
  show ?case
  proof (cases e)
    case (Write xs)
    from write_keeps [OF assms, of xs s] obtain r where
      w: "snd (output_write R xs s) = s\<lparr>jo_ring := r\<rparr>" "cap r = cap (jo_ring s)"
        "contents r = contents (jo_ring s) @ take (cap (jo_ring s) - length (contents (jo_ring s))) xs" by blast
    with Cons.IH [of "s\<lparr>jo_ring := r\<rparr>" outs] Cons.prems Write show ?thesis by auto
  next
    case (Cycle n lat)
    from cycle_due [OF assms, of n lat s] obtain r t where
      c: "output_cycle R n lat s = (map slot_value (due n (contents (jo_ring s))), t)"
        "t = s\<lparr>jo_ring := r, jo_underruns := jo_underruns s + word_of_nat (n - length (contents (jo_ring s))),
          jo_frames := jo_frames s + word_of_nat n, jo_metrics := record_latency lat (jo_metrics s)\<rparr>"
        "contents r = drop n (contents (jo_ring s))" "cap r = cap (jo_ring s)" by blast
    obtain outs1 u where r: "run_output R es t = (outs1, u)" by (cases "run_output R es t")
    from Cons.IH [of t outs1] r Cons.prems Cycle c obtain sl acc where
      "abs_jack (cap (jo_ring s)) es (drop n (contents (jo_ring s))) = (sl, acc, contents (jo_ring s'))"
      "outs1 = map slot_value sl" "jo_frames s' = jo_frames t + word_of_nat (length sl)"
      "jo_underruns s' = jo_underruns t + word_of_nat (length (filter (\<lambda>x. x = None) sl))" by auto
    with c(1,2) r Cons.prems Cycle show ?thesis by (auto simp: due_missing add.assoc)
  next
    case (OutNotify nt)
    with Cons.IH [of "s\<lparr>jo_metrics := notify nt (jo_metrics s)\<rparr>" outs] Cons.prems show ?thesis by auto
  qed
qed

text \<open>The same for input: \<open>kept\<close> are the captured samples that found room.\<close>

definition in_link :: "('r \<Rightarrow> f32 list) \<Rightarrow> ('r \<Rightarrow> nat) \<Rightarrow> f32 list \<Rightarrow> nat \<Rightarrow> f32 list
    \<Rightarrow> 'r jack_input \<Rightarrow> 'r jack_input \<Rightarrow> bool" where
  "in_link contents cap kept n xs s s' \<longleftrightarrow>
     contents (ji_ring s) @ kept = xs @ contents (ji_ring s') \<and>
     cap (ji_ring s') = cap (ji_ring s) \<and> length kept \<le> n \<and>
     ji_frames s' = ji_frames s + word_of_nat n \<and>
     ji_overruns s' = ji_overruns s + word_of_nat (n - length kept)"

lemma in_link_refl: "in_link contents cap [] 0 [] s (s\<lparr>ji_metrics := m\<rparr>)"
  by (simp add: in_link_def)

lemma in_link_trans:
  assumes "in_link contents cap k n xs s t" and "in_link contents cap k' n' xs' t u"
  shows "in_link contents cap (k @ k') (n + n') (xs @ xs') s u"
proof -
  have "n + n' - length (k @ k') = (n - length k) + (n' - length k')"
    using assms by (simp add: in_link_def)
  moreover have "contents (ji_ring s) @ k @ k' = (xs @ xs') @ contents (ji_ring u)"
    using assms by (simp add: in_link_def append_assoc [symmetric] del: append_assoc) simp
  ultimately show ?thesis
    using assms unfolding in_link_def by (simp only: of_nat_add length_append) auto
qed

lemma capture_link:
  assumes "ring R contents cap"
  shows "\<exists>kept. in_link contents cap kept (length xs) [] s (input_cycle R xs lat s) \<and>
    kept = take (cap (ji_ring s) - length (contents (ji_ring s))) xs"
proof -
  obtain r k where o: "offer_all R xs (ji_ring s) = (r, k)" by fastforce
  from ring.offer_all_spec [OF assms o] o show ?thesis
    by (auto simp: input_cycle_def in_link_def min_def split: prod.splits)
qed

lemma read_link:
  assumes "ring R contents cap"
  shows "\<exists>xs t. input_read R buf s = (Ok (length xs), xs @ drop (length xs) buf, t) \<and>
    in_link contents cap [] 0 xs s t \<and> xs = take (length buf) (contents (ji_ring s))"
proof -
  obtain xs r where t: "take_some R (length buf) (ji_ring s) = (xs, r)" by fastforce
  from ring.take_some_spec [OF assms t] t show ?thesis
    by (auto simp: input_read_def in_link_def)
qed

lemma run_input_link:
  assumes "ring R contents cap"
  shows "run_input R es s = (xs, s') \<Longrightarrow>
    \<exists>kept. in_link contents cap kept (length (captured es)) xs s s' \<and> subseq kept (captured es)"
proof (induction es arbitrary: s xs s')
  case Nil
  then show ?case using in_link_refl [of contents cap s "ji_metrics s"] by auto
next
  case (Cons e es)
  show ?case
  proof (cases e)
    case (Capture ys lat)
    let ?t = "input_cycle R ys lat s"
    from capture_link [OF assms, of ys s lat] obtain k where
      k: "in_link contents cap k (length ys) [] s ?t" "subseq k ys"
      by (metis prefix_imp_subseq take_is_prefix)
    from Cons.IH [of ?t xs s'] Cons.prems Capture obtain k' where
      k': "in_link contents cap k' (length (captured es)) xs ?t s'" "subseq k' (captured es)" by auto
    from in_link_trans [OF k(1) k'(1)] list_emb_append_mono [OF k(2) k'(2)] Capture
    show ?thesis by auto
  next
    case (Read buf)
    from read_link [OF assms, of buf s] obtain ys t where
      r: "input_read R buf s = (Ok (length ys), ys @ drop (length ys) buf, t)"
        "in_link contents cap [] 0 ys s t" by blast
    obtain zs where z: "run_input R es t = (zs, s')" "xs = ys @ zs"
      using Cons.prems Read r(1) by (auto split: prod.splits)
    from Cons.IH [OF z(1)] obtain k where
      k: "in_link contents cap k (length (captured es)) zs t s'" "subseq k (captured es)" by blast
    from in_link_trans [OF r(2) k(1)] k(2) z(2) Read show ?thesis by auto
  next
    case (InNotify nt)
    from Cons.IH [of "s\<lparr>ji_metrics := notify nt (ji_metrics s)\<rparr>" xs s'] Cons.prems InNotify
    obtain k where
      k: "in_link contents cap k (length (captured es)) xs (s\<lparr>ji_metrics := notify nt (ji_metrics s)\<rparr>) s'"
        "subseq k (captured es)" by auto
    then show ?thesis using in_link_trans [OF in_link_refl k(1)] InNotify by auto
  qed
qed

subsection \<open>Properties\<close>

text \<open>
  C8: Any run of writes, process cycles and notifications of an output stream: a write takes exactly as many samples
  as there is room for and drops the others, and a cycle plays as many queued samples as it needs and silence only after
  the queue has run out. So the port gets the queued and then the taken samples, each once and in order; what
  was neither dropped nor played is still in the queue.
  The underrun counter counts exactly the silent slots and the frame counter all of them. If
  the writes fit the queue, nothing is dropped.
\<close>

theorem jack_output_run:
  assumes "ring R contents cap" and "run_output R es s = (outs, s')"
  shows "case abs_jack (cap (jo_ring s)) es (contents (jo_ring s)) of (slots, accepted, q) \<Rightarrow>
    outs = map slot_value slots \<and> contents (jo_ring s') = q \<and>
    contents (jo_ring s) @ accepted = played slots @ contents (jo_ring s') \<and>
    subseq accepted (written es) \<and>
    (length (contents (jo_ring s)) + length (written es) \<le> cap (jo_ring s) \<longrightarrow> accepted = written es) \<and>
    frames_processed (output_stats s') = jo_frames s + word_of_nat (length slots) \<and>
    underruns (output_stats s') = jo_underruns s + word_of_nat (length (filter (\<lambda>x. x = None) slots))"
proof -
  from run_output_refines [OF assms] obtain slots acc where
    r: "abs_jack (cap (jo_ring s)) es (contents (jo_ring s)) = (slots, acc, contents (jo_ring s'))"
      "outs = map slot_value slots" "jo_frames s' = jo_frames s + word_of_nat (length slots)"
      "jo_underruns s' = jo_underruns s + word_of_nat (length (filter (\<lambda>x. x = None) slots))" by blast
  from abs_jack_order [OF r(1)] r(2-4) show ?thesis by (simp add: r(1) output_stats_def)
qed

theorem jack_output_run_witness:
  "case abs_jack 4 [Write [7, 8], Cycle 2 256, Cycle 1 256] [] of (slots, accepted, q) \<Rightarrow>
     [7, 8, 0] = map slot_value slots \<and> accepted = [7, 8] \<and> q = []"
proof -
  let ?s = "\<lparr>jo_ring = ([], 4), jo_frames = 0, jo_underruns = 0, jo_metrics = new_metrics\<rparr> :: f32 fifo jack_output"
  have r: "run_output fifo [Write [7, 8], Cycle 2 256, Cycle 1 256] ?s =
      ([7, 8, 0], \<lparr>jo_ring = ([], 4), jo_frames = 3, jo_underruns = 1,
        jo_metrics = record_latency 256 new_metrics\<rparr>)"
    by (simp add: output_write_def output_cycle_def fifo_def numeral_2_eq_2 record_latency_def new_metrics_def)
  from jack_output_run [OF fifo_ring r] show ?thesis by (auto split: prod.splits)
qed

text \<open>
  Any run of capture cycles, reads and notifications of an input stream: the samples that
  were read and those still queued are the captured samples that found room, in order and each
  once, and the overrun counter grows by exactly the number of the others.
\<close>

lemma jack_input_run:
  assumes "ring R contents cap" and "run_input R es s = (xs, s')"
  shows "\<exists>kept. contents (ji_ring s) @ kept = xs @ contents (ji_ring s') \<and> subseq kept (captured es) \<and>
    frames_processed (input_stats s') = ji_frames s + word_of_nat (length (captured es)) \<and>
    overruns (input_stats s') = ji_overruns s + word_of_nat (length (captured es) - length kept)"
  using run_input_link [OF assms] by (auto simp: in_link_def input_stats_def)

theorem jack_input_run_witness:
  "\<exists>kept. [] @ kept = [1, 2] @ [3 :: f32] \<and> subseq kept [1, 2, 3, 4]"
proof -
  let ?s = "\<lparr>ji_ring = ([], 3), ji_frames = 0, ji_overruns = 0, ji_metrics = new_metrics\<rparr> :: f32 fifo jack_input"
  have r: "run_input fifo [Capture [1, 2, 3, 4] 64, Read [0, 0]] ?s =
      ([1, 2], \<lparr>ji_ring = ([3], 3), ji_frames = 4, ji_overruns = 1,
        ji_metrics = record_latency 64 new_metrics\<rparr>)"
    by (simp add: input_cycle_def input_read_def fifo_def numeral_2_eq_2 record_latency_def new_metrics_def)
  from jack_input_run [OF fifo_ring r] show ?thesis by simp
qed

end
