(* ===== verification/Jack_Sysex.thy ===== *)
theory Jack_Sysex
  imports Core_Midi
begin

text \<open>
  The MIDI byte helpers of \<open>crates/oxisound-jack/src/midi_util.rs\<close>: classification of status
  bytes and the reassembler of System Exclusive messages, whose main fact is that it does not
  matter how the bytes are cut into chunks.
\<close>

subsection \<open>Status bytes\<close>

definition midi_message_len :: "byte \<Rightarrow> nat option" where
  "midi_message_len status =
     (if status AND 0xF0 \<in> {0x80, 0x90, 0xA0, 0xB0, 0xE0} then Some 3
      else if status AND 0xF0 \<in> {0xC0, 0xD0} then Some 2
      else if status AND 0xF0 = 0xF0 then
        (if status \<in> {0xF1, 0xF3} then Some 2
         else if status = 0xF2 then Some 3
         else if status \<in> {0xF6, 0xF8, 0xFA, 0xFB, 0xFC, 0xFE, 0xFF} then Some 1
         else None)
      else None)"

definition is_realtime :: "byte \<Rightarrow> bool" where
  "is_realtime b \<longleftrightarrow> 0xF8 \<le> b"

definition is_status :: "byte \<Rightarrow> bool" where
  "is_status b \<longleftrightarrow> b AND 0x80 \<noteq> 0"

subsection \<open>The reassembler\<close>

datatype sysex_event = Complete "byte list" | Realtime byte

record reassembler =
  sx_buffer :: "byte list"
  in_sysex :: bool

definition new_reassembler :: reassembler where
  "new_reassembler = \<lparr>sx_buffer = [], in_sysex = False\<rparr>"

text \<open>The body of the loop of \<open>feed\<close>, with the events it pushes.\<close>

definition feed_byte :: "byte \<Rightarrow> reassembler \<Rightarrow> sysex_event list \<times> reassembler" where
  "feed_byte b s =
     (if \<not> in_sysex s then
        (if b = 0xF0 then ([], \<lparr>sx_buffer = [0xF0], in_sysex = True\<rparr>) else ([], s))
      else if b = 0xF7 then ([Complete (sx_buffer s @ [0xF7])], \<lparr>sx_buffer = [], in_sysex = False\<rparr>)
      else if 0xF8 \<le> b then ([Realtime b], s)
      else if 0x80 \<le> b then
        (if b = 0xF0 then ([], \<lparr>sx_buffer = [0xF0], in_sysex = True\<rparr>)
         else ([], \<lparr>sx_buffer = [], in_sysex = False\<rparr>))
      else ([], s\<lparr>sx_buffer := sx_buffer s @ [b]\<rparr>))"

fun feed :: "byte list \<Rightarrow> reassembler \<Rightarrow> sysex_event list \<times> reassembler" where
  "feed [] s = ([], s)"
| "feed (b # bs) s =
     (let (es, s') = feed_byte b s; (es', s'') = feed bs s' in (es @ es', s''))"

definition reset_reassembler :: "reassembler \<Rightarrow> reassembler" where
  "reset_reassembler s = s\<lparr>sx_buffer := [], in_sysex := False\<rparr>"

text \<open>Several calls of \<open>feed\<close>, one per chunk.\<close>

fun feed_chunks :: "byte list list \<Rightarrow> reassembler \<Rightarrow> sysex_event list \<times> reassembler" where
  "feed_chunks [] s = ([], s)"
| "feed_chunks (c # cs) s =
     (let (es, s') = feed c s; (es', s'') = feed_chunks cs s' in (es @ es', s''))"

subsection \<open>Chunking does not matter\<close>

lemma feed_append:
  "feed (xs @ ys) s =
     (let (es, s') = feed xs s; (es', s'') = feed ys s' in (es @ es', s''))"
  by (induction xs arbitrary: s) (auto split: prod.splits)

lemma feed_chunks_concat: "feed_chunks cs s = feed (concat cs) s"
  by (induction cs arbitrary: s) (auto simp: feed_append split: prod.splits)

subsection \<open>What is accumulated\<close>

abbreviation data_byte :: "byte \<Rightarrow> bool" where "data_byte b \<equiv> b < 0x80"

definition sysex_frame :: "byte list \<Rightarrow> bool" where
  "sysex_frame m \<longleftrightarrow> (\<exists>body. m = 0xF0 # body @ [0xF7] \<and> list_all data_byte body)"

text \<open>
  An idle reassembler holds nothing; an open one holds the start byte and data bytes. Every
  event is a well-formed frame or a realtime byte.
\<close>

definition reassembler_ok :: "reassembler \<Rightarrow> bool" where
  "reassembler_ok s \<longleftrightarrow>
     (if in_sysex s then (\<exists>body. sx_buffer s = 0xF0 # body \<and> list_all data_byte body)
      else sx_buffer s = [])"

fun event_ok :: "sysex_event \<Rightarrow> bool" where
  "event_ok (Complete m) = sysex_frame m"
| "event_ok (Realtime b) = is_realtime b"

lemma feed_byte_ok:
  assumes "reassembler_ok s" and "feed_byte b s = (es, s')"
  shows "reassembler_ok s' \<and> list_all event_ok es"
  using assms
  by (auto simp: feed_byte_def reassembler_ok_def sysex_frame_def is_realtime_def not_le
      split: if_splits)

lemma feed_ok:
  "reassembler_ok s \<Longrightarrow> feed bs s = (es, s') \<Longrightarrow> reassembler_ok s' \<and> list_all event_ok es"
proof (induction bs arbitrary: s es s')
  case Nil
  then show ?case by simp
next
  case (Cons b bs)
  obtain es1 s1 where 1: "feed_byte b s = (es1, s1)" by (cases "feed_byte b s")
  obtain es2 s2 where 2: "feed bs s1 = (es2, s2)" by (cases "feed bs s1")
  from feed_byte_ok [OF Cons.prems(1) 1] Cons.IH [OF _ 2] Cons.prems(2) 1 2
  show ?case by auto
qed

lemma new_reassembler_ok [simp]: "reassembler_ok new_reassembler"
  by (simp add: reassembler_ok_def new_reassembler_def)

lemma data_byte_not_realtime: "data_byte b \<Longrightarrow> \<not> is_realtime b"
  by (simp add: is_realtime_def word_less_nat_alt word_le_nat_alt)

text \<open>Inside a message, data bytes are collected and realtime bytes pass through.\<close>

lemma feed_inside:
  "list_all (\<lambda>b. data_byte b \<or> is_realtime b) bs \<Longrightarrow>
     feed bs \<lparr>sx_buffer = buf, in_sysex = True\<rparr> =
       (map Realtime (filter is_realtime bs), \<lparr>sx_buffer = buf @ filter data_byte bs, in_sysex = True\<rparr>)"
proof (induction bs arbitrary: buf)
  case Nil
  then show ?case by simp
next
  case (Cons b bs)
  have "feed_byte b \<lparr>sx_buffer = buf, in_sysex = True\<rparr> =
      (if is_realtime b then [Realtime b] else [],
       \<lparr>sx_buffer = buf @ filter data_byte [b], in_sysex = True\<rparr>)"
    using Cons.prems data_byte_not_realtime [of b]
    by (auto simp: feed_byte_def is_realtime_def not_le)
  with Cons data_byte_not_realtime [of b] show ?case
    by (cases "is_realtime b") auto
qed

lemma feed_sysex:
  assumes "list_all (\<lambda>b. data_byte b \<or> is_realtime b) bs" and "\<not> in_sysex s"
  shows "feed (0xF0 # bs @ [0xF7]) s =
     (map Realtime (filter is_realtime bs) @ [Complete (0xF0 # filter data_byte bs @ [0xF7])],
      new_reassembler)"
  using feed_inside [OF assms(1), of "[0xF0]"] assms(2)
  by (simp add: feed_byte_def feed_append new_reassembler_def)

subsection \<open>Properties\<close>

text \<open>
  C5: A System Exclusive message with data bytes and interleaved realtime bytes, cut into
  chunks in any way, is reassembled: the realtime bytes come out first, in order, then the
  message without them, and the reassembler is idle again.
\<close>

theorem sysex_reassembly:
  assumes "concat chunks = 0xF0 # bs @ [0xF7]"
    and "list_all (\<lambda>b. data_byte b \<or> is_realtime b) bs"
    and "\<not> in_sysex s"
  shows "feed_chunks chunks s =
     (map Realtime (filter is_realtime bs) @ [Complete (0xF0 # filter data_byte bs @ [0xF7])],
      new_reassembler)"
  using assms(1) feed_sysex [OF assms(2,3)] by (simp add: feed_chunks_concat)

theorem sysex_reassembly_witness:
  "feed_chunks [[0xF0, 0x41], [], [0xF8, 0x10], [0x42, 0xF7]] new_reassembler =
     ([Realtime 0xF8, Complete [0xF0, 0x41, 0x10, 0x42, 0xF7]], new_reassembler)"
  using sysex_reassembly [of "[[0xF0, 0x41], [], [0xF8, 0x10], [0x42, 0xF7]]"
      "[0x41, 0xF8, 0x10, 0x42]" new_reassembler]
  by (simp add: is_realtime_def new_reassembler_def)

text \<open>
  C29: Whatever bytes arrive, in whatever chunks, every message that the reassembler reports
  starts with F0, ends with F7 and has only data bytes between, every other report is a
  realtime byte, and the partial message it keeps is an F0 followed by data bytes.
\<close>

theorem sysex_events_wellformed:
  "case feed_chunks chunks new_reassembler of
     (es, s) \<Rightarrow> list_all event_ok es \<and> reassembler_ok s"
  using feed_ok [OF new_reassembler_ok] by (auto simp: feed_chunks_concat split: prod.splits)

end
