(* ===== verification/Jack_Midi.thy ===== *)
theory Jack_Midi
  imports Jack_Stream Jack_Sysex
begin

text \<open>
  The MIDI ports of \<open>crates/oxisound-jack/src/midi.rs\<close>: entries of a fixed size in a queue
  between the application and the JACK process callback. The JACK port is an argument: \<open>wr\<close> is
  what writing one message does to it, and the messages of an input cycle are a list.
\<close>

definition MIDI_ENTRY_MAX :: nat where [simp]: "MIDI_ENTRY_MAX = 16"

record midi_entry =
  e_time :: "32 word"
  e_len :: byte
  e_data :: "byte list"

text \<open>\<open>&entry.data[..entry.len as usize]\<close>, and the entry of the first \<open>n\<close> bytes of a message.\<close>

definition entry_bytes :: "midi_entry \<Rightarrow> (byte list, 'e) result" where
  "entry_bytes e = slice (e_data e) 0 (unat (e_len e))"

definition make_entry :: "32 word \<Rightarrow> byte list \<Rightarrow> midi_entry" where
  "make_entry t bs = \<lparr>e_time = t, e_len = word_of_nat (length bs),
     e_data = bs @ replicate (MIDI_ENTRY_MAX - length bs) 0\<rparr>"

subsection \<open>Output\<close>

record 'r midi_output =
  mo_ring :: 'r
  mo_cycles :: "64 word"

function chunks :: "nat \<Rightarrow> 'a list \<Rightarrow> 'a list list" where
  "chunks n xs = (if n = 0 \<or> xs = [] then [] else take n xs # chunks n (drop n xs))"
  by pat_completeness auto
termination by (relation "measure (\<lambda>(n, xs). length xs)") auto

declare chunks.simps [simp del]

definition ring_full :: oxi_error where
  "ring_full = Underrun [Lit ''JACK MIDI output ring full'']"

fun push_chunks :: "('r, midi_entry) ring_ops \<Rightarrow> 32 word \<Rightarrow> byte list list \<Rightarrow> 'r
    \<Rightarrow> (unit, oxi_error) result \<times> 'r" where
  "push_chunks R t [] r = (Ok (), r)"
| "push_chunks R t (c # cs) r =
     (case try_push R (make_entry t c) r of
        None \<Rightarrow> (Err ring_full, r)
      | Some r' \<Rightarrow> push_chunks R t cs r')"

definition send_raw :: "('r, midi_entry) ring_ops \<Rightarrow> 32 word \<Rightarrow> byte list \<Rightarrow> 'r midi_output
    \<Rightarrow> (unit, oxi_error) result \<times> 'r midi_output" where
  "send_raw R t bs out =
     (let (res, r) = push_chunks R t (chunks MIDI_ENTRY_MAX bs) (mo_ring out)
      in (res, out\<lparr>mo_ring := r\<rparr>))"

definition send :: "('r, midi_entry) ring_ops \<Rightarrow> midi_message \<Rightarrow> 'r midi_output
    \<Rightarrow> (unit, oxi_error) result \<times> 'r midi_output" where
  "send R msg out = send_raw R 0 (to_bytes msg) out"

text \<open>
  The loop of \<open>process\<close> over the queue. It is a partial function because it ends only when the
  queue runs empty; \<open>None\<close> would be a loop that never does.
\<close>

partial_function (option) drain_output ::
  "('r, midi_entry) ring_ops \<Rightarrow> (32 word \<Rightarrow> byte list \<Rightarrow> 'w \<Rightarrow> 'w) \<Rightarrow> 'r \<Rightarrow> 'w \<Rightarrow> ('r \<times> 'w, unit) result option"
where
  "drain_output R wr r w =
     (case try_pop R r of
        None \<Rightarrow> Some (Ok (r, w))
      | Some (e, r') \<Rightarrow>
          (case entry_bytes e of
             Ok bs \<Rightarrow> drain_output R wr r' (wr (e_time e) bs w)
           | Err u \<Rightarrow> Some (Err u)
           | Panic \<Rightarrow> Some Panic))"

definition output_process :: "('r, midi_entry) ring_ops \<Rightarrow> (32 word \<Rightarrow> byte list \<Rightarrow> 'w \<Rightarrow> 'w)
    \<Rightarrow> 'r midi_output \<Rightarrow> 'w \<Rightarrow> ('r midi_output \<times> 'w, unit) result option" where
  "output_process R wr out w =
     map_option (map_ok (\<lambda>(r, w'). (out\<lparr>mo_ring := r, mo_cycles := mo_cycles out + 1\<rparr>, w')))
       (drain_output R wr (mo_ring out) w)"

subsection \<open>Input\<close>

record 'r midi_input =
  mi_ring :: 'r
  mi_cycles :: "64 word"
  mi_sysex :: reassembler

definition input_entry :: "32 word \<times> byte list \<Rightarrow> midi_entry" where
  "input_entry m = (case m of (t, bs) \<Rightarrow>
     (let len = min (length bs) MIDI_ENTRY_MAX in make_entry t (take len bs)))"

definition input_process :: "('r, midi_entry) ring_ops \<Rightarrow> (32 word \<times> byte list) list
    \<Rightarrow> 'r midi_input \<Rightarrow> 'r midi_input" where
  "input_process R msgs inp =
     (let (r, _) = offer_all R (map input_entry msgs) (mi_ring inp)
      in inp\<lparr>mi_ring := r, mi_cycles := mi_cycles inp + 1\<rparr>)"

definition try_recv :: "('r, midi_entry) ring_ops \<Rightarrow> 'r midi_input \<Rightarrow> midi_entry option \<times> 'r midi_input" where
  "try_recv R inp =
     (case try_pop R (mi_ring inp) of
        None \<Rightarrow> (None, inp)
      | Some (e, r) \<Rightarrow> (Some e, inp\<lparr>mi_ring := r\<rparr>))"

text \<open>One entry of \<open>recv_with_sysex\<close>: to the reassembler or to the caller.\<close>

definition dispatch_entry :: "midi_entry \<Rightarrow> byte list \<Rightarrow> reassembler
    \<Rightarrow> midi_entry list \<times> sysex_event list \<times> reassembler" where
  "dispatch_entry e bs s =
     (if bs \<noteq> [] \<and> (bs ! 0 = 0xF0 \<or> in_sysex s)
      then (let (es, s') = feed bs s in ([], es, s'))
      else ([e], [], s))"

partial_function (option) recv_loop ::
  "('r, midi_entry) ring_ops \<Rightarrow> 'r \<Rightarrow> reassembler \<Rightarrow> midi_entry list \<Rightarrow> sysex_event list
    \<Rightarrow> ('r \<times> reassembler \<times> midi_entry list \<times> sysex_event list, unit) result option"
where
  "recv_loop R r s regular events =
     (case try_pop R r of
        None \<Rightarrow> Some (Ok (r, s, regular, events))
      | Some (e, r') \<Rightarrow>
          (case entry_bytes e of
             Ok bs \<Rightarrow> (case dispatch_entry e bs s of (ms, es, s') \<Rightarrow>
                 recv_loop R r' s' (regular @ ms) (events @ es))
           | Err u \<Rightarrow> Some (Err u)
           | Panic \<Rightarrow> Some Panic))"

definition recv_with_sysex :: "('r, midi_entry) ring_ops \<Rightarrow> 'r midi_input
    \<Rightarrow> ((midi_entry list \<times> sysex_event list) \<times> 'r midi_input, unit) result option" where
  "recv_with_sysex R inp =
     map_option (map_ok (\<lambda>(r, s, regular, events).
         ((regular, events), inp\<lparr>mi_ring := r, mi_sysex := s\<rparr>)))
       (recv_loop R (mi_ring inp) (mi_sysex inp) [] [])"

text \<open>
  The ports as they are opened: queues of 512 entries. The client, its port and its activation
  can fail.
\<close>

definition fresh_midi_output :: "('r, midi_entry) ring_ops \<Rightarrow> 'r midi_output" where
  "fresh_midi_output R = \<lparr>mo_ring = new_ring R 512, mo_cycles = 0\<rparr>"

definition fresh_midi_input :: "('r, midi_entry) ring_ops \<Rightarrow> 'r midi_input" where
  "fresh_midi_input R = \<lparr>mi_ring = new_ring R 512, mi_cycles = 0, mi_sysex = new_reassembler\<rparr>"

definition open_midi_output :: "('r, midi_entry) ring_ops \<Rightarrow> rstring option \<Rightarrow> rstring option
    \<Rightarrow> rstring option \<Rightarrow> ('r midi_output, oxi_error) result" where
  "open_midi_output R opened registered activated =
     and_then (client_call ''JACK client open'' opened) (\<lambda>_.
     and_then (client_call ''JACK port register'' registered) (\<lambda>_.
     and_then (client_call ''JACK activate_async'' activated) (\<lambda>_. Ok (fresh_midi_output R))))"

definition open_midi_input :: "('r, midi_entry) ring_ops \<Rightarrow> rstring option \<Rightarrow> rstring option
    \<Rightarrow> rstring option \<Rightarrow> ('r midi_input, oxi_error) result" where
  "open_midi_input R opened registered activated =
     and_then (client_call ''JACK client open'' opened) (\<lambda>_.
     and_then (client_call ''JACK port register'' registered) (\<lambda>_.
     and_then (client_call ''JACK activate_async'' activated) (\<lambda>_. Ok (fresh_midi_input R))))"

subsection \<open>Chunks and entries\<close>

lemma chunks_Nil [simp]: "chunks n [] = []"
  by (simp add: chunks.simps)

lemma chunks_Cons: "0 < n \<Longrightarrow> xs \<noteq> [] \<Longrightarrow> chunks n xs = take n xs # chunks n (drop n xs)"
  by (simp add: chunks.simps)

lemma concat_take_chunks: "0 < n \<Longrightarrow> concat (take k (chunks n xs)) = take (n * k) xs"
proof (induction n xs arbitrary: k rule: chunks.induct)
  case (1 n xs)
  show ?case
  proof (cases "xs = [] \<or> k = 0")
    case True
    then show ?thesis by auto
  next
    case False
    then obtain k' where k: "k = Suc k'" by (cases k) auto
    have "concat (take k' (chunks n (drop n xs))) = take (n * k') (drop n xs)"
      using 1(1) 1(2) False by blast
    then show ?thesis
      using 1(2) False by (simp add: k chunks_Cons [of n xs] take_add)
  qed
qed

lemma length_chunks_le: "0 < n \<Longrightarrow> length (chunks n xs) \<le> k \<longleftrightarrow> length xs \<le> n * k"
proof (induction n xs arbitrary: k rule: chunks.induct)
  case (1 n xs)
  show ?case
  proof (cases "xs = []")
    case True
    then show ?thesis by simp
  next
    case False
    have IH: "length (chunks n (drop n xs)) \<le> j \<longleftrightarrow> length xs - n \<le> n * j" for j
      using 1(1) [of j] 1(2) False by simp
    show ?thesis
      using 1(2) False by (cases k) (simp_all add: chunks_Cons [of n xs] IH le_diff_conv add.commute)
  qed
qed

lemma concat_chunks: "0 < n \<Longrightarrow> concat (chunks n xs) = xs"
  using concat_take_chunks [of n "length (chunks n xs)" xs] length_chunks_le [of n xs "length (chunks n xs)"]
  by simp

lemma chunks_bounds: "0 < n \<Longrightarrow> list_all (\<lambda>c. c \<noteq> [] \<and> length c \<le> n) (chunks n xs)"
proof (induction n xs rule: chunks.induct)
  case (1 n xs)
  show ?case
  proof (cases "xs = []")
    case False
    with 1(1) 1(2) have "list_all (\<lambda>c. c \<noteq> [] \<and> length c \<le> n) (chunks n (drop n xs))" by blast
    with 1(2) False show ?thesis by (simp add: chunks_Cons [of n xs])
  qed simp
qed

text \<open>The valid bytes of an entry, and the entries for which taking them does not panic.\<close>

definition valid_bytes :: "midi_entry \<Rightarrow> byte list" where
  "valid_bytes e = take (unat (e_len e)) (e_data e)"

definition entry_ok :: "midi_entry \<Rightarrow> bool" where
  "entry_ok e \<longleftrightarrow> unat (e_len e) \<le> length (e_data e)"

lemma entry_bytes_ok: "entry_ok e \<Longrightarrow> entry_bytes e = Ok (valid_bytes e)"
  by (simp add: entry_bytes_def entry_ok_def valid_bytes_def slice_def)

lemma make_entry_ok [simp]: "length bs \<le> 16 \<Longrightarrow> entry_ok (make_entry t bs)"
  by (simp add: entry_ok_def make_entry_def unat_of_nat)

lemma valid_bytes_make_entry [simp]: "length bs \<le> 16 \<Longrightarrow> valid_bytes (make_entry t bs) = bs"
  by (simp add: valid_bytes_def make_entry_def unat_of_nat)

lemma e_time_make_entry [simp]: "e_time (make_entry t bs) = t"
  by (simp add: make_entry_def)

subsection \<open>The loops over a queue\<close>

text \<open>What \<open>recv_with_sysex\<close> computes from the entries in the queue.\<close>

fun dispatch_all :: "midi_entry list \<Rightarrow> reassembler \<Rightarrow> midi_entry list \<times> sysex_event list \<times> reassembler" where
  "dispatch_all [] s = ([], [], s)"
| "dispatch_all (e # q) s =
     (let (ms, es, s') = dispatch_entry e (valid_bytes e) s; (ms', es', s'') = dispatch_all q s'
      in (ms @ ms', es @ es', s''))"

locale midi_ring = ring R contents cap
  for R :: "('r, midi_entry) ring_ops" and contents :: "'r \<Rightarrow> midi_entry list" and cap :: "'r \<Rightarrow> nat"
begin

lemma push_chunks_spec:
  "push_chunks R t cs r = (res, r') \<Longrightarrow>
     contents r' = contents r @ map (make_entry t) (take (room r) cs) \<and> cap r' = cap r \<and>
     res = (if length cs \<le> room r then Ok () else Err ring_full)"
proof (induction cs arbitrary: r)
  case Nil
  then show ?case by simp
next
  case (Cons c cs)
  show ?case
  proof (cases "try_push R (make_entry t c) r")
    case None
    then have "room r = 0" by (simp only: push_None)
    with None Cons.prems show ?thesis by auto
  next
    case (Some s)
    note s = push_Some [OF Some]
    then have "room r = Suc (room s)" by auto
    with Some s Cons.IH [of s] Cons.prems show ?thesis by auto
  qed
qed

lemma drain_output_spec:
  "list_all entry_ok (contents r) \<Longrightarrow>
     \<exists>r'. drain_output R wr r w = Some (Ok (r', fold (\<lambda>e. wr (e_time e) (valid_bytes e)) (contents r) w))
       \<and> contents r' = [] \<and> cap r' = cap r"
proof (induction "contents r" arbitrary: r w)
  case Nil
  then have "try_pop R r = None" by (simp add: pop_None)
  with Nil show ?case by (auto simp: drain_output.simps [of R wr r])
next
  case (Cons e q)
  then obtain x s where p: "try_pop R r = Some (x, s)" using pop_None [of r] by fastforce
  note s = pop_Some [OF p]
  with Cons(2) have x: "x = e" and q: "q = contents s" by auto
  from Cons(1) [OF q, of "wr (e_time e) (valid_bytes e) w"] Cons(2,3) s x q
  show ?case
    by (auto simp: drain_output.simps [of R wr r] p entry_bytes_ok)
qed

lemma recv_loop_spec:
  "list_all entry_ok (contents r) \<Longrightarrow>
     \<exists>r'. recv_loop R r s regular events =
       (case dispatch_all (contents r) s of
          (ms, es, s') \<Rightarrow> Some (Ok (r', s', regular @ ms, events @ es)))
       \<and> contents r' = [] \<and> cap r' = cap r"
proof (induction "contents r" arbitrary: r s regular events)
  case Nil
  then have "try_pop R r = None" by (simp add: pop_None)
  with Nil show ?case by (auto simp: recv_loop.simps [of R r] Nil(1) [symmetric])
next
  case (Cons e q)
  then obtain x r1 where p: "try_pop R r = Some (x, r1)" using pop_None [of r] by fastforce
  note r1 = pop_Some [OF p]
  with Cons(2) have x: "x = e" and q: "q = contents r1" by auto
  obtain ms es s1 where d: "dispatch_entry e (valid_bytes e) s = (ms, es, s1)"
    by (cases "dispatch_entry e (valid_bytes e) s") auto
  from Cons(1) [OF q, of s1 "regular @ ms" "events @ es"] Cons(2,3) r1 x q
  show ?case
    by (auto simp: recv_loop.simps [of R r] p entry_bytes_ok d split: prod.splits)
qed

end

interpretation midi_fifo: midi_ring fifo fst snd
  by (intro midi_ring.intro fifo_ring)

subsection \<open>Dispatching the chunks of one message\<close>

text \<open>
  Chunks that begin a message, or continue one that is open, and end it exactly at their end
  all go to the reassembler.
\<close>

definition awaits :: "byte list \<Rightarrow> reassembler \<Rightarrow> bool" where
  "awaits bs s \<longleftrightarrow>
     (if in_sysex s then list_all data_byte bs
      else (\<exists>p. bs = 0xF0 # p \<and> list_all data_byte p))"

lemma feed_data_open: "list_all data_byte c \<Longrightarrow> in_sysex s \<Longrightarrow> in_sysex (snd (feed c s))"
  using feed_inside [of c "sx_buffer s"] by (cases s) (simp add: list_all_iff)

lemma awaits_next:
  assumes "awaits (c @ bs) s" and "c \<noteq> []"
  shows "awaits bs (snd (feed c s)) \<and> (c ! 0 = 0xF0 \<or> in_sysex s)"
proof (cases "in_sysex s")
  case True
  with assms feed_data_open [of c s] show ?thesis by (simp add: awaits_def)
next
  case False
  with assms obtain c' where c: "c = 0xF0 # c'" "list_all data_byte c'" "list_all data_byte bs"
    by (auto simp: awaits_def append_eq_Cons_conv)
  with False feed_data_open [of c' "\<lparr>sx_buffer = [0xF0], in_sysex = True\<rparr>"]
  show ?thesis by (auto simp: awaits_def feed_byte_def split: prod.splits)
qed

lemma awaits_snoc:
  assumes "awaits bs s" and "c = bs @ [0xF7]"
  shows "c ! 0 = 0xF0 \<or> in_sysex s"
  using assms by (cases bs) (auto simp: awaits_def split: if_splits)

lemma dispatch_chunks:
  assumes "concat cs = bs @ [0xF7]" and "awaits bs s"
    and "list_all (\<lambda>c. c \<noteq> [] \<and> length c \<le> 16) cs"
  shows "dispatch_all (map (make_entry t) cs) s = ([], feed_chunks cs s)"
  using assms
proof (induction cs arbitrary: bs s)
  case Nil
  then show ?case by simp
next
  case (Cons c cs)
  obtain es s1 where f: "feed c s = (es, s1)" by (cases "feed c s")
  have c: "c \<noteq> []" "length c \<le> 16" using Cons.prems(3) by auto
  show ?case
  proof (cases cs)
    case Nil
    with Cons.prems awaits_snoc [of bs s c] c show ?thesis
      by (auto simp: dispatch_entry_def split: prod.splits)
  next
    case (Cons d ds)
    then obtain bs' where bs: "bs = c @ bs'" and rest: "concat cs = bs' @ [0xF7]"
      using Cons.prems(1,3) by (auto simp: append_eq_append_conv2 append_eq_Cons_conv Cons_eq_append_conv)
    from awaits_next [of c bs' s] Cons.prems(2) bs c f
    have a: "awaits bs' s1" "c ! 0 = 0xF0 \<or> in_sysex s" by auto
    have all: "list_all (\<lambda>c. c \<noteq> [] \<and> length c \<le> 16) cs" using Cons.prems(3) by simp
    from Cons.IH [OF rest a(1) all] a(2) c f show ?thesis
      by (auto simp: dispatch_entry_def split: prod.splits)
  qed
qed

text \<open>
  A JACK port as the code sees it: the events written in this cycle, and whether it has room for one more. JACK
  documents that a write can be refused for want of room, which \<open>process\<close> ignores, and asks for complete messages; so a
  server that takes no fragments is one that refuses them. A port that is connected to the written one gets
  the events that were taken.
\<close>

type_synonym port_events = "(32 word \<times> byte list) list"

definition port_write :: "(port_events \<Rightarrow> 32 word \<Rightarrow> byte list \<Rightarrow> bool) \<Rightarrow> 32 word \<Rightarrow> byte list \<Rightarrow> port_events \<Rightarrow> port_events" where
  "port_write room t bs w = (if room w t bs then w @ [(t, bs)] else w)"

text \<open>What the port keeps of pieces that are written one after the other, and whether it takes them all.\<close>

fun port_keeps :: "(port_events \<Rightarrow> 32 word \<Rightarrow> byte list \<Rightarrow> bool) \<Rightarrow> 32 word \<Rightarrow> byte list list \<Rightarrow> port_events \<Rightarrow> byte list list" where
  "port_keeps room t [] w = []"
| "port_keeps room t (c # cs) w =
     (if room w t c then c # port_keeps room t cs (w @ [(t, c)]) else port_keeps room t cs w)"

fun port_takes :: "(port_events \<Rightarrow> 32 word \<Rightarrow> byte list \<Rightarrow> bool) \<Rightarrow> 32 word \<Rightarrow> byte list list \<Rightarrow> port_events \<Rightarrow> bool" where
  "port_takes room t [] w = True"
| "port_takes room t (c # cs) w = (room w t c \<and> port_takes room t cs (w @ [(t, c)]))"

lemma port_keeps_all: "port_takes room t cs w \<Longrightarrow> port_keeps room t cs w = cs"
  by (induction cs arbitrary: w) auto

lemma port_keeps_le: "length (concat (port_keeps room t cs w)) \<le> length (concat cs)"
  by (induction cs arbitrary: w) (auto intro: le_trans trans_le_add2)

lemma port_keeps_fewer:
  "\<not> port_takes room t cs w \<Longrightarrow> list_all (\<lambda>c. c \<noteq> []) cs \<Longrightarrow>
     length (concat (port_keeps room t cs w)) < length (concat cs)"
proof (induction cs arbitrary: w)
  case (Cons c cs)
  show ?case
  proof (cases "room w t c")
    case False
    have "length (concat (port_keeps room t cs w)) \<le> length (concat cs)" by (rule port_keeps_le)
    with False Cons.prems(2) show ?thesis by (simp add: less_le_trans le_less_trans)
  qed (use Cons in auto)
qed simp

lemma port_keeps_bounds: "list_all P cs \<Longrightarrow> list_all P (port_keeps room t cs w)"
  by (induction cs arbitrary: w) auto

lemma length_port_keeps: "length (port_keeps room t cs w) \<le> length cs"
  by (induction cs arbitrary: w) (auto intro: le_SucI)

lemma fold_write_entries:
  "list_all (\<lambda>c. length c \<le> 16) cs \<Longrightarrow>
     fold (\<lambda>e. port_write room (e_time e) (valid_bytes e)) (map (make_entry t) cs) w
       = w @ map (Pair t) (port_keeps room t cs w)"
  by (induction cs arbitrary: w) (auto simp: port_write_def)

lemma map_input_entry: "list_all (\<lambda>c. length c \<le> 16) cs \<Longrightarrow>
    map input_entry (map (Pair t) cs) = map (make_entry t) cs"
  by (induction cs) (auto simp: input_entry_def Let_def min_def)

lemma input_entry_ok: "entry_ok (input_entry m)"
  by (auto simp: input_entry_def Let_def split: prod.splits)

lemma chunks_ok: "list_all (\<lambda>c. c \<noteq> [] \<and> length c \<le> 16) (chunks 16 bs)"
    "list_all (\<lambda>c. length c \<le> 16) (chunks 16 bs)"
    "list_all entry_ok (map (make_entry t) (chunks 16 bs))"
  using chunks_bounds [of 16 bs] by (auto simp: list_all_iff)

text \<open>One message through both ports, written out over an arbitrary queue and an arbitrary JACK port.\<close>

definition loopback :: "('r, midi_entry) ring_ops \<Rightarrow> (port_events \<Rightarrow> 32 word \<Rightarrow> byte list \<Rightarrow> bool) \<Rightarrow> midi_message
    \<Rightarrow> ((midi_entry list \<times> sysex_event list) \<times> 'r midi_input, unit) result option" where
  "loopback R room msg =
     (let (res, out) = send R msg (fresh_midi_output R)
      in if res = Ok () then
           (case output_process R (port_write room) out [] of
              Some (Ok (_, port)) \<Rightarrow> recv_with_sysex R (input_process R port (fresh_midi_input R))
            | _ \<Rightarrow> None)
         else None)"

text \<open>Whatever is dispatched, the complete messages are made of the bytes that went in.\<close>

fun complete_bytes :: "sysex_event list \<Rightarrow> nat" where
  "complete_bytes [] = 0"
| "complete_bytes (Complete m # es) = length m + complete_bytes es"
| "complete_bytes (Realtime b # es) = complete_bytes es"

lemma complete_bytes_append: "complete_bytes (xs @ ys) = complete_bytes xs + complete_bytes ys"
  by (induction xs rule: complete_bytes.induct) simp_all

lemma complete_bytes_member: "Complete m \<in> set es \<Longrightarrow> length m \<le> complete_bytes es"
  by (induction es rule: complete_bytes.induct) auto

lemma feed_whole:
  assumes "list_all data_byte payload"
  shows "feed (0xF0 # payload @ [0xF7]) new_reassembler = ([Complete (0xF0 # payload @ [0xF7])], new_reassembler)"
proof -
  have id: "filter is_realtime payload = []" "filter data_byte payload = payload"
    using assms data_byte_not_realtime by (auto simp: list_all_iff filter_empty_conv)
  have "list_all (\<lambda>b. data_byte b \<or> is_realtime b) payload"
    using assms by (simp add: list_all_iff)
  with id show ?thesis using feed_sysex [of payload new_reassembler] by (simp add: new_reassembler_def)
qed

lemma feed_bytes: "feed bs s = (es, s') \<Longrightarrow>
    complete_bytes es + length (sx_buffer s') \<le> length (sx_buffer s) + length bs"
proof (induction bs arbitrary: s es)
  case (Cons b bs)
  obtain es1 s1 where 1: "feed_byte b s = (es1, s1)" by (cases "feed_byte b s")
  obtain es2 where 2: "feed bs s1 = (es2, s')" "es = es1 @ es2" using Cons.prems 1 by (auto split: prod.splits)
  have "complete_bytes es1 + length (sx_buffer s1) \<le> length (sx_buffer s) + 1"
    using 1 by (auto simp: feed_byte_def split: if_splits)
  with Cons.IH [OF 2(1)] 2(2) show ?case by (simp add: complete_bytes_append)
qed simp

lemma dispatch_bytes:
  "dispatch_all q s = (ms, es, s') \<Longrightarrow>
     complete_bytes es + length (sx_buffer s') \<le> length (sx_buffer s) + length (concat (map valid_bytes q))"
proof (induction q arbitrary: s ms es)
  case (Cons e q)
  obtain ms1 es1 s1 where 1: "dispatch_entry e (valid_bytes e) s = (ms1, es1, s1)"
    by (cases "dispatch_entry e (valid_bytes e) s") auto
  obtain ms2 es2 where 2: "dispatch_all q s1 = (ms2, es2, s')" "es = es1 @ es2" using Cons.prems 1 by (auto split: prod.splits)
  have "complete_bytes es1 + length (sx_buffer s1) \<le> length (sx_buffer s) + length (valid_bytes e)"
    using 1 feed_bytes [of "valid_bytes e" s es1 s1] by (auto simp: dispatch_entry_def split: if_splits prod.splits)
  with Cons.IH [OF 2(1)] 2(2) show ?case by (simp add: complete_bytes_append)
qed simp

context midi_ring
begin

lemma send_raw_contents:
  assumes "send_raw R t bs out = (res, out')"
  shows "contents (mo_ring out') = contents (mo_ring out) @ map (make_entry t) (take (room (mo_ring out)) (chunks 16 bs))
    \<and> res = (if length bs \<le> 16 * room (mo_ring out) then Ok () else Err ring_full)
    \<and> mo_cycles out' = mo_cycles out"
  using assms push_chunks_spec [of t "chunks 16 bs" "mo_ring out"]
  by (auto simp: send_raw_def Let_def length_chunks_le split: prod.splits)

lemma send_port:
  assumes "length (to_bytes msg) \<le> 8192"
  shows "\<exists>out out'. send R msg (fresh_midi_output R) = (Ok (), out) \<and>
    output_process R (port_write room') out [] =
      Some (Ok (out', map (Pair 0) (port_keeps room' 0 (chunks 16 (to_bytes msg)) [])))"
proof -
  let ?cs = "chunks 16 (to_bytes msg)"
  obtain res out where s: "send R msg (fresh_midi_output R) = (res, out)" by fastforce
  have room: "room (mo_ring (fresh_midi_output R)) = 512"
    and empty: "contents (mo_ring (fresh_midi_output R)) = []"
    using new_spec by (simp_all add: fresh_midi_output_def)
  have len: "length ?cs \<le> 512" using assms by (simp add: length_chunks_le)
  from send_raw_contents [OF s [unfolded send_def]] assms room empty len
  have res: "res = Ok ()" and c: "contents (mo_ring out) = map (make_entry 0) ?cs" by simp_all
  from drain_output_spec [of "mo_ring out" "port_write room'" "[]"] c chunks_ok
  show ?thesis
    by (auto simp: s res output_process_def fold_write_entries)
qed

lemma input_recv:
  assumes "length msgs \<le> 512"
  shows "\<exists>inp. recv_with_sysex R (input_process R msgs (fresh_midi_input R)) =
    (case dispatch_all (map input_entry msgs) new_reassembler of
       (ms, es, s) \<Rightarrow> Some (Ok ((ms, es), inp\<lparr>mi_sysex := s\<rparr>)))"
proof -
  let ?inp = "input_process R msgs (fresh_midi_input R)"
  have room: "room (mi_ring (fresh_midi_input R)) = 512"
    and empty: "contents (mi_ring (fresh_midi_input R)) = []"
    using new_spec by (simp_all add: fresh_midi_input_def)
  obtain r k where off: "offer_all R (map input_entry msgs) (mi_ring (fresh_midi_input R)) = (r, k)"
    by fastforce
  have c: "contents (mi_ring ?inp) = map input_entry msgs"
    using offer_all_spec [OF off] off room empty assms by (simp add: input_process_def)
  have s: "mi_sysex ?inp = new_reassembler"
    by (simp add: input_process_def fresh_midi_input_def split: prod.splits)
  have "list_all entry_ok (contents (mi_ring ?inp))"
    by (auto simp: c list_all_iff input_entry_ok)
  from recv_loop_spec [OF this, of new_reassembler "[]" "[]"] c
  obtain r' where "recv_loop R (mi_ring ?inp) new_reassembler [] [] =
      (case dispatch_all (map input_entry msgs) new_reassembler of
          (ms, es, s') \<Rightarrow> Some (Ok (r', s', ms, es)))" by auto
  then show ?thesis
    by (auto simp: recv_with_sysex_def s split: prod.splits intro!: exI [of _ "?inp\<lparr>mi_ring := r'\<rparr>"])
qed

lemma loopback_recv:
  assumes "length (to_bytes msg) \<le> 8192"
  shows "\<exists>inp. loopback R room' msg =
    (case dispatch_all (map (make_entry 0) (port_keeps room' 0 (chunks 16 (to_bytes msg)) [])) new_reassembler of
       (ms, es, s) \<Rightarrow> Some (Ok ((ms, es), inp\<lparr>mi_sysex := s\<rparr>)))"
proof -
  let ?kept = "port_keeps room' 0 (chunks 16 (to_bytes msg)) []"
  from send_port [OF assms, of room'] obtain out out' where o: "send R msg (fresh_midi_output R) = (Ok (), out)"
    "output_process R (port_write room') out [] = Some (Ok (out', map (Pair 0) ?kept))" by blast
  have "length (chunks 16 (to_bytes msg)) \<le> 512" using assms by (simp add: length_chunks_le)
  then have "length (map (Pair (0 :: 32 word)) ?kept) \<le> 512"
    using length_port_keeps [of room' 0 "chunks 16 (to_bytes msg)" "[]"] by simp
  from input_recv [OF this] show ?thesis
    by (simp add: loopback_def o map_input_entry [OF port_keeps_bounds [OF chunks_ok(2)]] del: map_map)
qed

end

subsection \<open>Properties\<close>

text \<open>
  C19: A System Exclusive message of up to 8190 data bytes is sent to a freshly opened output port, written by its
  process callback to a JACK port, and received from there by a freshly opened input port. The JACK port may refuse any
  write and hands on the fragments it takes unchanged, one event each (JACK documents events as complete
  messages, which the fragments are not; a port that merges or rejects them for that is not covered). Whatever the queues are and whichever writes the JACK port refuses, the send succeeds
  and none of the loops runs forever or panics. The message comes back, as one complete message with no regular entry left
  over, exactly when the port takes all fragments of 16 bytes; when it refuses one, the send has said nothing.
\<close>

theorem sysex_loopback:
  assumes "ring R contents cap"
    and "list_all data_byte payload" and "length payload \<le> 8190"
  shows "case loopback R room (new_sysex payload) of
     Some (Ok ((ms, es), inp)) \<Rightarrow>
       if port_takes room 0 (chunks 16 (0xF0 # payload @ [0xF7])) []
       then ms = [] \<and> es = [Complete (0xF0 # payload @ [0xF7])] \<and> mi_sysex inp = new_reassembler
       else Complete (0xF0 # payload @ [0xF7]) \<notin> set es
   | _ \<Rightarrow> False"
proof -
  let ?m = "0xF0 # payload @ [0xF7]"
  have b: "to_bytes (new_sysex payload) = ?m"
    by (simp add: to_bytes_def new_sysex_def is_sysex_def)
  obtain ms es s where d: "dispatch_all (map (make_entry 0) (port_keeps room 0 (chunks 16 ?m) [])) new_reassembler = (ms, es, s)"
    by (cases "dispatch_all (map (make_entry 0) (port_keeps room 0 (chunks 16 ?m) [])) new_reassembler") auto
  from midi_ring.loopback_recv [OF midi_ring.intro [OF assms(1)], of "new_sysex payload" room] assms(3) d
  obtain inp where l: "loopback R room (new_sysex payload) = Some (Ok ((ms, es), inp\<lparr>mi_sysex := s\<rparr>))"
    by (auto simp: b)
  show ?thesis
  proof (cases "port_takes room 0 (chunks 16 ?m) []")
    case True
    have cat: "concat (chunks 16 ?m) = (0xF0 # payload) @ [0xF7]" by (simp add: concat_chunks)
    have "awaits (0xF0 # payload) new_reassembler" using assms(2) by (simp add: awaits_def new_reassembler_def)
    from dispatch_chunks [OF cat this chunks_ok(1), of 0] have "(ms, es, s) = ([], feed ?m new_reassembler)"
      using d by (simp add: port_keeps_all [OF True] feed_chunks_concat cat)
    then show ?thesis by (simp add: l True feed_whole [OF assms(2)] del: feed.simps)
  next
    case False
    have ok: "list_all (\<lambda>c. c \<noteq> []) (chunks 16 ?m)" "list_all (\<lambda>c. length c \<le> 16) (chunks 16 ?m)"
      using chunks_ok(1) [of ?m] by (auto simp: list_all_iff)
    have vb: "map (valid_bytes \<circ> make_entry 0) cs = cs" if "list_all (\<lambda>c. length c \<le> 16) cs" for cs
      using that by (induction cs) auto
    have "length (concat (port_keeps room 0 (chunks 16 ?m) [])) < length ?m"
      using port_keeps_fewer [OF False ok(1)] by (simp add: concat_chunks)
    with dispatch_bytes [OF d] have "complete_bytes es < length ?m"
      by (simp add: vb [OF port_keeps_bounds [OF ok(2)]] new_reassembler_def)
    then have "Complete ?m \<notin> set es" using complete_bytes_member [of ?m es] by auto
    with False show ?thesis by (simp add: l)
  qed
qed

text \<open>A message of two fragments, and a port with room for both or only for one.\<close>

theorem sysex_loopback_witness:
  "(case loopback fifo (\<lambda>w t bs. length w < 2) (new_sysex (replicate 20 0x11)) of
     Some (Ok ((ms, es), inp)) \<Rightarrow> ms = [] \<and> es = [Complete (0xF0 # replicate 20 0x11 @ [0xF7])]
   | _ \<Rightarrow> False) \<and>
   (case loopback fifo (\<lambda>w t bs. length w < 1) (new_sysex (replicate 20 0x11)) of
     Some (Ok ((ms, es), inp)) \<Rightarrow> Complete (0xF0 # replicate 20 0x11 @ [0xF7]) \<notin> set es
   | _ \<Rightarrow> False)"
proof -
  have "chunks 16 (0xF0 # replicate 20 0x11 @ [0xF7 :: byte]) = [0xF0 # replicate 15 0x11, replicate 5 0x11 @ [0xF7]]"
    by (simp add: chunks_Cons numeral_eq_Suc)
  then have "port_takes (\<lambda>w t bs. length w < 2) 0 (chunks 16 (0xF0 # replicate 20 0x11 @ [0xF7])) []"
    and "\<not> port_takes (\<lambda>w t bs. length w < 1) 0 (chunks 16 (0xF0 # replicate 20 0x11 @ [0xF7])) []" by simp_all
  moreover have "list_all data_byte (replicate 20 0x11)" by (simp add: list_all_iff)
  ultimately show ?thesis
    using sysex_loopback [OF fifo_ring, of "replicate 20 0x11" "\<lambda>w t bs. length w < 2"]
      sysex_loopback [OF fifo_ring, of "replicate 20 0x11" "\<lambda>w t bs. length w < 1"]
    by (auto split: option.splits result.splits prod.splits)
qed

text \<open>
  Sending bytes queues them in entries of 1 to 16 bytes with the given time, as many as the
  queue has room for and in order, and reports an underrun exactly when they do not all fit; what was queued
  before the error stays queued.
\<close>

lemma send_raw_spec:
  assumes "ring R contents cap" and "send_raw R t bs out = (res, out')"
  shows "\<exists>es. contents (mo_ring out') = contents (mo_ring out) @ es \<and>
    list_all (\<lambda>e. e_time e = t \<and> entry_ok e \<and> valid_bytes e \<noteq> [] \<and> length (valid_bytes e) \<le> 16) es \<and>
    concat (map valid_bytes es) = take (16 * (cap (mo_ring out) - length (contents (mo_ring out)))) bs \<and>
    res = (if length bs \<le> 16 * (cap (mo_ring out) - length (contents (mo_ring out)))
           then Ok () else Err ring_full)"
proof -
  let ?n = "cap (mo_ring out) - length (contents (mo_ring out))"
  let ?cs = "take ?n (chunks 16 bs)"
  have ok: "list_all (\<lambda>c. c \<noteq> [] \<and> length c \<le> 16) ?cs"
    using chunks_ok(1) [of bs] by (auto simp: list_all_iff dest: in_set_takeD)
  then have vb: "map valid_bytes (map (make_entry t) ?cs) = ?cs"
    by (induction ?cs) (auto simp: list_all_iff intro: map_idI)
  have "list_all (\<lambda>e. e_time e = t \<and> entry_ok e \<and> valid_bytes e \<noteq> [] \<and> length (valid_bytes e) \<le> 16)
      (map (make_entry t) ?cs)"
    using ok by (auto simp: list_all_iff)
  moreover have "concat (map valid_bytes (map (make_entry t) ?cs)) = take (16 * ?n) bs"
    by (simp only: vb) (simp add: concat_take_chunks)
  ultimately show ?thesis
    using midi_ring.send_raw_contents [OF midi_ring.intro [OF assms(1)] assms(2)]
    by (intro exI [of _ "map (make_entry t) ?cs"]) simp
qed

text \<open>So the output is a port of the trait; what has gone out is what the queue has taken.\<close>

interpretation jack_port: midi_port "send fifo" "\<lambda>out. concat (map valid_bytes (fst (mo_ring out)))"
proof
  fix msg u and s s' :: "midi_entry fifo midi_output"
  assume "send fifo msg s = (Ok u, s')"
  then show "concat (map valid_bytes (fst (mo_ring s'))) = concat (map valid_bytes (fst (mo_ring s))) @ to_bytes msg"
    using send_raw_spec [OF fifo_ring, of 0 "to_bytes msg" s "Ok u" s'] by (auto simp: send_def split: if_splits)
next
  fix msg e and s s' :: "midi_entry fifo midi_output"
  assume "send fifo msg s = (Err e, s')"
  then obtain es where "fst (mo_ring s') = fst (mo_ring s) @ es"
    "concat (map valid_bytes es) = take (16 * (snd (mo_ring s) - length (fst (mo_ring s)))) (to_bytes msg)"
    using send_raw_spec [OF fifo_ring, of 0 "to_bytes msg" s "Err e" s'] by (auto simp: send_def)
  then show "\<exists>part rest. to_bytes msg = part @ rest \<and>
      concat (map valid_bytes (fst (mo_ring s'))) = concat (map valid_bytes (fst (mo_ring s))) @ part"
    by (metis append_take_drop_id concat_append map_append)
qed

text \<open>
  The input callback keeps only the first 16 bytes of a message of the JACK port. So a
  System Exclusive message that the port delivers in one piece of more than 16 bytes never
  completes, and it also swallows the next channel message: the caller gets nothing.
\<close>

lemma long_port_sysex_lost:
  assumes "ring R contents cap"
    and "list_all data_byte payload" and "14 < length payload"
    and "data_byte k" and "data_byte v"
  shows "\<exists>inp. recv_with_sysex R
      (input_process R [(t, 0xF0 # payload @ [0xF7]), (t', [0x90, k, v])] (fresh_midi_input R))
    = Some (Ok (([], []), inp))"
proof -
  let ?open = "\<lparr>sx_buffer = 0xF0 # take 15 payload, in_sysex = True\<rparr>"
  have data15: "list_all data_byte (take 15 payload)"
    using assms(2) by (auto simp: list_all_iff dest: in_set_takeD)
  then have id: "filter is_realtime (take 15 payload) = []" "filter data_byte (take 15 payload) = take 15 payload"
    using data_byte_not_realtime by (auto simp: list_all_iff filter_empty_conv)
  have "take 16 (0xF0 # payload @ [0xF7]) = 0xF0 # take 15 payload"
    using assms(3) by simp
  then have e1: "valid_bytes (input_entry (t, 0xF0 # payload @ [0xF7])) = 0xF0 # take 15 payload"
    using assms(3) by (simp add: input_entry_def)
  have e2: "valid_bytes (input_entry (t', [0x90, k, v])) = [0x90, k, v]"
    by (simp add: input_entry_def)
  have "feed (0xF0 # take 15 payload) new_reassembler = ([], ?open)"
    using feed_inside [of "take 15 payload" "[0xF0]"] data15 id
    by (simp add: feed_byte_def new_reassembler_def list_all_iff)
  moreover have "feed [0x90, k, v] ?open = ([], new_reassembler)"
    using assms(4,5) by (auto simp: feed_byte_def new_reassembler_def)
  ultimately have "dispatch_all (map input_entry [(t, 0xF0 # payload @ [0xF7]), (t', [0x90, k, v])]) new_reassembler
      = ([], [], new_reassembler)"
    by (simp add: dispatch_entry_def e1 e2)
  with midi_ring.input_recv [OF midi_ring.intro [OF assms(1)],
      of "[(t, 0xF0 # payload @ [0xF7]), (t', [0x90, k, v])]"]
  show ?thesis by auto
qed

theorem long_port_sysex_lost_witness:
  "\<exists>inp. recv_with_sysex fifo
      (input_process fifo [(0, 0xF0 # replicate 20 0x11 @ [0xF7]), (9, [0x90, 0x40, 0x7F])]
        (fresh_midi_input fifo))
    = Some (Ok (([], []), inp))"
  by (rule long_port_sysex_lost [OF fifo_ring]) (simp_all add: list_all_iff)

end
