(* ===== verification/Cpal_Adaptive.thy ===== *)
theory Cpal_Adaptive
  imports Prelude
begin

text \<open>
  The adaptive buffer-size policy of \<open>crates/oxisound-cpal/src/adaptive.rs\<close>: a state machine
  over 32-bit sizes that doubles on an underrun and halves after enough stable periods.
\<close>

record sizer =
  sz_initial :: "32 word"
  sz_min :: "32 word"
  sz_max :: "32 word"
  sz_current :: "32 word"
  sz_threshold :: "32 word"
  sz_stable :: "32 word"
  sz_changed :: bool

text \<open>\<open>new\<close>; \<open>clamp\<close> with its bounds in order.\<close>

definition new_sizer :: "32 word \<Rightarrow> 32 word \<Rightarrow> 32 word \<Rightarrow> 32 word \<Rightarrow> sizer" where
  "new_sizer initial lo hi threshold =
     (let lo = max lo 1;
          hi = max hi lo;
          initial = min (max initial lo) hi
      in \<lparr>sz_initial = initial, sz_min = lo, sz_max = hi, sz_current = initial,
           sz_threshold = max threshold 1, sz_stable = 0, sz_changed = False\<rparr>)"

definition record_underrun :: "sizer \<Rightarrow> 32 word \<times> sizer" where
  "record_underrun s =
     (let grown = min (saturating_mul (sz_current s) 2) (sz_max s)
      in (grown, s\<lparr>sz_stable := 0, sz_changed := grown \<noteq> sz_current s, sz_current := grown\<rparr>))"

text \<open>The increment of the counter is the plain \<open>+=\<close>, which would panic on overflow.\<close>

definition record_stable_period :: "sizer \<Rightarrow> (32 word \<times> sizer, unit) result" where
  "record_stable_period s =
     (if sz_current s \<le> sz_initial s
      then Ok (sz_current s, s\<lparr>sz_changed := False, sz_stable := 0\<rparr>)
      else if sz_stable s = - 1 then Panic
      else
        (let count = sz_stable s + 1
         in if sz_threshold s \<le> count then
              (let floor = max (sz_min s) (sz_initial s);
                   shrunk = max (sz_current s div 2) floor
               in Ok (shrunk, s\<lparr>sz_stable := 0, sz_changed := shrunk \<noteq> sz_current s, sz_current := shrunk\<rparr>))
            else Ok (sz_current s, s\<lparr>sz_stable := count, sz_changed := False\<rparr>)))"

definition reset_sizer :: "sizer \<Rightarrow> sizer" where
  "reset_sizer s = s\<lparr>sz_current := sz_initial s, sz_stable := 0, sz_changed := False\<rparr>"

subsection \<open>Runs\<close>

datatype sizer_event = Underran | StablePeriod | Reset

fun sizer_step :: "sizer_event \<Rightarrow> sizer \<Rightarrow> (sizer, unit) result" where
  "sizer_step Underran s = Ok (snd (record_underrun s))"
| "sizer_step StablePeriod s = map_ok snd (record_stable_period s)"
| "sizer_step Reset s = Ok (reset_sizer s)"

fun sizer_run :: "sizer_event list \<Rightarrow> sizer \<Rightarrow> (sizer, unit) result" where
  "sizer_run [] s = Ok s"
| "sizer_run (e # es) s = and_then (sizer_step e s) (sizer_run es)"

subsection \<open>The invariant\<close>

definition sizer_ok :: "sizer \<Rightarrow> bool" where
  "sizer_ok s \<longleftrightarrow> 1 \<le> sz_min s \<and> sz_min s \<le> sz_initial s \<and> sz_initial s \<le> sz_current s \<and>
     sz_current s \<le> sz_max s \<and> sz_stable s < sz_threshold s"

text \<open>The parameters, which no operation changes.\<close>

definition same_params :: "sizer \<Rightarrow> sizer \<Rightarrow> bool" where
  "same_params s t \<longleftrightarrow> sz_initial t = sz_initial s \<and> sz_min t = sz_min s \<and> sz_max t = sz_max s \<and>
     sz_threshold t = sz_threshold s"

lemma less_imp_not_max: "(a :: 'a::len word) < b \<Longrightarrow> a \<noteq> - 1"
  by (metis not_less word_order.extremum)

lemma unat_count:
  assumes "(a :: 32 word) < b"
  shows "unat (a + 1) = Suc (unat a)"
proof -
  have "Suc (unat a) < 4294967296"
    using assms unat_u32_less [of b] unfolding word_less_nat_alt by linarith
  then show ?thesis by (simp add: unat_word_ariths(1))
qed

lemma half_le: "(a :: 32 word) div 2 \<le> a"
  by (simp add: word_le_nat_alt unat_div)

lemma new_sizer_ok: "sizer_ok (new_sizer i lo hi t)"
proof -
  have "1 \<le> max lo 1" and "0 < max t (1 :: 32 word)"
    by (simp_all add: less_max_iff_disj)
  then show ?thesis
    by (simp add: new_sizer_def sizer_ok_def Let_def)
qed

lemma grown_ge:
  assumes "sz_current s \<le> sz_max s"
  shows "sz_current s \<le> min (saturating_mul (sz_current s) 2) (sz_max s)"
proof -
  have "sz_current s \<le> saturating_mul (sz_current s) 2"
  proof -
    have "unat (sz_current s) \<le> 4294967295"
      using unat_u32_less [of "sz_current s"] by linarith
    then show ?thesis by (simp add: word_le_nat_alt unat_saturating_mul)
  qed
  with assms show ?thesis by simp
qed

lemma stable_period_cases:
  assumes "sizer_ok s"
  shows "record_stable_period s =
    (if sz_current s = sz_initial s then Ok (sz_initial s, s\<lparr>sz_changed := False, sz_stable := 0\<rparr>)
     else if unat (sz_stable s) + 1 < unat (sz_threshold s)
       then Ok (sz_current s, s\<lparr>sz_stable := sz_stable s + 1, sz_changed := False\<rparr>)
     else (let shrunk = max (sz_current s div 2) (sz_initial s)
           in Ok (shrunk, s\<lparr>sz_stable := 0, sz_changed := shrunk \<noteq> sz_current s, sz_current := shrunk\<rparr>)))"
proof -
  have ne: "sz_stable s \<noteq> - 1" and lt: "sz_stable s < sz_threshold s"
    using assms less_imp_not_max by (auto simp: sizer_ok_def)
  have u: "unat (sz_stable s + 1) = unat (sz_stable s) + 1"
    using unat_count [OF lt] by simp
  have init: "sz_current s \<le> sz_initial s \<longleftrightarrow> sz_current s = sz_initial s"
    and floor: "max (sz_min s) (sz_initial s) = sz_initial s"
    using assms by (auto simp: sizer_ok_def max_def)
  have th: "sz_threshold s \<le> sz_stable s + 1 \<longleftrightarrow> \<not> unat (sz_stable s) + 1 < unat (sz_threshold s)"
    by (simp add: word_le_nat_alt u not_less)
  show ?thesis
    by (simp add: record_stable_period_def init floor ne Let_def th)
qed

lemma threshold_pos: "sizer_ok s \<Longrightarrow> 0 < sz_threshold s"
  using le_less_trans [OF word_zero_le, of "sz_stable s" "sz_threshold s"] by (simp add: sizer_ok_def)

lemma sizer_step_ok:
  assumes "sizer_ok s"
  shows "\<exists>t. sizer_step e s = Ok t \<and> sizer_ok t \<and> same_params s t"
proof (cases e)
  case Underran
  have "sz_initial s \<le> min (saturating_mul (sz_current s) 2) (sz_max s)"
    using grown_ge [of s] assms by (auto simp: sizer_ok_def)
  with Underran assms threshold_pos [OF assms] show ?thesis
    by (auto simp: record_underrun_def sizer_ok_def same_params_def Let_def)
next
  case StablePeriod
  have "max (sz_current s div 2) (sz_initial s) \<le> sz_max s"
    using half_le [of "sz_current s"] assms by (auto simp: sizer_ok_def)
  moreover have "unat (sz_stable s) + 1 < unat (sz_threshold s) \<Longrightarrow> sz_stable s + 1 < sz_threshold s"
    using unat_count [of "sz_stable s" "sz_threshold s"] assms
    by (simp add: sizer_ok_def word_less_nat_alt)
  ultimately show ?thesis
    using assms StablePeriod threshold_pos [OF assms]
    by (auto simp: stable_period_cases sizer_ok_def same_params_def Let_def)
next
  case Reset
  with assms threshold_pos [OF assms] show ?thesis
    by (auto simp: reset_sizer_def sizer_ok_def same_params_def)
qed

lemma sizer_step_keeps: "sizer_ok s \<Longrightarrow> sizer_step e s = Ok t \<Longrightarrow> sizer_ok t"
  using sizer_step_ok [of s e] by auto

lemma sizer_run_append: "sizer_run (xs @ ys) s = and_then (sizer_run xs s) (sizer_run ys)"
proof (induction xs arbitrary: s)
  case (Cons e es)
  then show ?case by (cases "sizer_step e s") auto
qed simp

lemma same_params_trans: "same_params s t \<Longrightarrow> same_params t u \<Longrightarrow> same_params s u"
  by (simp add: same_params_def)

lemma sizer_run_ok:
  "sizer_ok s \<Longrightarrow> \<exists>t. sizer_run es s = Ok t \<and> sizer_ok t \<and> same_params s t"
proof (induction es arbitrary: s)
  case Nil
  then show ?case by (simp add: same_params_def)
next
  case (Cons e es)
  from sizer_step_ok [OF Cons.prems, of e] obtain t where
    t: "sizer_step e s = Ok t" "sizer_ok t" "same_params s t" by blast
  from Cons.IH [OF t(2)] t show ?case by (auto intro: same_params_trans)
qed

subsection \<open>Shrinking back\<close>

abbreviation stable_run :: "nat \<Rightarrow> sizer \<Rightarrow> (sizer, unit) result" where
  "stable_run n s \<equiv> sizer_run (replicate n StablePeriod) s"

lemma stable_run_add: "stable_run (m + n) s = and_then (stable_run m s) (stable_run n)"
  by (simp add: replicate_add sizer_run_append)

lemma at_initial:
  "sizer_ok s \<Longrightarrow> sz_current s = sz_initial s \<Longrightarrow>
     \<exists>t. stable_run n s = Ok t \<and> sizer_ok t \<and> same_params s t \<and> sz_current t = sz_initial s"
proof (induction n arbitrary: s)
  case 0
  then show ?case by (simp add: same_params_def)
next
  case (Suc n)
  let ?t = "s\<lparr>sz_changed := False, sz_stable := 0\<rparr>"
  have t: "sizer_step StablePeriod s = Ok ?t"
    using Suc.prems by (simp add: stable_period_cases)
  moreover have "sizer_ok ?t" by (rule sizer_step_keeps [OF Suc.prems(1) t])
  ultimately show ?case using Suc.IH [of ?t] Suc.prems(2) by (auto simp: same_params_def)
qed

lemma one_halving:
  "sizer_ok s \<Longrightarrow> sz_current s \<noteq> sz_initial s \<Longrightarrow> unat (sz_threshold s) = unat (sz_stable s) + Suc d \<Longrightarrow>
     \<exists>t. stable_run (Suc d) s = Ok t \<and> sizer_ok t \<and> same_params s t \<and> sz_stable t = 0 \<and>
       unat (sz_current t) = max (unat (sz_current s) div 2) (unat (sz_initial s))"
proof (induction d arbitrary: s)
  case 0
  let ?h = "max (sz_current s div 2) (sz_initial s)"
  let ?t = "s\<lparr>sz_stable := 0, sz_changed := ?h \<noteq> sz_current s, sz_current := ?h\<rparr>"
  have t: "sizer_step StablePeriod s = Ok ?t"
    using 0 by (simp add: stable_period_cases Let_def)
  moreover have "sizer_ok ?t" by (rule sizer_step_keeps [OF 0(1) t])
  moreover have "unat ?h = max (unat (sz_current s) div 2) (unat (sz_initial s))"
    by (simp add: max_def word_le_nat_alt unat_div)
  ultimately show ?case by (intro exI [of _ ?t]) (simp add: same_params_def)
next
  case (Suc d)
  let ?t = "s\<lparr>sz_stable := sz_stable s + 1, sz_changed := False\<rparr>"
  have t: "sizer_step StablePeriod s = Ok ?t"
    using Suc.prems by (simp add: stable_period_cases Let_def)
  moreover have "sizer_ok ?t" by (rule sizer_step_keeps [OF Suc.prems(1) t])
  moreover have "unat (sz_stable s + 1) = Suc (unat (sz_stable s))"
    using Suc.prems(1) by (auto simp: sizer_ok_def intro: unat_count)
  ultimately show ?case using Suc.IH [of ?t] Suc.prems(2,3) by (auto simp: same_params_def)
qed

lemma shrinks_back:
  "sizer_ok s \<Longrightarrow> unat (sz_current s) \<le> 2 ^ k * unat (sz_initial s) \<Longrightarrow>
     \<exists>t. stable_run (k * unat (sz_threshold s)) s = Ok t \<and> sizer_ok t \<and> same_params s t \<and>
       sz_current t = sz_initial s"
proof (induction k arbitrary: s)
  case 0
  then have "sz_current s \<le> sz_initial s" by (simp add: word_le_nat_alt)
  with 0 have "sz_current s = sz_initial s" by (simp add: sizer_ok_def)
  with 0 show ?case by (simp add: same_params_def)
next
  case (Suc k)
  let ?th = "unat (sz_threshold s)"
  show ?case
  proof (cases "sz_current s = sz_initial s")
    case True
    with at_initial [OF Suc.prems(1)] show ?thesis by auto
  next
    case False
    have "unat (sz_stable s) < ?th" using Suc.prems(1) by (simp add: sizer_ok_def word_less_nat_alt)
    then obtain d where d: "?th = unat (sz_stable s) + Suc d" by (metis less_iff_Suc_add add_Suc_right)
    from one_halving [OF Suc.prems(1) False d] obtain t where
      t: "stable_run (Suc d) s = Ok t" "sizer_ok t" "same_params s t"
        "unat (sz_current t) = max (unat (sz_current s) div 2) (unat (sz_initial s))" by blast
    have "unat (sz_current t) \<le> 2 ^ k * unat (sz_initial t)"
      using t(3,4) Suc.prems(2) by (auto simp: same_params_def max_def)
    from Suc.IH [OF t(2) this] t(3) obtain u where
      u: "stable_run (k * ?th) t = Ok u" "sizer_ok u" "same_params t u" "sz_current u = sz_initial t"
      by (auto simp: same_params_def)
    from at_initial [OF u(2), of "unat (sz_stable s)"] u(3,4) obtain v where
      v: "stable_run (unat (sz_stable s)) u = Ok v" "sizer_ok v" "same_params u v" "sz_current v = sz_initial u"
      by (auto simp: same_params_def)
    have "Suc k * ?th = Suc d + (k * ?th + unat (sz_stable s))" using d by simp
    then have "stable_run (Suc k * ?th) s = Ok v"
      by (simp only: stable_run_add t(1) u(1) v(1) and_then.simps)
    then show ?thesis
      using t(3) u(3) v by (auto simp: same_params_def)
  qed
qed

text \<open>How large the buffer can have grown.\<close>

fun growths :: "sizer_event list \<Rightarrow> nat" where
  "growths [] = 0"
| "growths (e # es) = (if e = Underran then 1 else 0) + growths es"

lemma step_growth:
  assumes "sizer_ok s" and "sizer_step e s = Ok t"
  shows "unat (sz_current t) \<le> (if e = Underran then 2 else 1) * unat (sz_current s)"
proof (cases e)
  case Underran
  with assms show ?thesis
    by (auto simp: record_underrun_def Let_def unat_saturating_mul min_def word_le_nat_alt)
next
  case StablePeriod
  have "unat (max (sz_current s div 2) (sz_initial s)) \<le> unat (sz_current s)"
    using assms(1) half_le by (simp add: word_le_nat_alt [symmetric] sizer_ok_def)
  with StablePeriod assms show ?thesis
    by (auto simp: stable_period_cases Let_def split: if_splits)
next
  case Reset
  with assms show ?thesis by (auto simp: reset_sizer_def sizer_ok_def word_le_nat_alt)
qed

lemma run_growth:
  "sizer_ok s \<Longrightarrow> sizer_run es s = Ok t \<Longrightarrow> unat (sz_current t) \<le> 2 ^ growths es * unat (sz_current s)"
proof (induction es arbitrary: s)
  case Nil
  then show ?case by simp
next
  case (Cons e es)
  from sizer_step_ok [OF Cons.prems(1), of e] obtain u where
    u: "sizer_step e s = Ok u" "sizer_ok u" by blast
  have "unat (sz_current t) \<le> 2 ^ growths es * unat (sz_current u)"
    using Cons.IH [OF u(2)] Cons.prems(2) u(1) by simp
  also have "\<dots> \<le> 2 ^ growths es * ((if e = Underran then 2 else 1) * unat (sz_current s))"
    by (rule mult_le_mono2) (rule step_growth [OF Cons.prems(1) u(1)])
  finally show ?case by (simp add: ac_simps split: if_splits)
qed

subsection \<open>Properties\<close>

text \<open>
  Whatever arguments the sizer is built with and whatever it records, it does not panic, and
  its size stays between the normalised minimum and maximum and never falls below the initial
  size; the counter of stable periods stays below the threshold.
\<close>

lemma adaptive_bounds:
  "\<exists>t. sizer_run es (new_sizer initial lo hi threshold) = Ok t \<and>
     max lo 1 \<le> sz_current t \<and> sz_current t \<le> max hi (max lo 1) \<and>
     min (max initial (max lo 1)) (max hi (max lo 1)) \<le> sz_current t \<and>
     sz_stable t < max threshold 1"
proof -
  from sizer_run_ok [OF new_sizer_ok, of es initial lo hi threshold] obtain t where
    t: "sizer_run es (new_sizer initial lo hi threshold) = Ok t" "sizer_ok t"
      "same_params (new_sizer initial lo hi threshold) t" by blast
  have "sz_min t \<le> sz_current t" using t(2) unfolding sizer_ok_def by (meson order_trans)
  with t(2,3) show ?thesis
    by (intro exI [of _ t] conjI t(1))
      (simp_all add: sizer_ok_def same_params_def new_sizer_def Let_def)
qed

text \<open>
  After any history with \<open>k\<close> underruns, \<open>k\<close> times the threshold many stable periods bring
  the size back to the initial one.
\<close>

lemma adaptive_returns_to_initial:
  "\<exists>t. sizer_run (es @ replicate (growths es * unat (max threshold 1)) StablePeriod)
        (new_sizer initial lo hi threshold) = Ok t \<and>
     sz_current t = sz_current (new_sizer initial lo hi threshold)"
proof -
  let ?s = "new_sizer initial lo hi threshold"
  from sizer_run_ok [OF new_sizer_ok, of es initial lo hi threshold] obtain u where
    u: "sizer_run es ?s = Ok u" "sizer_ok u" "same_params ?s u" by blast
  have p: "sz_threshold u = max threshold 1" "sz_initial u = sz_current ?s"
    using u(3) by (simp_all add: same_params_def new_sizer_def Let_def)
  from shrinks_back [OF u(2), of "growths es"] run_growth [OF new_sizer_ok u(1)] u(1) p
  show ?thesis by (auto simp: sizer_run_append)
qed

end
