(* ===== verification/Cpal_Stream.thy ===== *)
theory Cpal_Stream
  imports Complex_Main Ring Core_Routing Cpal_Adaptive "HOL-Library.Sublist"
begin

text \<open>
  The ring-buffer streams of \<open>crates/oxisound-cpal/src/streams.rs\<close> with their audio and error
  callbacks (\<open>stream_builders.rs\<close>). The handle and the callback share the queue, the
  disconnect flag and the counters, so one record holds them all and a run is a sequence of calls and
  callbacks. The conversion of samples to the format of the device, the
  measured durations and the percentage computed from them are arguments.
\<close>

subsection \<open>Output streams\<close>

text \<open>A value behind a mutex: a thread that panics while it holds the lock poisons it.\<close>

datatype 'a mutex = Unlocked 'a | Poisoned

record 'r cpal_output =
  co_ring :: 'r
  co_channels :: "16 word"
  co_capacity :: nat
  co_disconnected :: bool
  co_underruns :: "64 word"
  co_frames :: "64 word"
  co_adaptive :: sizer
  co_last_tick :: "64 word"
  co_desired :: "32 word"
  co_callback_ns :: "64 word"
  co_period_ns :: "64 word"
  co_reconnect :: "'r mutex option"

definition occupied_samples :: "('r, f32) ring_ops \<Rightarrow> 'r cpal_output \<Rightarrow> nat" where
  "occupied_samples R s =
     (case co_reconnect s of
        Some (Unlocked r) \<Rightarrow> occupied_len R r
      | Some Poisoned \<Rightarrow> 0
      | None \<Rightarrow> occupied_len R (co_ring s))"

definition latency_in_frames :: "('r, f32) ring_ops \<Rightarrow> 'r cpal_output \<Rightarrow> nat" where
  "latency_in_frames R s = occupied_samples R s div unat (max (co_channels s) 1)"

text \<open>The two checks and the copy that both paths of \<open>write\<close> share.\<close>

definition push_checked :: "('r, f32) ring_ops \<Rightarrow> string \<Rightarrow> string \<Rightarrow> f32 list \<Rightarrow> 'r
    \<Rightarrow> (unit, oxi_error) result \<times> 'r" where
  "push_checked R full partial samples r =
     (if vacant_len R r < length samples
      then (Err (Overrun [Lit full, Num (vacant_len R r), Lit '' free, '',
             Num (length samples), Lit '' requested'']), r)
      else (let (n, r') = push_slice R samples r
            in if n < length samples
               then (Err (Overrun [Lit partial, Num n, Lit ''/'', Num (length samples),
                      Lit '' samples written'']), r')
               else (Ok (), r')))"

definition cpal_write :: "('r, f32) ring_ops \<Rightarrow> f32 list \<Rightarrow> 'r cpal_output
    \<Rightarrow> (unit, oxi_error) result \<times> 'r cpal_output" where
  "cpal_write R samples s =
     (if co_disconnected s then (Err (Disconnected [Lit ''output device disconnected'']), s)
      else case co_reconnect s of
          Some Poisoned \<Rightarrow> (Err (Device [Lit ''reconnect producer mutex poisoned'']), s)
        | Some (Unlocked r) \<Rightarrow>
            (let (res, r') = push_checked R ''output ring buffer full: '' ''partial write: only '' samples r
             in (res, s\<lparr>co_reconnect := Some (Unlocked r')\<rparr>))
        | None \<Rightarrow>
            (let (res, r') = push_checked R ''output ring buffer full: '' ''partial write: only '' samples (co_ring s)
             in (res, s\<lparr>co_ring := r'\<rparr>)))"

text \<open>
  The audio callback for a device buffer of \<open>n\<close> samples, over the queue \<open>r\<close> that it owns: the
  one of \<open>co_ring\<close>, or after \<open>enable_auto_reconnect\<close> the one that moved behind the mutex.
\<close>

definition render :: "('r, f32) ring_ops \<Rightarrow> channel_routing option \<Rightarrow> (f32 \<Rightarrow> 't) \<Rightarrow> nat \<Rightarrow> nat \<Rightarrow> 'r
    \<Rightarrow> 't list \<times> nat \<times> 'r" where
  "render R routing conv ch n r =
     (let (buf, k, r') = take_each R 0 n r
      in (map conv (case routing of Some rt \<Rightarrow> apply_interleaved rt buf ch | None \<Rightarrow> buf), k, r'))"

definition output_callback :: "('r, f32) ring_ops \<Rightarrow> channel_routing option \<Rightarrow> (f32 \<Rightarrow> 't) \<Rightarrow> nat \<Rightarrow> 64 word
    \<Rightarrow> 'r cpal_output \<Rightarrow> 't list \<times> 'r cpal_output" where
  "output_callback R routing conv n elapsed s =
     (let ch = unat (max (co_channels s) 1);
          (out, k, r) = render R routing conv ch n (co_ring s)
      in (out, s\<lparr>co_ring := r, co_underruns := co_underruns s + word_of_nat k,
            co_frames := (if 0 < n then co_frames s + word_of_nat (n div ch) else co_frames s),
            co_callback_ns := elapsed\<rparr>))"

text \<open>The kinds of errors that cpal reports, and the error callback.\<close>

datatype error_kind = DeviceNotAvailable | StreamInvalidated | PermissionDeniedKind | InvalidInput
  | UnsupportedConfigKind | UnsupportedOperation | XrunKind | BackendError | OtherKind

definition error_callback :: "error_kind \<Rightarrow> 'r cpal_output \<Rightarrow> 'r cpal_output" where
  "error_callback ek s =
     (if ek \<in> {DeviceNotAvailable, StreamInvalidated, BackendError}
      then s\<lparr>co_disconnected := True\<rparr> else s)"

text \<open>\<open>Degraded\<close> carries the count that the code converts to a float.\<close>

datatype health = Healthy | Degraded "64 word" | Lost

definition stream_health :: "'r cpal_output \<Rightarrow> health" where
  "stream_health s =
     (if co_disconnected s then Lost
      else if 0 < co_underruns s then Degraded (co_underruns s) else Healthy)"

definition tick_adaptive :: "'r cpal_output \<Rightarrow> (32 word \<times> 'r cpal_output, unit) result" where
  "tick_adaptive s =
     (let current = co_underruns s;
          prev = co_last_tick s;
          s = s\<lparr>co_last_tick := current\<rparr>
      in if 0 < saturating_sub current prev
         then (let (sz, a) = record_underrun (co_adaptive s) in Ok (sz, s\<lparr>co_adaptive := a\<rparr>))
         else map_ok (\<lambda>(sz, a). (sz, s\<lparr>co_adaptive := a\<rparr>)) (record_stable_period (co_adaptive s)))"

definition set_desired_size :: "32 word \<Rightarrow> 'r cpal_output \<Rightarrow> 'r cpal_output" where
  "set_desired_size frames s = s\<lparr>co_desired := frames\<rparr>"

definition cpal_output_stats :: "('r, f32) ring_ops \<Rightarrow> (64 word \<Rightarrow> 64 word \<Rightarrow> f32) \<Rightarrow> 'r cpal_output \<Rightarrow> stream_stats" where
  "cpal_output_stats R load s =
     \<lparr>frames_processed = co_frames s, underruns = co_underruns s, overruns = 0,
      latency_frames = word_of_nat (occupied_samples R s),
      cpu_load_percent = (if 0 < co_period_ns s then load (co_callback_ns s) (co_period_ns s) else 0)\<rparr>"

text \<open>
  \<open>flush\<close> polls until the queue is empty. Each poll sees the flag, the occupancy and the seconds
  since the start; \<open>None\<close> means that it is still polling after the observations given.
\<close>

fun flush :: "(bool \<times> nat \<times> nat) list \<Rightarrow> (unit, oxi_error) result option" where
  "flush [] = None"
| "flush ((disc, occupied, secs) # obs) =
     (if disc then Some (Err (Disconnected [Lit ''stream disconnected during flush'']))
      else if occupied = 0 then Some (Ok ())
      else if 2 \<le> secs then Some (Err (Timeout [Lit ''flush timed out after 2 seconds'']))
      else flush obs)"

text \<open>Moving the queue behind a mutex; the second component says whether a thread is started.\<close>

definition enable_auto_reconnect :: "('r, f32) ring_ops \<Rightarrow> 'r cpal_output \<Rightarrow> 'r cpal_output \<times> bool" where
  "enable_auto_reconnect R s =
     (if co_reconnect s \<noteq> None then (s, False)
      else (s\<lparr>co_ring := new_ring R 1, co_reconnect := Some (Unlocked (co_ring s))\<rparr>, True))"

subsection \<open>Input streams\<close>

record 'r cpal_input =
  ci_ring :: 'r
  ci_channels :: "16 word"
  ci_capacity :: nat
  ci_disconnected :: bool
  ci_frames :: "64 word"
  ci_callback_ns :: "64 word"
  ci_period_ns :: "64 word"

definition input_callback :: "('r, f32) ring_ops \<Rightarrow> ('t \<Rightarrow> f32) \<Rightarrow> 't list \<Rightarrow> 64 word \<Rightarrow> 'r cpal_input \<Rightarrow> 'r cpal_input" where
  "input_callback R conv data_in elapsed s =
     (let n = length data_in;
          (r, _) = offer_all R (map conv data_in) (ci_ring s)
      in s\<lparr>ci_ring := r,
           ci_frames := (if 0 < n then ci_frames s + word_of_nat (n div unat (max (ci_channels s) 1))
                         else ci_frames s),
           ci_callback_ns := elapsed\<rparr>)"

definition input_error_callback :: "error_kind \<Rightarrow> 'r cpal_input \<Rightarrow> 'r cpal_input" where
  "input_error_callback ek s =
     (if ek \<in> {DeviceNotAvailable, StreamInvalidated, BackendError}
      then s\<lparr>ci_disconnected := True\<rparr> else s)"

definition cpal_read :: "('r, f32) ring_ops \<Rightarrow> f32 list \<Rightarrow> 'r cpal_input
    \<Rightarrow> (nat, oxi_error) result \<times> f32 list \<times> 'r cpal_input" where
  "cpal_read R buf s =
     (if ci_disconnected s then (Err (Disconnected [Lit ''input device disconnected'']), buf, s)
      else (let (xs, r) = pop_slice R (length buf) (ci_ring s)
            in (Ok (length xs), xs @ drop (length xs) buf, s\<lparr>ci_ring := r\<rparr>)))"

definition input_latency_in_frames :: "('r, f32) ring_ops \<Rightarrow> 'r cpal_input \<Rightarrow> nat" where
  "input_latency_in_frames R s = occupied_len R (ci_ring s) div unat (max (ci_channels s) 1)"

definition cpal_input_stats :: "('r, f32) ring_ops \<Rightarrow> (64 word \<Rightarrow> 64 word \<Rightarrow> f32) \<Rightarrow> 'r cpal_input \<Rightarrow> stream_stats" where
  "cpal_input_stats R load s =
     \<lparr>frames_processed = ci_frames s, underruns = 0, overruns = 0,
      latency_frames = word_of_nat (occupied_len R (ci_ring s)),
      cpu_load_percent = (if 0 < ci_period_ns s then load (ci_callback_ns s) (ci_period_ns s) else 0)\<rparr>"

subsection \<open>Duplex streams\<close>

record 'r cpal_duplex =
  cd_in_ring :: 'r
  cd_out_ring :: 'r
  cd_in_channels :: "16 word"
  cd_out_channels :: "16 word"
  cd_out_disconnected :: bool
  cd_in_disconnected :: bool
  cd_in_frames :: "64 word"
  cd_out_frames :: "64 word"
  cd_drift_ema :: rat
  cd_phase :: rat

definition duplex_write :: "('r, f32) ring_ops \<Rightarrow> f32 list \<Rightarrow> 'r cpal_duplex
    \<Rightarrow> (unit, oxi_error) result \<times> 'r cpal_duplex" where
  "duplex_write R out s =
     (if cd_out_disconnected s then (Err (Disconnected [Lit ''duplex output device disconnected'']), s)
      else (let (res, r) = push_checked R ''duplex output ring buffer full: ''
                  ''duplex output partial write: only '' out (cd_out_ring s)
            in (res, s\<lparr>cd_out_ring := r\<rparr>)))"

definition duplex_read :: "('r, f32) ring_ops \<Rightarrow> f32 list \<Rightarrow> 'r cpal_duplex
    \<Rightarrow> (nat, oxi_error) result \<times> f32 list \<times> 'r cpal_duplex" where
  "duplex_read R buf s =
     (if cd_in_disconnected s then (Err (Disconnected [Lit ''duplex input device disconnected'']), buf, s)
      else (let (xs, r) = pop_slice R (length buf) (cd_in_ring s)
            in (Ok (length xs), xs @ drop (length xs) buf, s\<lparr>cd_in_ring := r\<rparr>)))"

definition duplex_input_latency :: "('r, f32) ring_ops \<Rightarrow> 'r cpal_duplex \<Rightarrow> nat" where
  "duplex_input_latency R s = occupied_len R (cd_in_ring s) div unat (max (cd_in_channels s) 1)"

definition duplex_output_latency :: "('r, f32) ring_ops \<Rightarrow> 'r cpal_duplex \<Rightarrow> nat" where
  "duplex_output_latency R s = occupied_len R (cd_out_ring s) div unat (max (cd_out_channels s) 1)"

definition roundtrip_latency :: "('r, f32) ring_ops \<Rightarrow> 'r cpal_duplex \<Rightarrow> nat" where
  "roundtrip_latency R s = duplex_input_latency R s + duplex_output_latency R s"

definition duplex_stats :: "('r, f32) ring_ops \<Rightarrow> 'r cpal_duplex \<Rightarrow> stream_stats" where
  "duplex_stats R s =
     \<lparr>frames_processed = cd_out_frames s, underruns = 0, overruns = 0,
      latency_frames = word_of_nat (roundtrip_latency R s), cpu_load_percent = 0\<rparr>"

lemma error_callback_simps [simp]:
  "co_ring (error_callback ek s) = co_ring s" "co_channels (error_callback ek s) = co_channels s"
  "co_underruns (error_callback ek s) = co_underruns s" "co_frames (error_callback ek s) = co_frames s"
  "co_reconnect (error_callback ek s) = co_reconnect s"
  by (simp_all add: error_callback_def)

subsection \<open>Runs of an output stream\<close>

datatype cpal_step = CWrite "f32 list" | CCallback nat "64 word" | CError error_kind

text \<open>
  The device buffers of a run, one per callback, and the samples of the writes that succeeded.
\<close>

fun cpal_run :: "('r, f32) ring_ops \<Rightarrow> channel_routing option \<Rightarrow> (f32 \<Rightarrow> 't) \<Rightarrow> cpal_step list
    \<Rightarrow> 'r cpal_output \<Rightarrow> 't list list \<times> f32 list \<times> 'r cpal_output" where
  "cpal_run R rt conv [] s = ([], [], s)"
| "cpal_run R rt conv (CWrite xs # es) s =
     (let (res, s') = cpal_write R xs s; (outs, acc, s'') = cpal_run R rt conv es s'
      in (outs, (if res = Ok () then xs @ acc else acc), s''))"
| "cpal_run R rt conv (CCallback n elapsed # es) s =
     (let (out, s') = output_callback R rt conv n elapsed s; (outs, acc, s'') = cpal_run R rt conv es s'
      in (out # outs, acc, s''))"
| "cpal_run R rt conv (CError ek # es) s = cpal_run R rt conv es (error_callback ek s)"

text \<open>What a device buffer holds, from the slots of the callback.\<close>

fun slot_sample :: "f32 option \<Rightarrow> f32" where
  "slot_sample None = 0"
| "slot_sample (Some x) = x"

definition shown :: "channel_routing option \<Rightarrow> (f32 \<Rightarrow> 't) \<Rightarrow> nat \<Rightarrow> f32 option list \<Rightarrow> 't list" where
  "shown rt conv ch slots =
     map conv (case rt of Some r \<Rightarrow> apply_interleaved r (map slot_sample slots) ch
               | None \<Rightarrow> map slot_sample slots)"

definition sounding :: "f32 option list \<Rightarrow> f32 list" where
  "sounding slots = map the (filter (\<lambda>x. x \<noteq> None) slots)"

lemma sounding_simps [simp]:
  "sounding [] = []" "sounding (xs @ ys) = sounding xs @ sounding ys"
  "sounding (map Some zs) = zs" "sounding (replicate n None) = []"
  by (simp_all add: sounding_def filter_map o_def)

abbreviation silent_count :: "f32 option list \<Rightarrow> nat" where
  "silent_count slots \<equiv> length (filter (\<lambda>x. x = None) slots)"

lemma cpal_write_cases:
  assumes "ring R contents cap" and "co_reconnect s = None"
  shows "\<exists>r. cpal_write R xs s =
    (if co_disconnected s then Err (Disconnected [Lit ''output device disconnected''])
     else if length xs \<le> cap (co_ring s) - length (contents (co_ring s)) then Ok ()
     else Err (Overrun [Lit ''output ring buffer full: '', Num (cap (co_ring s) - length (contents (co_ring s))),
            Lit '' free, '', Num (length xs), Lit '' requested'']), s\<lparr>co_ring := r\<rparr>) \<and>
    cap r = cap (co_ring s) \<and>
    contents r = contents (co_ring s) @
      (if fst (cpal_write R xs s) = Ok () then xs else [])"
proof -
  obtain n r where p: "push_slice R xs (co_ring s) = (n, r)" by fastforce
  note ps = ring.push_slice_spec [OF assms(1), of xs "co_ring s"]
  note vs = ring.vacant_spec [OF assms(1), of "co_ring s"]
  show ?thesis
  proof (cases "\<not> co_disconnected s \<and> length xs \<le> cap (co_ring s) - length (contents (co_ring s))")
    case True
    then have "n = length xs" using ps p by simp
    with True assms(2) ps p vs show ?thesis
      by (intro exI [of _ r]) (simp add: cpal_write_def push_checked_def)
  next
    case False
    with assms(2) vs show ?thesis
      by (intro exI [of _ "co_ring s"]) (auto simp: cpal_write_def push_checked_def)
  qed
qed

lemma slot_due: "map slot_sample (due n q) = take n q @ replicate (n - length q) 0"
  by (simp add: due_def o_def)

lemma callback_due:
  assumes "ring R contents cap"
  shows "\<exists>r. output_callback R rt conv n elapsed s =
     (shown rt conv (unat (max (co_channels s) 1)) (due n (contents (co_ring s))),
      s\<lparr>co_ring := r, co_underruns := co_underruns s + word_of_nat (silent_count (due n (contents (co_ring s)))),
        co_frames := co_frames s + word_of_nat (n div unat (max (co_channels s) 1)), co_callback_ns := elapsed\<rparr>) \<and>
     contents r = drop n (contents (co_ring s)) \<and> cap r = cap (co_ring s)"
proof -
  obtain buf k r where t: "take_each R 0 n (co_ring s) = (buf, k, r)" by (cases "take_each R 0 n (co_ring s)") auto
  note ts = ring.take_each_spec [OF assms t]
  let ?sl = "due n (contents (co_ring s))"
  have buf: "map slot_sample ?sl = buf" and k: "silent_count ?sl = k" using ts by (simp_all add: slot_due due_missing)
  have frames: "(if 0 < n then co_frames s + word_of_nat (n div m) else co_frames s) = co_frames s + word_of_nat (n div m)" for m
    by simp
  have "output_callback R rt conv n elapsed s =
     (shown rt conv (unat (max (co_channels s) 1)) ?sl,
      s\<lparr>co_ring := r, co_underruns := co_underruns s + word_of_nat k,
        co_frames := co_frames s + word_of_nat (n div unat (max (co_channels s) 1)), co_callback_ns := elapsed\<rparr>)"
    by (simp only: output_callback_def render_def shown_def buf t Let_def prod.case frames)
  with ts show ?thesis unfolding k by (intro exI [of _ r]) simp
qed

text \<open>
  What a run does to the queue of samples alone: \<open>c\<close> is its capacity, \<open>q\<close> what waits in it, and \<open>lost\<close> says
  whether the device is gone. The result is what each callback finds, the samples of the writes that are taken, and
  the queue and the flag at the end.
\<close>

fun abs_output :: "nat \<Rightarrow> cpal_step list \<Rightarrow> f32 list \<Rightarrow> bool
    \<Rightarrow> f32 option list list \<times> f32 list \<times> f32 list \<times> bool" where
  "abs_output c [] q lost = ([], [], q, lost)"
| "abs_output c (CWrite xs # es) q lost =
     (if lost \<or> c - length q < length xs then abs_output c es q lost
      else (let (sl, acc, rest) = abs_output c es (q @ xs) lost in (sl, xs @ acc, rest)))"
| "abs_output c (CCallback n elapsed # es) q lost =
     (let (sl, rest) = abs_output c es (drop n q) lost in (due n q # sl, rest))"
| "abs_output c (CError ek # es) q lost =
     abs_output c es q (lost \<or> ek \<in> {DeviceNotAvailable, StreamInvalidated, BackendError})"

lemma abs_output_order:
  "abs_output c es q lost = (slots, acc, q', lost') \<Longrightarrow> q @ acc = sounding (concat slots) @ q'"
proof (induction c es q lost arbitrary: slots acc rule: abs_output.induct)
  case (2 c xs es q lost)
  then show ?case by (auto split: if_splits prod.splits)
next
  case (3 c n elapsed es q lost)
  obtain sl rest where r: "abs_output c es (drop n q) lost = (sl, acc, rest)"
    using "3.prems" by (auto split: prod.splits)
  with "3.prems" "3.IH" [of sl acc] have "drop n q @ acc = sounding (concat sl) @ q'" "slots = due n q # sl" by auto
  moreover have "sounding (due n q) = take n q" by (simp only: sounding_def due_found)
  ultimately show ?case using append_take_drop_id [of n q] by (metis append_assoc concat.simps(2) sounding_simps(2))
qed auto

lemma error_callback_flag:
  "error_callback ek s = s\<lparr>co_disconnected :=
     co_disconnected s \<or> ek \<in> {DeviceNotAvailable, StreamInvalidated, BackendError}\<rparr>"
  by (auto simp: error_callback_def)

lemma cpal_run_refines:
  assumes "ring R contents cap"
  shows "cpal_run R rt conv es s = (outs, acc, s') \<Longrightarrow> co_reconnect s = None \<Longrightarrow>
    \<exists>slots. abs_output (cap (co_ring s)) es (contents (co_ring s)) (co_disconnected s) =
        (slots, acc, contents (co_ring s'), co_disconnected s') \<and>
      outs = map (shown rt conv (unat (max (co_channels s) 1))) slots \<and>
      co_underruns s' = co_underruns s + word_of_nat (silent_count (concat slots)) \<and>
      co_frames s' = co_frames s
        + word_of_nat (sum_list (map (\<lambda>sl. length sl div unat (max (co_channels s) 1)) slots))"
proof (induction es arbitrary: s outs acc s')
  case Nil
  then show ?case by simp
next
  case (Cons e es)
  show ?case
  proof (cases e)
    case (CWrite xs)
    let ?fits = "\<not> co_disconnected s \<and> length xs \<le> cap (co_ring s) - length (contents (co_ring s))"
    from cpal_write_cases [OF assms Cons.prems(2), of xs] obtain res r where
      w: "cpal_write R xs s = (res, s\<lparr>co_ring := r\<rparr>)" "res = Ok () \<longleftrightarrow> ?fits" "cap r = cap (co_ring s)"
        "contents r = contents (co_ring s) @ (if ?fits then xs else [])"
      by (auto split: if_splits)
    obtain outs1 acc1 u where r: "cpal_run R rt conv es (s\<lparr>co_ring := r\<rparr>) = (outs1, acc1, u)"
      by (cases "cpal_run R rt conv es (s\<lparr>co_ring := r\<rparr>)") auto
    have "outs = outs1" "acc = (if ?fits then xs @ acc1 else acc1)" "s' = u"
      using Cons.prems(1) CWrite r w(1,2) by auto
    with Cons.IH [OF r] Cons.prems(2) w(3,4) CWrite show ?thesis
      by (cases ?fits) (auto simp: not_le)
  next
    case (CCallback n elapsed)
    from callback_due [OF assms, of rt conv n elapsed s] obtain r t where
      c: "output_callback R rt conv n elapsed s = (shown rt conv (unat (max (co_channels s) 1)) (due n (contents (co_ring s))), t)"
        "t = s\<lparr>co_ring := r, co_underruns := co_underruns s + word_of_nat (silent_count (due n (contents (co_ring s)))),
          co_frames := co_frames s + word_of_nat (n div unat (max (co_channels s) 1)), co_callback_ns := elapsed\<rparr>"
        "contents r = drop n (contents (co_ring s))" "cap r = cap (co_ring s)" by blast
    obtain outs1 acc1 u where r: "cpal_run R rt conv es t = (outs1, acc1, u)" by (cases "cpal_run R rt conv es t") auto
    have "outs = shown rt conv (unat (max (co_channels s) 1)) (due n (contents (co_ring s))) # outs1" "acc = acc1" "s' = u"
      using Cons.prems(1) CCallback r c(1) by simp_all
    moreover from Cons.IH [OF r] Cons.prems(2) c(2-4) obtain sl where
      "abs_output (cap (co_ring s)) es (drop n (contents (co_ring s))) (co_disconnected s) =
         (sl, acc1, contents (co_ring u), co_disconnected u)"
      "outs1 = map (shown rt conv (unat (max (co_channels s) 1))) sl"
      "co_underruns u = co_underruns t + word_of_nat (silent_count (concat sl))"
      "co_frames u = co_frames t + word_of_nat (sum_list (map (\<lambda>sl. length sl div unat (max (co_channels s) 1)) sl))"
      by auto
    ultimately show ?thesis
      using CCallback c(2) by (intro exI [of _ "due n (contents (co_ring s)) # sl"]) (simp add: add.assoc)
  next
    case (CError ek)
    from Cons.IH [of "error_callback ek s" outs acc s'] Cons.prems CError show ?thesis
      by (simp add: error_callback_flag)
  qed
qed

subsection \<open>Properties\<close>

text \<open>
  C6: Any run of writes, audio callbacks and error callbacks on an output stream, whatever the
  queue: a write is taken as a whole, exactly if the device is not lost and there is room for it, or not at all; a
  callback plays as many queued samples as it needs, routed and converted, and silence only after the queue has run out.
  So the device gets the samples of the successful writes in order and each once; the rest is still queued. The underrun
  counter counts the silent samples and the frame counter the whole frames of the device buffers.
\<close>

theorem cpal_output_run:
  assumes "ring R contents cap" and "co_reconnect s = None"
    and "cpal_run R rt conv es s = (outs, accepted, s')"
  shows "case abs_output (cap (co_ring s)) es (contents (co_ring s)) (co_disconnected s) of (slots, taken, q, lost) \<Rightarrow>
    outs = map (shown rt conv (unat (max (co_channels s) 1))) slots \<and>
    accepted = taken \<and> contents (co_ring s') = q \<and> co_disconnected s' = lost \<and>
    contents (co_ring s) @ accepted = sounding (concat slots) @ contents (co_ring s') \<and>
    co_underruns s' = co_underruns s + word_of_nat (silent_count (concat slots)) \<and>
    co_frames s' = co_frames s
      + word_of_nat (sum_list (map (\<lambda>sl. length sl div unat (max (co_channels s) 1)) slots))"
  using cpal_run_refines [OF assms(1,3,2)] abs_output_order by fastforce

text \<open>
  A write on a stream that is not reconnecting fails with \<open>Disconnected\<close> exactly when the
  error callback has marked it, succeeds exactly when it is not marked and all samples fit, and
  otherwise says \<open>Overrun\<close> with the free and the requested count; a failed write changes nothing in
  the queue, and the partial-write error never occurs.
\<close>

lemma cpal_write_outcomes:
  assumes "ring R contents cap" and "co_reconnect s = None" and "cpal_write R xs s = (res, s')"
  shows "res =
    (if co_disconnected s then Err (Disconnected [Lit ''output device disconnected''])
     else if length xs \<le> cap (co_ring s) - length (contents (co_ring s)) then Ok ()
     else Err (Overrun [Lit ''output ring buffer full: '', Num (cap (co_ring s) - length (contents (co_ring s))),
            Lit '' free, '', Num (length xs), Lit '' requested'']))
    \<and> contents (co_ring s') = contents (co_ring s) @ (if res = Ok () then xs else [])
    \<and> s' = s\<lparr>co_ring := co_ring s'\<rparr>"
  using cpal_write_cases [OF assms(1,2), of xs] assms(3) by auto

text \<open>
  The statistics of a stereo output stream report twice the latency that
  \<open>latency_frames\<close> computes: they count samples, not frames.
\<close>

theorem stats_latency_counts_samples:
  assumes "ring R contents cap" and "co_reconnect s = None" and "co_channels s = 2"
    and "length (contents (co_ring s)) = 2 * n"
  shows "latency_frames (cpal_output_stats R load s) = word_of_nat (2 * n) \<and> latency_in_frames R s = n"
  using assms(2-4) ring.occupied_spec [OF assms(1)]
  by (simp add: cpal_output_stats_def latency_in_frames_def occupied_samples_def)

definition sample_stream :: "f32 fifo cpal_output" where
  "sample_stream = \<lparr>co_ring = ([], 6), co_channels = 2, co_capacity = 6, co_disconnected = False,
     co_underruns = 0, co_frames = 0, co_adaptive = new_sizer 512 128 8192 4, co_last_tick = 0,
     co_desired = 512, co_callback_ns = 0, co_period_ns = 0, co_reconnect = None\<rparr>"

theorem cpal_output_run_witness:
  "case abs_output 6 [CWrite [7, 8, 9], CWrite [1, 2, 3, 4], CCallback 4 0] [] False of (slots, taken, q, lost) \<Rightarrow>
     [[8, 7, 0, 9]] = map (shown (Some [(FrontLeft, 1), (FrontRight, 0)]) id 2) slots \<and> [7, 8, 9] = taken \<and> q = []"
proof -
  let ?es = "[CWrite [7, 8, 9], CWrite [1, 2, 3, 4], CCallback 4 0]"
  let ?rt = "Some [(FrontLeft, 1), (FrontRight, 0)]"
  have t: "take_each fifo (0 :: f32) 4 ([7, 8, 9], 6) = ([7, 8, 9, 0], 1, ([], 6))"
    by (simp add: fifo_def numeral_eq_Suc)
  have w: "cpal_write fifo [7, 8, 9] sample_stream = (Ok (), sample_stream\<lparr>co_ring := ([7, 8, 9], 6)\<rparr>)"
    by (simp add: cpal_write_def push_checked_def fifo_def sample_stream_def)
  define s1 where "s1 = sample_stream\<lparr>co_ring := ([7, 8, 9], 6)\<rparr>"
  obtain m where w2: "cpal_write fifo [1, 2, 3, 4] s1 = (Err m, s1)"
    by (simp add: cpal_write_def push_checked_def fifo_def s1_def sample_stream_def)
  have a: "apply_interleaved [(FrontLeft, 1), (FrontRight, 0)] [7, 8, 9, 0 :: f32] 2 = [8, 7, 0, 9]"
    by (simp add: apply_interleaved_def route_step_def route_frame_def)
  obtain s2 where c: "output_callback fifo ?rt id 4 0 s1 = ([8, 7, 0, 9], s2)" "co_ring s2 = ([], 6)"
    using t a by (simp add: output_callback_def render_def s1_def sample_stream_def Let_def)
  have r: "cpal_run fifo ?rt id ?es sample_stream = ([[8, 7, 0, 9]], [7, 8, 9], s2)"
    by (simp add: w w2 c(1) [simplified] flip: s1_def)
  have "co_reconnect sample_stream = None" by (simp add: sample_stream_def)
  from cpal_output_run [OF fifo_ring this r] c(2) show ?thesis
    by (auto simp: sample_stream_def split: prod.splits)
qed

theorem cpal_write_outcomes_witness:
  "Err (Overrun [Lit ''output ring buffer full: '', Num 6, Lit '' free, '', Num 7, Lit '' requested''])
    = fst (cpal_write fifo [1, 2, 3, 4, 5, 6, 7] sample_stream)"
proof -
  obtain res s' where r: "cpal_write fifo [1, 2, 3, 4, 5, 6, 7] sample_stream = (res, s')"
    by fastforce
  have "res = Err (Overrun [Lit ''output ring buffer full: '', Num 6, Lit '' free, '', Num 7, Lit '' requested''])"
    using cpal_write_outcomes [OF fifo_ring _ r] by (simp add: sample_stream_def eval_nat_numeral)
  with r show ?thesis by simp
qed

end
