(* ===== verification/Cpal_Device.thy ===== *)
theory Cpal_Device
  imports Cpal_Stream Core_Select
begin

text \<open>
  Devices of the cpal backend (\<open>crates/oxisound-cpal/src/\<close>): translation of cpal's errors and
  sample formats (\<open>error.rs\<close>), what is collected about a device (\<open>config_helpers.rs\<close>),
  enumeration, selection, negotiation and opening (\<open>device.rs\<close>). The crate \<open>cpal\<close> is not part of
  the repository: what a host and a device answer to the queries of one call is a record.
\<close>

subsection \<open>What cpal answers\<close>

datatype cpal_format = C_F32 | C_F64 | C_I8 | C_I16 | C_I24 | C_I32 | C_I64
  | C_U8 | C_U16 | C_U24 | C_U32 | C_U64 | C_Dsd

text \<open>An error has a kind and a text.\<close>

type_synonym cpal_error = "error_kind \<times> rstring"

datatype buffer_range = BufferRange "32 word" "32 word" | UnknownRange

record config_range =
  cr_channels :: "16 word"
  cr_min_rate :: "32 word"
  cr_max_rate :: "32 word"
  cr_buffer :: buffer_range
  cr_format :: cpal_format

record cpal_config =
  cc_channels :: "16 word"
  cc_rate :: "32 word"
  cc_buffer :: "32 word option"

record default_config =
  dc_config :: cpal_config
  dc_buffer :: buffer_range
  dc_format :: cpal_format

record cpal_device =
  cpal_name :: "(rstring, cpal_error) result"
  out_configs :: "(config_range list, cpal_error) result"
  in_configs :: "(config_range list, cpal_error) result"
  default_out :: "(default_config, cpal_error) result"
  default_in :: "(default_config, cpal_error) result"

record cpal_host =
  all_devices :: "(cpal_device list, cpal_error) result"
  output_devices :: "(cpal_device list, cpal_error) result"
  input_devices :: "(cpal_device list, cpal_error) result"
  default_output_dev :: "cpal_device option"
  default_input_dev :: "cpal_device option"

subsection \<open>Errors and formats\<close>

definition map_cpal_err :: "string \<Rightarrow> (msg \<Rightarrow> oxi_error) \<Rightarrow> cpal_error \<Rightarrow> oxi_error" where
  "map_cpal_err ctxt fallback e =
     (let detail = [Lit ctxt, Lit '': '', Str (snd e)] in
      case fst e of
        DeviceNotAvailable \<Rightarrow> Disconnected detail
      | StreamInvalidated \<Rightarrow> Disconnected detail
      | PermissionDeniedKind \<Rightarrow> PermissionDenied detail
      | InvalidInput \<Rightarrow> UnsupportedConfig detail
      | UnsupportedConfigKind \<Rightarrow> UnsupportedConfig detail
      | UnsupportedOperation \<Rightarrow> Unsupported detail
      | XrunKind \<Rightarrow> Underrun detail
      | _ \<Rightarrow> fallback detail)"

definition map_build_stream_err :: "cpal_error \<Rightarrow> oxi_error" where
  "map_build_stream_err = map_cpal_err ''build stream'' Stream"

definition map_play_stream_err :: "cpal_error \<Rightarrow> oxi_error" where
  "map_play_stream_err = map_cpal_err ''play stream'' Stream"

definition map_devices_err :: "cpal_error \<Rightarrow> oxi_error" where
  "map_devices_err = map_cpal_err ''enumerate devices'' Device"

definition map_default_config_err :: "cpal_error \<Rightarrow> oxi_error" where
  "map_default_config_err = map_cpal_err ''default config'' UnsupportedConfig"

definition map_supported_configs_err :: "cpal_error \<Rightarrow> oxi_error" where
  "map_supported_configs_err = map_cpal_err ''supported configs'' Device"

text \<open>\<open>OxiSoundError::Device(e.to_string())\<close>\<close>

definition device_err :: "cpal_error \<Rightarrow> oxi_error" where
  "device_err e = Device [Str (snd e)]"

fun cpal_to_core_format :: "cpal_format \<Rightarrow> sample_format" where
  "cpal_to_core_format C_F32 = F32"
| "cpal_to_core_format C_F64 = F64"
| "cpal_to_core_format C_I16 = I16"
| "cpal_to_core_format C_I32 = I32"
| "cpal_to_core_format C_U8 = U8"
| "cpal_to_core_format C_I8 = I16"
| "cpal_to_core_format C_U16 = I16"
| "cpal_to_core_format C_I24 = I24"
| "cpal_to_core_format C_U24 = I32"
| "cpal_to_core_format C_U32 = I32"
| "cpal_to_core_format C_I64 = F64"
| "cpal_to_core_format C_U64 = F64"
| "cpal_to_core_format C_Dsd = F32"

fun core_to_cpal_format :: "sample_format \<Rightarrow> cpal_format" where
  "core_to_cpal_format F32 = C_F32"
| "core_to_cpal_format F64 = C_F64"
| "core_to_cpal_format I16 = C_I16"
| "core_to_cpal_format I32 = C_I32"
| "core_to_cpal_format U8 = C_U8"
| "core_to_cpal_format I24 = C_I24"

subsection \<open>What is collected about a device\<close>

text \<open>The body that \<open>collect_config_ranges\<close> and \<open>collect_input_config_ranges\<close> share.\<close>

definition ranges_of :: "(config_range list, cpal_error) result \<Rightarrow> 32 word list \<times> 16 word list" where
  "ranges_of configs =
     (case configs of
        Ok cs \<Rightarrow>
          (remdups_adj (sort (concat (map (\<lambda>r. [cr_min_rate r, cr_max_rate r]) cs))),
           remdups_adj (sort (map cr_channels cs)))
      | _ \<Rightarrow> ([], []))"

definition collect_config_ranges :: "cpal_device \<Rightarrow> 32 word list \<times> 16 word list" where
  "collect_config_ranges d = ranges_of (out_configs d)"

definition collect_input_config_ranges :: "cpal_device \<Rightarrow> 32 word list \<times> 16 word list" where
  "collect_input_config_ranges d = ranges_of (in_configs d)"

text \<open>One step of the loop of \<open>build_device_capabilities\<close>: bounds and formats so far.\<close>

definition capability_step :: "config_range \<Rightarrow> 32 word option \<times> 32 word option \<times> sample_format list
    \<Rightarrow> 32 word option \<times> 32 word option \<times> sample_format list" where
  "capability_step sc acc =
     (case acc of (lo, hi, formats) \<Rightarrow>
        (let (lo', hi') =
               (case cr_buffer sc of
                  BufferRange mn mx \<Rightarrow>
                    (Some (min (case lo of Some v \<Rightarrow> v | None \<Rightarrow> mn) mn),
                     Some (max (case hi of Some v \<Rightarrow> v | None \<Rightarrow> mx) mx))
                | UnknownRange \<Rightarrow> (lo, hi));
             fmt = cpal_to_core_format (cr_format sc)
         in (lo', hi', if fmt \<in> set formats then formats else formats @ [fmt])))"

definition build_device_capabilities :: "cpal_device \<Rightarrow> bool \<Rightarrow> device_capabilities option" where
  "build_device_capabilities d is_out =
     (case (if is_out then out_configs d else in_configs d) of
        Ok cs \<Rightarrow>
          (case fold capability_step cs (None, None, []) of (lo, hi, formats) \<Rightarrow>
             Some \<lparr>min_buffer_size = lo, max_buffer_size = hi, supported_formats = formats,
                exclusive_mode = False\<rparr>)
      | _ \<Rightarrow> None)"

definition range_admits :: "16 word \<Rightarrow> 32 word \<Rightarrow> config_range \<Rightarrow> bool" where
  "range_admits ch sr r \<longleftrightarrow> cr_channels r = ch \<and> cr_min_rate r \<le> sr \<and> sr \<le> cr_max_rate r"

definition is_config_supported_for_output :: "cpal_device \<Rightarrow> cpal_config \<Rightarrow> (unit, oxi_error) result" where
  "is_config_supported_for_output d cfg =
     and_then (map_err map_supported_configs_err (out_configs d)) (\<lambda>cs.
       if list_ex (range_admits (cc_channels cfg) (cc_rate cfg)) cs then Ok ()
       else Err (UnsupportedConfig [Lit ''no supported output config for '', Num (unat (cc_channels cfg)),
              Lit ''ch @ '', Num (unat (cc_rate cfg)), Lit ''Hz'']))"

definition is_config_supported_for_input :: "cpal_device \<Rightarrow> cpal_config \<Rightarrow> (unit, oxi_error) result" where
  "is_config_supported_for_input d cfg =
     and_then (map_err map_supported_configs_err (in_configs d)) (\<lambda>cs.
       if list_ex (range_admits (cc_channels cfg) (cc_rate cfg)) cs then Ok ()
       else Err (UnsupportedConfig [Lit ''no supported input config for '', Num (unat (cc_channels cfg)),
              Lit ''ch @ '', Num (unat (cc_rate cfg)), Lit ''Hz'']))"

definition to_cpal_stream_config :: "stream_config \<Rightarrow> default_config \<Rightarrow> cpal_config" where
  "to_cpal_stream_config config supported =
     (let c = (dc_config supported)\<lparr>cc_rate := sample_rate config, cc_channels := channels config\<rparr>
      in case buffer_size config of Some sz \<Rightarrow> c\<lparr>cc_buffer := Some sz\<rparr> | None \<Rightarrow> c)"

subsection \<open>Enumeration\<close>

definition probes :: "(config_range list, cpal_error) result \<Rightarrow> bool" where
  "probes configs = (case configs of Ok cs \<Rightarrow> 0 < length cs | _ \<Rightarrow> False)"

text \<open>\<open>DeviceCapabilities::default()\<close>\<close>

definition default_capabilities :: device_capabilities where
  "default_capabilities = \<lparr>min_buffer_size = None, max_buffer_size = None, supported_formats = [],
     exclusive_mode = False\<rparr>"

text \<open>One device of \<open>enumerate_all\<close>; a device without a role is skipped.\<close>

definition describe_any :: "cpal_device \<Rightarrow> device_info option" where
  "describe_any d =
     (let nm = unwrap_or (str_lit ''<unknown>'') (cpal_name d);
          out = probes (out_configs d);
          inp = probes (in_configs d)
      in if \<not> out \<and> \<not> inp then None
         else
           (let caps = (if out then build_device_capabilities d True else build_device_capabilities d False);
                (rates, chans) = (if out then collect_config_ranges d else collect_input_config_ranges d)
            in Some (build_device
                 (set_capabilities (case caps of Some c \<Rightarrow> c | None \<Rightarrow> default_capabilities)
                 (set_channel_counts chans
                 (set_sample_rates rates
                 (set_input inp
                 (set_output out (device_builder nm)))))))))"

definition mark_default :: "cpal_device option \<Rightarrow> device_info list \<Rightarrow> device_info list" where
  "mark_default def infos =
     (case def of
        Some d \<Rightarrow>
          (case cpal_name d of
             Ok nm \<Rightarrow> map (\<lambda>i. if dev_name i = nm \<and> is_output i then i\<lparr>is_default := True\<rparr> else i) infos
           | _ \<Rightarrow> infos)
      | None \<Rightarrow> infos)"

definition enumerate_all :: "cpal_host \<Rightarrow> (device_info list, oxi_error) result" where
  "enumerate_all h =
     and_then (map_err device_err (all_devices h)) (\<lambda>ds.
       Ok (mark_default (default_output_dev h) (List.map_filter describe_any ds)))"

definition default_name :: "cpal_device option \<Rightarrow> rstring option" where
  "default_name def = (case def of Some d \<Rightarrow> (case cpal_name d of Ok nm \<Rightarrow> Some nm | _ \<Rightarrow> None) | None \<Rightarrow> None)"

fun enumerate_inputs :: "rstring option \<Rightarrow> cpal_device list \<Rightarrow> (device_info list, oxi_error) result" where
  "enumerate_inputs def [] = Ok []"
| "enumerate_inputs def (d # ds) =
     and_then (map_err (\<lambda>e. Device [Lit ''description error: '', Str (snd e)]) (cpal_name d)) (\<lambda>nm.
       (let (rates, chans) = collect_input_config_ranges d in
        map_ok (Cons \<lparr>dev_name = nm, is_default = (def = Some nm), sample_rates = rates,
             channel_counts = chans, is_input = True, is_output = False,
             capabilities = build_device_capabilities d False\<rparr>)
          (enumerate_inputs def ds)))"

definition enumerate_input :: "cpal_host \<Rightarrow> (device_info list, oxi_error) result" where
  "enumerate_input h =
     and_then (map_err map_devices_err (input_devices h))
       (enumerate_inputs (default_name (default_input_dev h)))"

fun enumerate_outputs :: "rstring option \<Rightarrow> cpal_device list \<Rightarrow> (device_info list, oxi_error) result" where
  "enumerate_outputs def [] = Ok []"
| "enumerate_outputs def (d # ds) =
     and_then (map_err device_err (cpal_name d)) (\<lambda>nm.
       (let (rates, chans) = collect_config_ranges d in
        map_ok (Cons \<lparr>dev_name = nm, is_default = (Some nm = def), sample_rates = rates,
             channel_counts = chans, is_input = False, is_output = True,
             capabilities = build_device_capabilities d True\<rparr>)
          (enumerate_outputs def ds)))"

definition enumerate_output :: "cpal_host \<Rightarrow> (device_info list, oxi_error) result" where
  "enumerate_output h =
     and_then (map_err map_devices_err (output_devices h))
       (enumerate_outputs (default_name (default_output_dev h)))"

subsection \<open>Selection\<close>

text \<open>A \<open>CpalDevice\<close> is a device with the host API it is tagged with.\<close>

record cpal_handle =
  ch_device :: cpal_device
  ch_api :: host_api

fun default_host_api :: "target_os \<Rightarrow> host_api" where
  "default_host_api MacOs = CoreAudio"
| "default_host_api Ios = CoreAudio"
| "default_host_api Windows = Wasapi"
| "default_host_api Linux = Alsa"
| "default_host_api Bsd = Alsa"
| "default_host_api OtherOs = CoreAudio"

text \<open>\<open>for dev in devices\<close> of \<open>select_output\<close> and \<open>select_input\<close>.\<close>

fun select_by_name :: "(rstring \<Rightarrow> rstring) \<Rightarrow> target_os \<Rightarrow> rstring \<Rightarrow> cpal_device list \<Rightarrow> (cpal_handle, oxi_error) result" where
  "select_by_name lower os fragment [] = Err NoDevice"
| "select_by_name lower os fragment (d # ds) =
     and_then (map_err device_err (cpal_name d)) (\<lambda>nm.
       if contains (lower nm) fragment then Ok \<lparr>ch_device = d, ch_api = default_host_api os\<rparr>
       else select_by_name lower os fragment ds)"

definition select_output :: "(rstring \<Rightarrow> rstring) \<Rightarrow> target_os \<Rightarrow> rstring \<Rightarrow> cpal_host \<Rightarrow> (cpal_handle, oxi_error) result" where
  "select_output lower os fragment h =
     and_then (map_err map_devices_err (output_devices h)) (select_by_name lower os (lower fragment))"

definition select_input :: "(rstring \<Rightarrow> rstring) \<Rightarrow> target_os \<Rightarrow> rstring \<Rightarrow> cpal_host \<Rightarrow> (cpal_handle, oxi_error) result" where
  "select_input lower os fragment h =
     and_then (map_err map_devices_err (input_devices h)) (select_by_name lower os (lower fragment))"

definition default_output :: "target_os \<Rightarrow> cpal_host \<Rightarrow> (cpal_handle, oxi_error) result" where
  "default_output os h =
     map_ok (\<lambda>d. \<lparr>ch_device = d, ch_api = default_host_api os\<rparr>) (ok_or NoDevice (default_output_dev h))"

definition default_input :: "target_os \<Rightarrow> cpal_host \<Rightarrow> (cpal_handle, oxi_error) result" where
  "default_input os h =
     map_ok (\<lambda>d. \<lparr>ch_device = d, ch_api = default_host_api os\<rparr>) (ok_or NoDevice (default_input_dev h))"

text \<open>
  \<open>with_host\<close>: which APIs the build for an operating system can reach, then the host that
  \<open>host_from_id\<close> gives for it.
\<close>

fun host_reachable :: "target_os \<Rightarrow> host_api \<Rightarrow> (unit, oxi_error) result" where
  "host_reachable os CoreAudio =
     (if os = MacOs \<or> os = Ios then Ok () else Err (UnsupportedConfig [Lit ''CoreAudio is macOS/iOS-only'']))"
| "host_reachable os Wasapi =
     (if os = Windows then Ok () else Err (UnsupportedConfig [Lit ''WASAPI is Windows-only'']))"
| "host_reachable os Alsa =
     (if os = Linux \<or> os = Bsd then Ok () else Err (UnsupportedConfig [Lit ''ALSA is Linux/BSD-only'']))"
| "host_reachable os Jack = Err (UnsupportedConfig [Lit ''JACK is not available via cpal in OxiSound; depend on the `oxisound-jack` quarantine crate (libjack2) directly''])"
| "host_reachable os Asio = Err (UnsupportedConfig [Lit ''ASIO is not available in this build; it requires a dedicated `oxisound-*-asio` quarantine crate (Steinberg ASIO SDK)''])"
| "host_reachable os PipeWire = Err (UnsupportedConfig [Lit ''PipeWire support is not available in this build''])"
| "host_reachable os PulseAudio = Err (UnsupportedConfig [Lit ''PulseAudio support is not available in this build''])"

definition with_host :: "target_os \<Rightarrow> (host_api \<Rightarrow> (cpal_host, cpal_error) result) \<Rightarrow> host_api
    \<Rightarrow> (cpal_handle, oxi_error) result" where
  "with_host os host_from_id api =
     and_then (host_reachable os api) (\<lambda>_.
     and_then (map_err device_err (host_from_id api)) (\<lambda>h.
     and_then (ok_or NoDevice (default_output_dev h)) (\<lambda>d.
       Ok \<lparr>ch_device = d, ch_api = api\<rparr>)))"

definition optimal_buffer_size :: "cpal_device \<Rightarrow> (32 word, oxi_error) result" where
  "optimal_buffer_size d =
     and_then (map_err device_err (default_out d)) (\<lambda>c.
       case dc_buffer c of BufferRange mn _ \<Rightarrow> Ok mn | UnknownRange \<Rightarrow> Ok 512)"

subsection \<open>Negotiation\<close>

text \<open>One range of the loop of \<open>negotiate_output\<close>: the formats that match and the buffer size.\<close>

definition negotiate_step :: "stream_config \<Rightarrow> config_range \<Rightarrow> sample_format list \<times> 32 word option
    \<Rightarrow> sample_format list \<times> 32 word option" where
  "negotiate_step config sc acc =
     (case acc of (formats, buf) \<Rightarrow>
        if sample_rate config < cr_min_rate sc \<or> sample_rate config > cr_max_rate sc then acc
        else if cr_channels sc \<noteq> channels config then acc
        else
          (let fmt = cpal_to_core_format (cr_format sc)
           in (if fmt \<in> set formats then formats else formats @ [fmt],
               case buf of
                 Some b \<Rightarrow> Some b
               | None \<Rightarrow> (case cr_buffer sc of BufferRange mn _ \<Rightarrow> Some mn | UnknownRange \<Rightarrow> Some 512))))"

definition negotiate_output :: "cpal_device \<Rightarrow> stream_config \<Rightarrow> (negotiated_config, oxi_error) result" where
  "negotiate_output d config =
     and_then (map_err device_err (out_configs d)) (\<lambda>cs.
       (let (formats, buf) = fold (negotiate_step config) cs ([], None) in
        if formats \<noteq> [] then
          (let preferred = preferred_formats config @ (case sample_format_opt config of Some f \<Rightarrow> [f] | None \<Rightarrow> [])
           in and_then (ok_or (FormatMismatch [Lit ''no negotiable output format''])
                (pick_preferred_format preferred formats)) (\<lambda>chosen.
              Ok \<lparr>n_sample_rate = sample_rate config, n_channels = channels config,
                n_buffer_size = (case buffer_size config of Some b \<Rightarrow> b
                  | None \<Rightarrow> (case buf of Some b \<Rightarrow> b | None \<Rightarrow> 512)),
                n_sample_format = chosen\<rparr>))
        else Err (FormatMismatch [Lit ''no supported output config for '', Num (unat (sample_rate config)),
               Lit ''Hz '', Num (unat (channels config)), Lit ''ch''])))"

subsection \<open>Negotiation: what it chooses\<close>

definition matches :: "stream_config \<Rightarrow> config_range \<Rightarrow> bool" where
  "matches config r \<longleftrightarrow> range_admits (channels config) (sample_rate config) r"

lemma negotiate_step_matches:
  "negotiate_step config sc (formats, buf) =
     (if matches config sc then
        (if cpal_to_core_format (cr_format sc) \<in> set formats then formats
         else formats @ [cpal_to_core_format (cr_format sc)],
         case buf of Some b \<Rightarrow> Some b
         | None \<Rightarrow> (case cr_buffer sc of BufferRange mn _ \<Rightarrow> Some mn | UnknownRange \<Rightarrow> Some 512))
      else (formats, buf))"
  by (auto simp: negotiate_step_def matches_def range_admits_def not_less [symmetric])

lemma negotiate_fold:
  "fold (negotiate_step config) cs (formats, buf) = (formats', buf') \<Longrightarrow>
     set formats' = set formats \<union> (cpal_to_core_format \<circ> cr_format) ` {r \<in> set cs. matches config r} \<and>
     (buf = None \<longrightarrow> buf' = (case filter (matches config) cs of
        [] \<Rightarrow> None
      | r # _ \<Rightarrow> (case cr_buffer r of BufferRange mn _ \<Rightarrow> Some mn | UnknownRange \<Rightarrow> Some 512))) \<and>
     (buf \<noteq> None \<longrightarrow> buf' = buf)"
proof (induction cs arbitrary: formats buf)
  case Nil
  then show ?case by simp
next
  case (Cons r cs)
  obtain f1 b1 where 1: "negotiate_step config r (formats, buf) = (f1, b1)" by fastforce
  from Cons.prems 1 have "fold (negotiate_step config) cs (f1, b1) = (formats', buf')" by simp
  from Cons.IH [OF this] 1 show ?case
    by (auto simp: negotiate_step_matches split: if_splits option.splits buffer_range.splits)
qed

lemma pick_is_supported: "pick_preferred_format preferred supported = Some f \<Longrightarrow> f \<in> set supported"
  by (induction preferred) (auto split: list.splits if_splits)

lemma pick_None: "pick_preferred_format preferred supported = None \<longleftrightarrow> supported = []"
  by (induction preferred) (auto split: list.splits)

text \<open>The core formats of the ranges that match a configuration, in the order of the ranges.\<close>

definition offered :: "stream_config \<Rightarrow> config_range list \<Rightarrow> sample_format list" where
  "offered config cs = map (cpal_to_core_format \<circ> cr_format) (filter (matches config) cs)"

lemma negotiate_fold_prefix:
  "fold (negotiate_step config) cs (formats, buf) = (formats', buf') \<Longrightarrow> \<exists>t. formats' = formats @ t"
proof (induction cs arbitrary: formats buf)
  case (Cons r cs)
  obtain f1 b1 where 1: "negotiate_step config r (formats, buf) = (f1, b1)" by fastforce
  from Cons.prems 1 have "fold (negotiate_step config) cs (f1, b1) = (formats', buf')" by simp
  from Cons.IH [OF this] 1 show ?case
    by (auto simp: negotiate_step_matches split: if_splits)
qed simp

lemma negotiate_fold_first:
  "fold (negotiate_step config) cs ([], buf) = (formats', buf') \<Longrightarrow>
     (case offered config cs of [] \<Rightarrow> formats' = [] | f # _ \<Rightarrow> \<exists>t. formats' = f # t)"
proof (induction cs arbitrary: buf)
  case Nil
  then show ?case by (simp add: offered_def)
next
  case (Cons r cs)
  show ?case
  proof (cases "matches config r")
    case True
    let ?f = "cpal_to_core_format (cr_format r)"
    obtain b1 where 1: "negotiate_step config r ([], buf) = ([?f], b1)"
      using True by (simp add: negotiate_step_matches)
    from Cons.prems 1 have "fold (negotiate_step config) cs ([?f], b1) = (formats', buf')" by simp
    from negotiate_fold_prefix [OF this] True show ?thesis by (auto simp: offered_def)
  next
    case False
    then have "negotiate_step config r ([], buf) = ([], buf)" by (simp add: negotiate_step_matches)
    with Cons False show ?thesis by (simp add: offered_def)
  qed
qed

lemma pick_depends_on_set:
  "set supported = set supported' \<Longrightarrow> (supported = [] \<longleftrightarrow> supported' = []) \<Longrightarrow>
     (supported \<noteq> [] \<Longrightarrow> hd supported = hd supported') \<Longrightarrow>
     pick_preferred_format preferred supported = pick_preferred_format preferred supported'"
  by (induction preferred) (auto split: list.splits)

definition all_preferred :: "stream_config \<Rightarrow> sample_format list" where
  "all_preferred config =
     preferred_formats config @ (case sample_format_opt config of Some f \<Rightarrow> [f] | None \<Rightarrow> [])"

definition first_buffer :: "stream_config \<Rightarrow> config_range list \<Rightarrow> 32 word" where
  "first_buffer config cs =
     (case buffer_size config of Some b \<Rightarrow> b
      | None \<Rightarrow> (case filter (matches config) cs of
          [] \<Rightarrow> 512
        | r # _ \<Rightarrow> (case cr_buffer r of BufferRange mn _ \<Rightarrow> mn | UnknownRange \<Rightarrow> 512)))"

subsection \<open>Enumeration: what it lists\<close>

lemma strict_remdups_adj: "sorted xs \<Longrightarrow> sorted_wrt (<) (remdups_adj (xs :: 'a::linorder list))"
  by (induction xs rule: remdups_adj.induct) (auto simp: order.order_iff_strict)

lemma ranges_of_sorted:
  "ranges_of cfg = (rates, chans) \<Longrightarrow> sorted_wrt (<) rates \<and> sorted_wrt (<) chans"
  by (auto simp: ranges_of_def strict_remdups_adj split: result.splits)

definition has_role :: "cpal_device \<Rightarrow> bool" where
  "has_role d \<longleftrightarrow> probes (out_configs d) \<or> probes (in_configs d)"

definition shown_name :: "cpal_device \<Rightarrow> rstring" where
  "shown_name d = unwrap_or (str_lit ''<unknown>'') (cpal_name d)"

lemmas builder_defs = build_device_def set_capabilities_def set_channel_counts_def set_sample_rates_def
  set_input_def set_output_def device_builder_def device_info_default_def

lemma describe_any_cases:
  "if has_role d then
     (\<exists>i. describe_any d = Some i \<and> dev_name i = shown_name d \<and> \<not> is_default i \<and>
       is_output i = probes (out_configs d) \<and> is_input i = probes (in_configs d) \<and>
       sorted_wrt (<) (sample_rates i) \<and> sorted_wrt (<) (channel_counts i))
   else describe_any d = None"
  using ranges_of_sorted [of "out_configs d"] ranges_of_sorted [of "in_configs d"]
  by (auto simp: describe_any_def has_role_def shown_name_def builder_defs Let_def
      collect_config_ranges_def collect_input_config_ranges_def split: prod.splits)

text \<open>What a listed device must satisfy, given the name of the default device.\<close>

definition listed_ok :: "rstring option \<Rightarrow> device_info \<Rightarrow> bool" where
  "listed_ok def i \<longleftrightarrow> (is_input i \<or> is_output i) \<and>
     is_default i = (is_output i \<and> def = Some (dev_name i)) \<and>
     sorted_wrt (<) (sample_rates i) \<and> sorted_wrt (<) (channel_counts i)"

lemma mark_default_map:
  "mark_default def infos = map (\<lambda>i. if is_output i \<and> default_name def = Some (dev_name i)
     then i\<lparr>is_default := True\<rparr> else i) infos"
  by (auto simp: mark_default_def default_name_def split: option.splits result.splits intro!: map_idI [symmetric])

lemma describe_all:
  "map dev_name (List.map_filter describe_any ds) = map shown_name (filter has_role ds) \<and>
   list_all (listed_ok None) (List.map_filter describe_any ds)"
proof (induction ds)
  case (Cons d ds)
  with describe_any_cases [of d] show ?case
    by (cases "has_role d") (auto simp: List.map_filter_def listed_ok_def has_role_def)
qed (simp add: List.map_filter_def)

subsection \<open>Properties\<close>


definition sample_device :: cpal_device where
  "sample_device = \<lparr>cpal_name = Ok (str_lit ''usb''),
     out_configs = Ok [\<lparr>cr_channels = 2, cr_min_rate = 44100, cr_max_rate = 48000,
         cr_buffer = BufferRange 64 4096, cr_format = C_U16\<rparr>,
       \<lparr>cr_channels = 2, cr_min_rate = 8000, cr_max_rate = 96000,
         cr_buffer = UnknownRange, cr_format = C_F32\<rparr>],
     in_configs = Ok [],
     default_out = Ok \<lparr>dc_config = \<lparr>cc_channels = 2, cc_rate = 48000, cc_buffer = None\<rparr>,
       dc_buffer = BufferRange 64 4096, dc_format = C_U16\<rparr>,
     default_in = Err (UnsupportedOperation, [])\<rparr>"


text \<open>
  Enumeration of all devices lists, in order, exactly the devices that have an output or
  an input configuration; each listed device has a role, its rates and channel counts strictly
  increase, and it is marked as default exactly when it is an output with the name of the
  default output device. The only failure is that the host cannot list its devices.
\<close>

lemma enumerate_all_spec:
  "enumerate_all h =
     (case all_devices h of
        Ok ds \<Rightarrow> Ok (mark_default (default_output_dev h) (List.map_filter describe_any ds))
      | Err e \<Rightarrow> Err (Device [Str (snd e)])
      | Panic \<Rightarrow> Panic) \<and>
   (case enumerate_all h of
      Ok infos \<Rightarrow> list_all (listed_ok (default_name (default_output_dev h))) infos \<and>
        map dev_name infos = map shown_name (filter has_role (unwrap_or [] (all_devices h)))
    | _ \<Rightarrow> unwrap_or [] (all_devices h) = [])"
proof (cases "all_devices h")
  case (Ok ds)
  let ?infos = "List.map_filter describe_any ds"
  have "list_all (listed_ok (default_name (default_output_dev h))) (mark_default (default_output_dev h) ?infos)"
    using describe_all [of ds] by (auto simp: mark_default_map listed_ok_def list_all_iff)
  moreover have "map dev_name (mark_default (default_output_dev h) ?infos) = map dev_name ?infos"
    by (auto simp: mark_default_map)
  ultimately show ?thesis using describe_all [of ds] Ok by (simp add: enumerate_all_def)
qed (simp_all add: enumerate_all_def device_err_def)

end
