(* ===== verification/Ieee.thy ===== *)
theory Ieee
  imports Complex_Main Prelude
begin

text \<open>
  The floating-point numbers of the code: \<open>f32\<close> and \<open>f64\<close> as the bit patterns of IEEE 754, with
  \<open>mb\<close> bits of fraction (23 and 52) and \<open>eb\<close> bits of exponent (8 and 11). \<open>unpack\<close> is the value of
  a pattern, a rational number unless it is an infinity or a NaN; the sign of a zero is not kept,
  since no computation modelled here depends on it. \<open>fl\<close> is the rounding of a result to the nearest
  number, ties to even, and \<open>pack\<close> the pattern of the result. Every definition computes.
\<close>

datatype fval = NotANumber | Infinite bool | Finite rat

subsection \<open>Binary logarithm\<close>

fun log2n :: "nat \<Rightarrow> nat" where
  "log2n n = (if n < 2 then 0 else Suc (log2n (n div 2)))"

declare log2n.simps [simp del]

definition ilog2 :: "rat \<Rightarrow> int" where
  "ilog2 q = (let (a, b) = quotient_of q; k = int (log2n (nat a)) - int (log2n (nat b))
     in if 2 powi k \<le> q then k else k - 1)"

subsection \<open>Rounding\<close>

text \<open>To the nearest integer: ties to the even one, and \<open>f32::round\<close> with ties away from zero.\<close>

definition round_even :: "rat \<Rightarrow> int" where
  "round_even q = (let f = \<lfloor>q\<rfloor>; d = q - of_int f
     in if d < 1 / 2 then f else if 1 / 2 < d then f + 1 else if even f then f else f + 1)"

definition round_away :: "rat \<Rightarrow> int" where
  "round_away q = (if q < 0 then - \<lfloor>- q + 1 / 2\<rfloor> else \<lfloor>q + 1 / 2\<rfloor>)"

definition emin :: "nat \<Rightarrow> int" where
  "emin eb = 2 - 2 ^ (eb - 1)"

definition ulp_exp :: "nat \<Rightarrow> nat \<Rightarrow> rat \<Rightarrow> int" where
  "ulp_exp mb eb q = max (ilog2 q) (emin eb) - int mb"

definition fl_mag :: "nat \<Rightarrow> nat \<Rightarrow> rat \<Rightarrow> rat" where
  "fl_mag mb eb q = (if q = 0 then 0 else
     (let u = 2 powi (ulp_exp mb eb q) in of_int (round_even (q / u)) * u))"

text \<open>The rounded result, for results that do not overflow.\<close>

definition fl :: "nat \<Rightarrow> nat \<Rightarrow> rat \<Rightarrow> rat" where
  "fl mb eb q = (if q < 0 then - fl_mag mb eb (- q) else fl_mag mb eb q)"

abbreviation fl32 :: "rat \<Rightarrow> rat" where "fl32 \<equiv> fl 23 8"
abbreviation fl64 :: "rat \<Rightarrow> rat" where "fl64 \<equiv> fl 52 11"

subsection \<open>Bit patterns\<close>

definition unpack_mag :: "nat \<Rightarrow> nat \<Rightarrow> nat \<Rightarrow> rat" where
  "unpack_mag mb eb n =
     (if n div 2 ^ mb = 0 then of_nat n * 2 powi (emin eb - int mb)
      else of_nat (2 ^ mb + n mod 2 ^ mb) * 2 powi (emin eb + int (n div 2 ^ mb) - 1 - int mb))"

definition unpack :: "nat \<Rightarrow> nat \<Rightarrow> nat \<Rightarrow> fval" where
  "unpack mb eb n = (let neg = odd (n div 2 ^ (mb + eb)); mag = n mod 2 ^ (mb + eb)
     in if mag div 2 ^ mb = 2 ^ eb - 1
        then (if mag mod 2 ^ mb = 0 then Infinite neg else NotANumber)
        else Finite (if neg then - unpack_mag mb eb mag else unpack_mag mb eb mag))"

definition pack_mag :: "nat \<Rightarrow> nat \<Rightarrow> rat \<Rightarrow> nat" where
  "pack_mag mb eb q = (if q = 0 then 0 else
     (let u = ulp_exp mb eb q
      in min (nat (u + int mb - emin eb) * 2 ^ mb + nat (round_even (q / 2 powi u)))
           ((2 ^ eb - 1) * 2 ^ mb)))"

definition pack :: "nat \<Rightarrow> nat \<Rightarrow> rat \<Rightarrow> nat" where
  "pack mb eb q = (if q < 0 then 2 ^ (mb + eb) + pack_mag mb eb (- q) else pack_mag mb eb q)"

definition val32 :: "32 word \<Rightarrow> fval" where "val32 w = unpack 23 8 (unat w)"
definition val64 :: "64 word \<Rightarrow> fval" where "val64 w = unpack 52 11 (unat w)"
definition bits32 :: "rat \<Rightarrow> 32 word" where "bits32 q = word_of_nat (pack 23 8 q)"
definition bits64 :: "rat \<Rightarrow> 64 word" where "bits64 q = word_of_nat (pack 52 11 q)"

text \<open>A cast of a float to an integer type truncates and saturates; a NaN becomes zero.\<close>

definition trunc :: "rat \<Rightarrow> int" where
  "trunc q = (if q < 0 then - \<lfloor>- q\<rfloor> else \<lfloor>q\<rfloor>)"

fun cast_int :: "int \<Rightarrow> int \<Rightarrow> fval \<Rightarrow> int" where
  "cast_int lo hi NotANumber = 0"
| "cast_int lo hi (Infinite neg) = (if neg then lo else hi)"
| "cast_int lo hi (Finite q) = max lo (min hi (trunc q))"

subsection \<open>The logarithm and the roundings\<close>

lemma log2n_bounds: "0 < n \<Longrightarrow> 2 ^ log2n n \<le> n \<and> n < 2 * 2 ^ log2n n"
proof (induction n rule: log2n.induct)
  case (1 n)
  show ?case
  proof (cases "n < 2")
    case True
    with 1(2) show ?thesis by (simp add: log2n.simps [of n])
  next
    case False
    with 1(1) have "2 ^ log2n (n div 2) \<le> n div 2 \<and> n div 2 < 2 * 2 ^ log2n (n div 2)" by simp
    with False show ?thesis by (simp add: log2n.simps [of n]) linarith
  qed
qed

lemma powi_mono: "m \<le> n \<Longrightarrow> (2 :: rat) powi m \<le> 2 powi n"
  by (simp add: power_int_increasing)

lemma powi_pos [simp]: "(0 :: rat) < 2 powi n"
  by (simp add: power_int_def)

lemma powi_less_iff: "(2 :: rat) powi m < 2 powi n \<longleftrightarrow> m < n"
  using power_int_strict_increasing [of m n "2 :: rat"] powi_mono [of n m] by (cases "m < n") auto

lemma powi_Suc: "(2 :: rat) powi (n + 1) = 2 * 2 powi n"
  by (simp add: power_int_add)

lemma powi_diff: "(2 :: rat) powi m / 2 powi n = 2 powi (m - n)"
  by (simp add: power_int_diff)

lemma ilog2_bounds:
  assumes "0 < q"
  shows "2 powi ilog2 q \<le> q \<and> q < 2 powi (ilog2 q + 1)"
proof -
  obtain a b where ab: "quotient_of q = (a, b)" by (cases "quotient_of q")
  then have q: "q = of_int a / of_int b" and b: "0 < b"
    using quotient_of_div quotient_of_denom_pos by auto
  with assms have a: "0 < a" by (simp add: zero_less_divide_iff)
  define i j where "i = log2n (nat a)" and "j = log2n (nat b)"
  have "(2 :: nat) ^ i \<le> nat a \<and> nat a < 2 * 2 ^ i" "(2 :: nat) ^ j \<le> nat b \<and> nat b < 2 * 2 ^ j"
    using log2n_bounds [of "nat a"] log2n_bounds [of "nat b"] a b by (simp_all add: i_def j_def)
  then have "rat_of_nat (2 ^ i) \<le> of_nat (nat a)" "rat_of_nat (nat a) < of_nat (2 * 2 ^ i)"
    "rat_of_nat (2 ^ j) \<le> of_nat (nat b)" "rat_of_nat (nat b) < of_nat (2 * 2 ^ j)"
    by (simp_all only: of_nat_le_iff of_nat_less_iff)
  then have I: "(2 :: rat) ^ i \<le> of_int a" "of_int a < (2 :: rat) * 2 ^ i"
    and J: "(2 :: rat) ^ j \<le> of_int b" "of_int b < (2 :: rat) * 2 ^ j"
    using a b by simp_all
  have k: "(2 :: rat) powi (int i - int j) = 2 ^ i / 2 ^ j"
    by (simp add: power_int_diff)
  have "of_int a / of_int b < (2 * 2 ^ i) / (2 ^ j :: rat)"
    using I J a by (intro frac_less) auto
  then have up: "q < 2 powi (int i - int j + 1)"
    using powi_Suc [of "int i - int j"] k q by simp
  have "2 ^ i / (2 * 2 ^ j) \<le> of_int a / (of_int b :: rat)"
    using I J a b by (intro frac_le) auto
  then have low: "2 powi (int i - int j - 1) \<le> q"
    using powi_Suc [of "int i - int j - 1"] k q by simp
  show ?thesis
    using up low by (auto simp: ilog2_def ab i_def j_def Let_def)
qed

lemma ilog2_less: "0 < q \<Longrightarrow> q < 2 powi k \<Longrightarrow> ilog2 q < k"
  using ilog2_bounds [of q] powi_less_iff [of "ilog2 q" k] by linarith

lemma round_even_error: "\<bar>of_int (round_even q) - q\<bar> \<le> 1 / 2"
  using floor_correct [of q] by (auto simp: round_even_def Let_def)

lemma round_even_int [simp]: "round_even (of_int n) = n"
  by (simp add: round_even_def)

lemma round_even_ge: "of_int n \<le> q \<Longrightarrow> n \<le> round_even q"
  using le_floor_iff [of n q] by (auto simp: round_even_def Let_def)

lemma round_even_le:
  assumes "q \<le> of_int n"
  shows "round_even q \<le> n"
proof (cases "q = of_int n")
  case False
  with assms have "q < of_int n" by simp
  then have "\<lfloor>q\<rfloor> < n" by (simp add: floor_less_iff)
  then show ?thesis by (auto simp: round_even_def Let_def)
qed simp

lemma round_away_error: "\<bar>of_int (round_away q) - q\<bar> \<le> 1 / 2"
proof (cases "q < 0")
  case True
  have "of_int \<lfloor>- q + 1 / 2\<rfloor> \<le> - q + 1 / 2 \<and> - q + 1 / 2 < of_int \<lfloor>- q + 1 / 2\<rfloor> + 1"
    by (intro conjI of_int_floor_le) linarith
  with True show ?thesis unfolding round_away_def abs_le_iff by (simp only: if_True of_int_minus) linarith
next
  case False
  have "of_int \<lfloor>q + 1 / 2\<rfloor> \<le> q + 1 / 2 \<and> q + 1 / 2 < of_int \<lfloor>q + 1 / 2\<rfloor> + 1"
    by (intro conjI of_int_floor_le) linarith
  with False show ?thesis unfolding round_away_def abs_le_iff by (simp only: if_False) linarith
qed

lemma trunc_int [simp]: "trunc (of_int n) = n"
  by (simp add: trunc_def flip: of_int_minus)

subsection \<open>Rounding to floating-point numbers\<close>

lemma fl_mag_error:
  assumes "0 < q"
  shows "\<bar>fl_mag mb eb q - q\<bar> \<le> 2 powi (ulp_exp mb eb q) / 2"
proof -
  define u :: rat where "u = 2 powi (ulp_exp mb eb q)"
  have u: "0 < u" by (simp add: u_def)
  have "\<bar>of_int (round_even (q / u)) - q / u\<bar> * u \<le> 1 / 2 * u"
    using round_even_error [of "q / u"] u by (intro mult_right_mono) auto
  moreover have "\<bar>of_int (round_even (q / u)) - q / u\<bar> * u = \<bar>(of_int (round_even (q / u)) - q / u) * u\<bar>"
    using u by (simp add: abs_mult)
  moreover have "(of_int (round_even (q / u)) - q / u) * u = of_int (round_even (q / u)) * u - q"
    using u by (simp add: left_diff_distrib)
  ultimately show ?thesis
    using assms by (simp add: fl_mag_def Let_def flip: u_def)
qed

lemma ulp_exp_less:
  assumes "0 < q" and "q < 2 powi k" and "emin eb < k"
  shows "ulp_exp mb eb q \<le> k - 1 - int mb"
  using ilog2_less [OF assms(1,2)] assms(3) by (simp add: ulp_exp_def)

lemma fl_error:
  assumes "\<bar>q\<bar> < 2 powi k" and "emin eb < k"
  shows "\<bar>fl mb eb q - q\<bar> \<le> 2 powi (k - int mb - 2)"
proof -
  have pos: "\<bar>fl_mag mb eb x - x\<bar> \<le> 2 powi (k - int mb - 2)" if "0 < x" "x < 2 powi k" for x
  proof -
    have "(2 :: rat) powi (ulp_exp mb eb x) \<le> 2 powi (k - int mb - 2 + 1)"
      using ulp_exp_less [OF that assms(2), of mb] by (intro powi_mono) simp
    then show ?thesis
      using fl_mag_error [OF that(1), of mb eb] powi_Suc [of "k - int mb - 2"] by linarith
  qed
  consider "q = 0" | "0 < q" | "q < 0" by linarith
  then show ?thesis
  proof cases
    case 1
    then show ?thesis by (simp add: fl_def fl_mag_def)
  next
    case 2
    with assms(1) pos [of q] show ?thesis by (simp add: fl_def)
  next
    case 3
    with assms(1) pos [of "- q"] show ?thesis by (simp add: fl_def abs_minus_commute)
  qed
qed

text \<open>A number with few enough significant bits is not changed.\<close>

lemma fl_mag_exact:
  assumes m: "0 < m" "m < 2 ^ (mb + 1)" and k: "emin eb - int mb \<le> k"
  shows "fl_mag mb eb (of_int m * 2 powi k) = of_int m * 2 powi k"
proof -
  define q :: rat where "q = of_int m * 2 powi k"
  define u where "u = ulp_exp mb eb q"
  have q: "0 < q" using m by (simp add: q_def)
  have "of_int m < (2 :: rat) ^ (mb + 1)"
    using m(2) of_int_less_iff [of m "2 ^ (mb + 1)", where 'a = rat] by simp
  then have "q < 2 ^ (mb + 1) * 2 powi k"
    by (simp add: q_def)
  also have "\<dots> = 2 powi (int (mb + 1) + k)"
    by (simp add: power_int_add del: of_nat_add)
  finally have "ilog2 q < int (mb + 1) + k" by (rule ilog2_less [OF q])
  with k have "u \<le> k" by (simp add: u_def ulp_exp_def)
  then have "q / 2 powi u = of_int m * 2 ^ nat (k - u)"
    by (simp add: q_def powi_diff power_int_nonneg_exp flip: times_divide_eq_right)
  also have "\<dots> = of_int (m * 2 ^ nat (k - u))"
    by simp
  finally have int: "q / 2 powi u = of_int (m * 2 ^ nat (k - u))" .
  then have "round_even (q / 2 powi u) = m * 2 ^ nat (k - u)"
    by (simp only: round_even_int)
  with int have "of_int (round_even (q / 2 powi u)) * 2 powi u = q / 2 powi u * 2 powi u"
    by (simp only:)
  also have "\<dots> = q"
    using powi_pos [of u] by (simp del: powi_pos)
  finally have "of_int (round_even (q / 2 powi u)) * 2 powi u = q" .
  with q show ?thesis
    by (simp add: fl_mag_def Let_def flip: q_def u_def)
qed

lemma fl_exact:
  assumes "\<bar>m\<bar> < 2 ^ (mb + 1)" and "emin eb - int mb \<le> k"
  shows "fl mb eb (of_int m * 2 powi k) = of_int m * 2 powi k"
proof -
  consider "m = 0" | "0 < m" | "m < 0" by linarith
  then show ?thesis
  proof cases
    case 1
    then show ?thesis by (simp add: fl_def fl_mag_def)
  next
    case 2
    then have "\<not> of_int m * 2 powi k < (0 :: rat)" by (simp add: not_less)
    with 2 assms fl_mag_exact [of m mb eb k] show ?thesis by (simp add: fl_def)
  next
    case 3
    then have "of_int m * 2 powi k < (0 :: rat)" by (simp add: mult_neg_pos)
    with 3 assms fl_mag_exact [of "- m" mb eb k] show ?thesis by (simp add: fl_def)
  qed
qed

subsection \<open>Packing and unpacking\<close>

text \<open>The quotient of a positive number by its unit in the last place has at most \<open>mb + 1\<close> bits.\<close>

lemma significand_bounds:
  fixes mb eb q
  defines "u \<equiv> ulp_exp mb eb q"
  assumes "0 < q"
  shows "0 \<le> round_even (q / 2 powi u)" and "round_even (q / 2 powi u) \<le> 2 ^ (mb + 1)"
    and "emin eb < u + int mb \<Longrightarrow> 2 ^ mb \<le> round_even (q / 2 powi u)"
proof -
  note b = ilog2_bounds [OF assms(2)]
  show "0 \<le> round_even (q / 2 powi u)"
    using assms(2) by (intro round_even_ge) simp
  have "(2 :: rat) powi (ilog2 q + 1) \<le> 2 powi (u + int (mb + 1))"
    by (intro powi_mono) (simp add: u_def ulp_exp_def)
  with b have "q \<le> 2 powi u * 2 ^ (mb + 1)"
    by (simp add: power_int_add)
  then have "q / 2 powi u \<le> of_int (2 ^ (mb + 1))"
    by (simp add: pos_divide_le_eq mult.commute)
  then show "round_even (q / 2 powi u) \<le> 2 ^ (mb + 1)" by (rule round_even_le)
  assume "emin eb < u + int mb"
  then have "u + int mb = ilog2 q" by (simp add: u_def ulp_exp_def)
  then have "2 powi u * 2 ^ mb \<le> q"
    using b by (simp flip: power_int_of_nat power_int_add)
  then have "of_int (2 ^ mb) \<le> q / 2 powi u"
    by (simp add: pos_le_divide_eq mult.commute)
  then show "2 ^ mb \<le> round_even (q / 2 powi u)" by (rule round_even_ge)
qed

text \<open>A pattern is the exponent above the smallest times \<open>2 ^ mb\<close>, plus the significand.\<close>

lemma unpack_mag_significand:
  assumes "m \<le> 2 ^ (mb + 1)" and "d = 0 \<or> 2 ^ mb \<le> m"
  shows "unpack_mag mb eb (d * 2 ^ mb + m) = of_nat m * 2 powi (emin eb + int d - int mb)"
proof -
  define N where "N = d * 2 ^ mb + m"
  consider "m < 2 ^ mb" "d = 0" | "2 ^ mb \<le> m" "m < 2 ^ (mb + 1)" | "m = 2 ^ (mb + 1)"
    using assms by fastforce
  then have "unpack_mag mb eb N = of_nat m * 2 powi (emin eb + int d - int mb)"
  proof cases
    case 1
    then show ?thesis by (simp add: unpack_mag_def N_def)
  next
    case 2
    then obtain r where r: "m = 2 ^ mb + r" "r < 2 ^ mb"
      using le_Suc_ex [OF 2(1)] by auto
    then have N: "N = r + (d + 1) * 2 ^ mb" by (simp add: N_def)
    have "N div 2 ^ mb = d + 1" "N mod 2 ^ mb = r"
      using r by (simp_all add: N div_mult_self1 del: mult_Suc add_Suc_right Suc_eq_plus1)
    with r show ?thesis by (simp add: unpack_mag_def)
  next
    case 3
    then have N: "N = (d + 2) * 2 ^ mb" by (simp add: N_def)
    have "N div 2 ^ mb = d + 2" "N mod 2 ^ mb = 0"
      by (simp_all add: N)
    moreover have "emin eb + int d + 1 - int mb = (emin eb + int d - int mb) + 1" by simp
    ultimately show ?thesis
      using 3 powi_Suc [of "emin eb + int d - int mb"]
      by (simp add: unpack_mag_def algebra_simps)
  qed
  then show ?thesis by (simp add: N_def)
qed

lemma fl_mag_significand:
  assumes "0 < q"
  shows "\<exists>d m. nat (ulp_exp mb eb q + int mb - emin eb) = d \<and>
      nat (round_even (q / 2 powi ulp_exp mb eb q)) = m \<and> m \<le> 2 ^ (mb + 1) \<and>
      (d = 0 \<or> 2 ^ mb \<le> m) \<and> fl_mag mb eb q = of_nat m * 2 powi (emin eb + int d - int mb)"
proof -
  define u where "u = ulp_exp mb eb q"
  define m where "m = nat (round_even (q / 2 powi u))"
  note b = significand_bounds [OF assms, where mb = mb and eb = eb, folded u_def]
  have ge: "emin eb - int mb \<le> u" by (simp add: u_def ulp_exp_def)
  have m: "int m = round_even (q / 2 powi u)" using b(1) by (simp add: m_def)
  then have m': "of_int (round_even (q / 2 powi u)) = (of_nat m :: rat)"
    by (metis of_int_of_nat_eq)
  have "int m \<le> int (2 ^ (mb + 1))" using b(2) m by simp
  then have f1: "m \<le> 2 ^ (mb + 1)" by (simp only: of_nat_le_iff)
  have f2: "nat (u + int mb - emin eb) = 0 \<or> 2 ^ mb \<le> m"
  proof (cases "emin eb < u + int mb")
    case True
    then have "int (2 ^ mb) \<le> int m" using b(3) m by simp
    then have "2 ^ mb \<le> m" by (simp only: of_nat_le_iff)
    then show ?thesis ..
  qed simp
  have "fl_mag mb eb q = of_nat m * 2 powi u"
    using assms m' by (simp add: fl_mag_def Let_def flip: u_def)
  moreover have "u = emin eb + int (nat (u + int mb - emin eb)) - int mb" using ge by simp
  ultimately have f3: "fl_mag mb eb q = of_nat m * 2 powi (emin eb + int (nat (u + int mb - emin eb)) - int mb)"
    by metis
  from f1 f2 f3 show ?thesis
    unfolding m_def u_def by blast
qed

lemma unpack_pack_mag:
  assumes "0 \<le> q" and "pack_mag mb eb q < (2 ^ eb - 1) * 2 ^ mb"
  shows "unpack_mag mb eb (pack_mag mb eb q) = fl_mag mb eb q"
proof (cases "q = 0")
  case True
  then show ?thesis by (simp add: pack_mag_def unpack_mag_def fl_mag_def)
next
  case False
  with assms have "0 < q" by simp
  from fl_mag_significand [OF this, of mb eb] obtain d m where
    dm: "nat (ulp_exp mb eb q + int mb - emin eb) = d"
      "nat (round_even (q / 2 powi ulp_exp mb eb q)) = m"
      "m \<le> 2 ^ (mb + 1)" "d = 0 \<or> 2 ^ mb \<le> m"
    and val: "fl_mag mb eb q = of_nat m * 2 powi (emin eb + int d - int mb)"
    by blast
  have "pack_mag mb eb q = min (d * 2 ^ mb + m) ((2 ^ eb - 1) * 2 ^ mb)"
    using False by (simp add: pack_mag_def Let_def dm(1,2))
  with assms have "pack_mag mb eb q = d * 2 ^ mb + m" by linarith
  with dm(3,4) val show ?thesis by (simp add: unpack_mag_significand)
qed

lemma unpack_pack:
  assumes "pack_mag mb eb \<bar>q\<bar> < (2 ^ eb - 1) * 2 ^ mb"
  shows "unpack mb eb (pack mb eb q) = Finite (fl mb eb q)"
proof -
  define p where "p = pack_mag mb eb \<bar>q\<bar>"
  define M :: nat where "M = 2 ^ (mb + eb)"
  have "p < 2 ^ eb * 2 ^ mb"
    using assms by (simp add: p_def diff_mult_distrib)
  then have p: "p < M" by (simp add: M_def power_add mult.commute)
  have pd: "p div 2 ^ mb < 2 ^ eb - 1"
    using assms by (simp add: p_def less_mult_imp_div_less)
  have pack: "pack mb eb q = (if q < 0 then M + p else p)"
    by (simp add: pack_def p_def M_def)
  have "pack mb eb q div M = (if q < 0 then 1 else 0)" "pack mb eb q mod M = p"
    using p by (simp_all add: pack)
  moreover have "unpack_mag mb eb p = fl_mag mb eb \<bar>q\<bar>"
    using unpack_pack_mag [of "\<bar>q\<bar>" mb eb] assms by (simp add: p_def)
  ultimately show ?thesis
    using pd by (auto simp: unpack_def Let_def fl_def simp flip: M_def)
qed

text \<open>Numbers below one are far from the overflow.\<close>

lemma pack_mag_small:
  assumes "0 \<le> q" and "q < 2" and "3 \<le> eb"
  shows "pack_mag mb eb q < (2 ^ eb - 1) * 2 ^ mb"
proof (cases "q = 0")
  case True
  have "(1 :: nat) < 2 ^ eb" using assms(3) by (intro one_less_power) auto
  with True show ?thesis by (simp add: pack_mag_def)
next
  case False
  with assms have q: "0 < q" by simp
  from fl_mag_significand [OF this, of mb eb] obtain d m where
    dm: "nat (ulp_exp mb eb q + int mb - emin eb) = d"
      "nat (round_even (q / 2 powi ulp_exp mb eb q)) = m" "m \<le> 2 ^ (mb + 1)"
    by blast
  define k where "k = eb - 3"
  with assms(3) have k: "eb = Suc (Suc (Suc k))" by simp
  have "(1 :: int) \<le> 2 ^ k" by simp
  then have "(1 :: int) < 4 * 2 ^ k" by linarith
  then have "emin eb < 1" by (simp add: emin_def k)
  from ulp_exp_less [OF q _ this, of mb] assms(2)
  have "ulp_exp mb eb q + int mb - emin eb \<le> 2 ^ (eb - 1) - 2"
    by (simp add: emin_def)
  then have "d \<le> 2 ^ (eb - 1) - 2"
    using dm(1) by (auto simp: nat_le_iff of_nat_diff k)
  then have "d \<le> 4 * 2 ^ k - 2" by (simp add: k)
  then have "d + 3 < 8 * 2 ^ k"
    using one_le_power [of "2 :: nat" k] by linarith
  then have "d + 3 < 2 ^ eb" by (simp add: k)
  then have "(d + 3) * 2 ^ mb < 2 ^ eb * 2 ^ mb" by simp
  with dm(3) have "d * 2 ^ mb + m < (2 ^ eb - 1) * 2 ^ mb"
    by (simp add: diff_mult_distrib algebra_simps)
  with False show ?thesis by (simp add: pack_mag_def Let_def dm(1,2))
qed

lemma val32_bits32:
  assumes "\<bar>q\<bar> < 2"
  shows "val32 (bits32 q) = Finite (fl32 q)"
proof -
  have small: "pack_mag 23 8 \<bar>q\<bar> < (2 ^ 8 - 1) * 2 ^ 23"
    using assms by (intro pack_mag_small) auto
  then have "pack 23 8 q < 2 ^ 32"
    by (auto simp: pack_def)
  then have "unat (bits32 q) = pack 23 8 q" by (simp add: bits32_def)
  with unpack_pack [OF small] show ?thesis by (simp add: val32_def)
qed

end
