(* ===== verification/Ieee_Order.thy ===== *)
theory Ieee_Order
  imports Ieee
begin

text \<open>
  How rounding behaves: it is monotone, it keeps numbers that are representable already, and its
  relative error is at most half a unit in the last place of a normal number.
\<close>

lemma round_even_mono: "p \<le> q \<Longrightarrow> round_even p \<le> round_even q"
proof -
  assume le: "p \<le> q"
  show ?thesis
  proof (cases "\<lfloor>p\<rfloor> = \<lfloor>q\<rfloor>")
    case True
    with le show ?thesis by (auto simp: round_even_def Let_def)
  next
    case False
    with le have "\<lfloor>p\<rfloor> + 1 \<le> \<lfloor>q\<rfloor>" using floor_mono [OF le] by linarith
    then have "of_int (\<lfloor>p\<rfloor> + 1) \<le> q" by (simp add: le_floor_iff)
    moreover have "p \<le> of_int (\<lfloor>p\<rfloor> + 1)" by linarith
    ultimately show ?thesis
      using round_even_le [of p "\<lfloor>p\<rfloor> + 1"] round_even_ge [of "\<lfloor>p\<rfloor> + 1" q] by linarith
  qed
qed

lemma ilog2_mono:
  assumes "0 < p" and "p \<le> q"
  shows "ilog2 p \<le> ilog2 q"
proof -
  have "2 powi ilog2 p < (2 :: rat) powi (ilog2 q + 1)"
    using ilog2_bounds [OF assms(1)] ilog2_bounds [of q] assms by linarith
  then show ?thesis by (simp add: powi_less_iff)
qed

lemma fl_mag_nonneg: "0 \<le> q \<Longrightarrow> 0 \<le> fl_mag mb eb q"
  using significand_bounds(1) [of q mb eb] by (cases "q = 0") (auto simp: fl_mag_def Let_def)

lemma fl_mag_mono:
  assumes "0 < p" and "p \<le> q"
  shows "fl_mag mb eb p \<le> fl_mag mb eb q"
proof -
  define u v where "u = ulp_exp mb eb p" and "v = ulp_exp mb eb q"
  have q: "0 < q" using assms by simp
  have uv: "u \<le> v" using ilog2_mono [OF assms] by (auto simp: u_def v_def ulp_exp_def)
  have fp: "fl_mag mb eb p = of_int (round_even (p / 2 powi u)) * 2 powi u"
    and fq: "fl_mag mb eb q = of_int (round_even (q / 2 powi v)) * 2 powi v"
    using assms q by (simp_all add: fl_mag_def Let_def u_def v_def)
  show ?thesis
  proof (cases "u = v")
    case True
    have "round_even (p / 2 powi u) \<le> round_even (q / 2 powi u)"
      using assms by (intro round_even_mono divide_right_mono) auto
    then show ?thesis unfolding fp fq True [symmetric] by (intro mult_right_mono) auto
  next
    case False
    with uv have less: "u + 1 \<le> v" by simp
    have "emin eb < v + int mb" using less by (simp add: u_def ulp_exp_def)
    then have "2 ^ mb \<le> round_even (q / 2 powi v)"
      using significand_bounds(3) [OF q, of eb mb] by (simp add: v_def)
    then have "of_int (2 ^ mb) \<le> (of_int (round_even (q / 2 powi v)) :: rat)" by (simp only: of_int_le_iff)
    then have "of_int (2 ^ mb) * 2 powi v \<le> fl_mag mb eb q"
      unfolding fq by (intro mult_right_mono) auto
    moreover have "of_int (round_even (p / 2 powi u)) \<le> (of_int (2 ^ (mb + 1)) :: rat)"
      using significand_bounds(2) [OF assms(1), of mb eb] by (simp only: of_int_le_iff u_def)
    then have "fl_mag mb eb p \<le> of_int (2 ^ (mb + 1)) * 2 powi u"
      unfolding fp by (intro mult_right_mono) auto
    moreover have "of_int (2 ^ (mb + 1)) * 2 powi u = of_int (2 ^ mb) * (2 :: rat) powi (u + 1)"
      using powi_Suc [of u] by simp
    moreover have "of_int (2 ^ mb) * (2 :: rat) powi (u + 1) \<le> of_int (2 ^ mb) * 2 powi v"
      using powi_mono [OF less] by (intro mult_left_mono) auto
    ultimately show ?thesis by linarith
  qed
qed

lemma fl_0 [simp]: "fl mb eb 0 = 0"
  by (simp add: fl_def fl_mag_def)

lemma fl_nonneg: "0 \<le> q \<Longrightarrow> 0 \<le> fl mb eb q"
  using fl_mag_nonneg [of q mb eb] by (simp add: fl_def)

lemma fl_mono:
  assumes "p \<le> q"
  shows "fl mb eb p \<le> fl mb eb q"
proof -
  consider "q \<le> 0" "p < 0" "q < 0" | "p < 0" "0 \<le> q" | "p = 0" "0 \<le> q" | "0 < p"
    using assms by linarith
  then show ?thesis
  proof cases
    case 1
    with assms fl_mag_mono [of "- q" "- p" mb eb] show ?thesis by (simp add: fl_def)
  next
    case 2
    with fl_nonneg [of q mb eb] fl_mag_nonneg [of "- p" mb eb] show ?thesis by (simp add: fl_def)
  next
    case 3
    with fl_nonneg [of q mb eb] show ?thesis by simp
  next
    case 4
    with assms fl_mag_mono [of p q mb eb] show ?thesis by (simp add: fl_def)
  qed
qed

text \<open>A rounded number is representable.\<close>

lemma fl_mag_idem:
  assumes "0 < q"
  shows "fl mb eb (fl_mag mb eb q) = fl_mag mb eb q"
proof -
  obtain d m where m: "m \<le> 2 ^ (mb + 1)" "fl_mag mb eb q = of_nat m * 2 powi (emin eb + int d - int mb)"
    using fl_mag_significand [OF assms, of mb eb] by blast
  define k where "k = emin eb + int d - int mb"
  show ?thesis
  proof (cases "m = 2 ^ (mb + 1)")
    case False
    then have "m < 2 ^ (mb + 1)" using m(1) by simp
    then have "int m < int (2 ^ (mb + 1))" by (simp only: of_nat_less_iff)
    then have "\<bar>int m\<bar> < 2 ^ (mb + 1)" by simp
    from fl_exact [OF this, of eb k] show ?thesis using m(2) by (simp add: k_def)
  next
    case True
    have "\<bar>2 ^ mb :: int\<bar> < 2 ^ (mb + 1)" by simp
    from fl_exact [OF this, of eb "k + 1"] show ?thesis
      using m(2) True powi_Suc [of k] by (simp add: k_def algebra_simps)
  qed
qed

lemma fl_minus: "fl mb eb (- q) = - fl mb eb q"
  by (auto simp: fl_def fl_mag_def)

lemma fl_idem [simp]: "fl mb eb (fl mb eb q) = fl mb eb q"
proof -
  have pos: "fl mb eb (fl mb eb x) = fl mb eb x" if "0 < x" for x
    using fl_mag_idem [OF that, of mb eb] that by (simp add: fl_def)
  consider "q = 0" | "0 < q" | "0 < - q" by linarith
  then show ?thesis using pos [of q] pos [of "- q"] by cases (auto simp: fl_minus)
qed

lemma fl_of_int:
  assumes "\<bar>n\<bar> \<le> 2 ^ mb" and "emin eb \<le> int mb"
  shows "fl mb eb (of_int n) = of_int n"
proof -
  have "(2 :: int) ^ mb < 2 ^ (mb + 1)" by simp
  with assms(1) have "\<bar>n\<bar> < 2 ^ (mb + 1)" by linarith
  from fl_exact [OF this, of eb 0] assms(2) show ?thesis by simp
qed

lemma fl_of_nat:
  assumes "n \<le> 2 ^ mb" and "emin eb \<le> int mb"
  shows "fl mb eb (of_nat n) = of_nat n"
proof -
  have "int n \<le> int (2 ^ mb)" using assms(1) by (simp only: of_nat_le_iff)
  then have "\<bar>int n\<bar> \<le> 2 ^ mb" by simp
  from fl_of_int [OF this assms(2)] show ?thesis by simp
qed

lemma unsigned_rat_nonneg [simp]: "(0 :: rat) \<le> unsigned w"
  using of_nat_0_le_iff [of "unat w", where 'a = rat] by simp

text \<open>The relative error.\<close>

lemma fl_relative:
  assumes "2 powi emin eb \<le> q"
  shows "q * (1 - 1 / 2 ^ (mb + 1)) \<le> fl mb eb q" and "fl mb eb q \<le> q * (1 + 1 / 2 ^ (mb + 1))"
proof -
  have q: "0 < q" using assms powi_pos [of "emin eb"] by linarith
  define u where "u = ulp_exp mb eb q"
  have "2 powi emin eb < (2 :: rat) powi (ilog2 q + 1)"
    using ilog2_bounds [OF q] assms by linarith
  then have "emin eb \<le> ilog2 q" by (simp add: powi_less_iff)
  then have "u = ilog2 q - int mb" by (simp add: u_def ulp_exp_def)
  then have "2 powi u * 2 ^ mb = (2 :: rat) powi ilog2 q"
    by (simp add: power_int_diff)
  then have "2 powi u * 2 ^ mb \<le> q" using ilog2_bounds [OF q] by simp
  then have "2 powi u / 2 \<le> q / 2 ^ (mb + 1)"
    by (simp add: field_simps)
  moreover have "\<bar>fl mb eb q - q\<bar> \<le> 2 powi u / 2"
    using fl_mag_error [OF q, of mb eb] q by (simp add: fl_def u_def)
  ultimately have "\<bar>fl mb eb q - q\<bar> \<le> q * (1 / 2 ^ (mb + 1))" by simp
  then show "q * (1 - 1 / 2 ^ (mb + 1)) \<le> fl mb eb q" and "fl mb eb q \<le> q * (1 + 1 / 2 ^ (mb + 1))"
    unfolding right_diff_distrib distrib_left by linarith+
qed

end
