(* ===== verification/Ieee_Ops.thy ===== *)
theory Ieee_Ops
  imports Ieee_Order
begin

text \<open>
  The operations of \<open>f32\<close> on values, with infinities and NaN. A result that rounds to \<open>2 ^ 128\<close> or more
  is an infinity. The quotient has the bits of its divisor as an argument, because the sign of a
  zero divisor matters.
\<close>

definition round32 :: "rat \<Rightarrow> fval" where
  "round32 q = (let r = fl32 q in if 2 ^ 128 \<le> \<bar>r\<bar> then Infinite (r < 0) else Finite r)"

definition negative :: "fval \<Rightarrow> bool" where
  "negative v = (case v of Finite q \<Rightarrow> q < 0 | Infinite s \<Rightarrow> s | NotANumber \<Rightarrow> False)"

fun add32 :: "fval \<Rightarrow> fval \<Rightarrow> fval" where
  "add32 (Finite p) (Finite q) = round32 (p + q)"
| "add32 (Infinite s) (Finite _) = Infinite s"
| "add32 (Finite _) (Infinite s) = Infinite s"
| "add32 (Infinite s) (Infinite t) = (if s = t then Infinite s else NotANumber)"
| "add32 _ _ = NotANumber"

fun neg_fval :: "fval \<Rightarrow> fval" where
  "neg_fval (Finite q) = Finite (- q)"
| "neg_fval (Infinite s) = Infinite (\<not> s)"
| "neg_fval NotANumber = NotANumber"

definition sub32 :: "fval \<Rightarrow> fval \<Rightarrow> fval" where
  "sub32 v w = add32 v (neg_fval w)"

fun mul32 :: "fval \<Rightarrow> fval \<Rightarrow> fval" where
  "mul32 (Finite p) (Finite q) = round32 (p * q)"
| "mul32 NotANumber _ = NotANumber"
| "mul32 _ NotANumber = NotANumber"
| "mul32 v w = (if v = Finite 0 \<or> w = Finite 0 then NotANumber else Infinite (negative v \<noteq> negative w))"

definition div32 :: "fval \<Rightarrow> 32 word \<Rightarrow> fval" where
  "div32 v w =
     (case (v, val32 w) of
        (Finite p, Finite q) \<Rightarrow>
          (if q = 0 then (if p = 0 then NotANumber else Infinite ((p < 0) \<noteq> bit w 31)) else round32 (p / q))
      | (Finite _, Infinite _) \<Rightarrow> Finite 0
      | (Infinite s, Finite q) \<Rightarrow> Infinite (s \<noteq> bit w 31)
      | _ \<Rightarrow> NotANumber)"

text \<open>The pattern of a value; that of a NaN is the quiet one.\<close>

fun bits_of :: "fval \<Rightarrow> 32 word" where
  "bits_of (Finite q) = bits32 q"
| "bits_of (Infinite s) = (if s then 0xFF800000 else 0x7F800000)"
| "bits_of NotANumber = 0x7FC00000"

text \<open>\<open>n as f32\<close> for an unsigned \<open>n\<close>, and the cast to \<open>usize\<close>.\<close>

definition of_uint :: "nat \<Rightarrow> fval" where
  "of_uint n = Finite (fl32 (of_nat n))"

definition to_usize :: "nat \<Rightarrow> fval \<Rightarrow> nat" where
  "to_usize um v = nat (cast_int 0 (int um) v)"

fun less_val :: "fval \<Rightarrow> fval \<Rightarrow> bool" where
  "less_val (Finite p) (Finite q) \<longleftrightarrow> p < q"
| "less_val (Infinite s) (Finite q) \<longleftrightarrow> s"
| "less_val (Finite p) (Infinite s) \<longleftrightarrow> \<not> s"
| "less_val (Infinite s) (Infinite t) \<longleftrightarrow> s \<and> \<not> t"
| "less_val _ _ \<longleftrightarrow> False"

text \<open>\<open>f32::clamp\<close>, on bit patterns; a NaN is returned as it is.\<close>

definition clamp32 :: "32 word \<Rightarrow> 32 word \<Rightarrow> 32 word \<Rightarrow> 32 word" where
  "clamp32 lo hi x = (if less_val (val32 x) (val32 lo) then lo else if less_val (val32 hi) (val32 x) then hi else x)"

lemma trunc_0 [simp]: "trunc 0 = 0"
  by (simp add: trunc_def)

lemma round32_0 [simp]: "round32 0 = Finite 0"
  by (simp add: round32_def Let_def)

lemma unpack_mag_nonneg: "0 \<le> unpack_mag mb eb n"
  using powi_pos less_imp_le by (simp add: unpack_mag_def)

lemma to_usize_le: "to_usize um v \<le> um"
  by (cases v) (auto simp: to_usize_def)

lemma round32_small: "\<bar>q\<bar> \<le> 2 ^ 127 \<Longrightarrow> round32 q = Finite (fl32 q)"
proof -
  assume q: "\<bar>q\<bar> \<le> 2 ^ 127"
  have "fl32 (of_int 1 * 2 powi 127) = of_int 1 * 2 powi 127"
    by (rule fl_exact) (simp_all add: emin_def)
  then have p: "fl32 (2 ^ 127) = 2 ^ 127" by simp
  from q have "fl32 q \<le> fl32 (2 ^ 127)" "fl32 (- (2 ^ 127)) \<le> fl32 q" by (auto intro: fl_mono)
  then have "\<bar>fl32 q\<bar> \<le> 2 ^ 127" unfolding fl_minus p by (simp add: abs_le_iff)
  moreover have "(2 :: rat) ^ 127 < 2 ^ 128" by simp
  ultimately show ?thesis by (simp add: round32_def Let_def)
qed

end
