(* ===== verification/Cpal_Open.thy ===== *)
theory Cpal_Open
  imports Cpal_Device Ieee_Ops
begin

text \<open>
  Opening the streams of the cpal backend (\<open>crates/oxisound-cpal/src/device.rs\<close>) and the worker
  thread with a time limit that every open goes through (\<open>bounded_open.rs\<close>).
\<close>

subsection \<open>The bounded open\<close>

text \<open>
  The result of an open is the elapsed time with the value. \<open>spawned\<close> is the error of starting the
  thread, if there is one.
\<close>

definition STREAM_OPEN_TIMEOUT :: nat where "STREAM_OPEN_TIMEOUT = 15"

definition open_bounded :: "string \<Rightarrow> nat \<Rightarrow> rstring option \<Rightarrow> ('a, oxi_error) worker
    \<Rightarrow> nat \<times> ('a, oxi_error) result" where
  "open_bounded what timeout spawned w =
     (let timed_out = (timeout, Err (Timeout [Lit what, Lit '' open did not complete within '', Num timeout,
            Lit ''s (audio backend did not return)'']))
      in case spawned of
           Some e \<Rightarrow> (0, Err (Device [Lit what, Lit '' open thread spawn: '', Str e]))
         | None \<Rightarrow>
             (case w of
                Reports t r \<Rightarrow> if t \<le> timeout then (t, r) else timed_out
              | Dies t \<Rightarrow> if t \<le> timeout
                  then (t, Err (Device [Lit what, Lit '' open worker thread died without a result (panic?)'']))
                  else timed_out
              | Hangs \<Rightarrow> timed_out))"

subsection \<open>Opening\<close>

text \<open>
  The calls into cpal, as arguments: building a stream for a sample type, starting it, the text of
  a format.
\<close>

record backend =
  build_stream :: "cpal_device \<Rightarrow> cpal_config \<Rightarrow> cpal_format \<Rightarrow> (unit, cpal_error) result"
  play_stream :: "(unit, cpal_error) result"
  debug_format :: "cpal_format \<Rightarrow> rstring"

text \<open>
  The capacity: \<open>2.0f32\<close>, \<open>(secs * rate as f32) as usize\<close>, the same with the channel count inside
  the product, \<open>clamp(0.1, 30.0)\<close>, and the allocation of the ring, which panics for no elements and for more than
  \<open>isize::MAX\<close> bytes.
\<close>

definition two_secs :: f32 where "two_secs = 0x40000000"

definition scale_secs :: "nat \<Rightarrow> f32 \<Rightarrow> 32 word \<Rightarrow> nat" where
  "scale_secs um secs rate = to_usize um (mul32 (val32 secs) (of_uint (unat rate)))"

definition scale_secs_channels :: "nat \<Rightarrow> f32 \<Rightarrow> 32 word \<Rightarrow> 16 word \<Rightarrow> nat" where
  "scale_secs_channels um secs rate ch =
     to_usize um (mul32 (mul32 (val32 secs) (of_uint (unat rate))) (of_uint (unat ch)))"

definition clamp_secs :: "f32 \<Rightarrow> f32" where
  "clamp_secs secs = clamp32 0x3DCCCCCD 0x41F00000 secs"

text \<open>The description that \<open>validate\<close> is called with.\<close>

definition output_info :: "cpal_device \<Rightarrow> device_info" where
  "output_info d =
     (let (rates, chans) = collect_config_ranges d
      in device_info_default\<lparr>sample_rates := rates, channel_counts := chans, is_output := True\<rparr>)"

definition input_info :: "cpal_device \<Rightarrow> device_info" where
  "input_info d =
     (let (rates, chans) = collect_input_config_ranges d
      in device_info_default\<lparr>sample_rates := rates, channel_counts := chans, is_input := True\<rparr>)"

definition open_format :: "cpal_device \<Rightarrow> stream_config \<Rightarrow> default_config \<Rightarrow> cpal_format" where
  "open_format d config supported =
     (if preferred_formats config = [] then dc_format supported
      else case negotiate_output d config of
          Ok neg \<Rightarrow> core_to_cpal_format (n_sample_format neg)
        | _ \<Rightarrow> dc_format supported)"

text \<open>The sample type that a stream of a format is built with; 24-bit samples travel as \<open>i32\<close>.\<close>

fun sample_type :: "cpal_format \<Rightarrow> cpal_format option" where
  "sample_type C_I24 = Some C_I32"
| "sample_type C_F32 = Some C_F32"
| "sample_type C_I16 = Some C_I16"
| "sample_type C_U16 = Some C_U16"
| "sample_type C_I8 = Some C_I8"
| "sample_type C_I32 = Some C_I32"
| "sample_type C_F64 = Some C_F64"
| "sample_type C_U8 = Some C_U8"
| "sample_type _ = None"

fun duplex_sample_type :: "cpal_format \<Rightarrow> cpal_format option" where
  "duplex_sample_type C_I24 = Some C_I32"
| "duplex_sample_type C_F32 = Some C_F32"
| "duplex_sample_type C_I16 = Some C_I16"
| "duplex_sample_type C_I32 = Some C_I32"
| "duplex_sample_type C_F64 = Some C_F64"
| "duplex_sample_type _ = None"

definition buffer_period :: "stream_config \<Rightarrow> cpal_config \<Rightarrow> 64 word" where
  "buffer_period config c =
     (let frames = (ucast (case buffer_size config of Some b \<Rightarrow> b | None \<Rightarrow> 512) :: 64 word);
          rate = (ucast (cc_rate c) :: 64 word)
      in if rate = 0 then 0 else frames * 1000000000 div rate)"

text \<open>Building a stream of a format and starting it; the result is the sample type.\<close>

definition build_and_play :: "backend \<Rightarrow> string \<Rightarrow> (cpal_format \<Rightarrow> cpal_format option) \<Rightarrow> cpal_device \<Rightarrow> cpal_config
    \<Rightarrow> cpal_format \<Rightarrow> (cpal_format, oxi_error) result" where
  "build_and_play B unsupported types d c fmt =
     (case types fmt of
        None \<Rightarrow> Err (UnsupportedConfig [Lit unsupported, Str (debug_format B fmt)])
      | Some t \<Rightarrow>
          and_then (map_err map_build_stream_err (build_stream B d c t)) (\<lambda>_.
          and_then (map_err map_play_stream_err (play_stream B)) (\<lambda>_. Ok t)))"

record 'r opened_output =
  oo_stream :: "'r cpal_output"
  oo_type :: cpal_format
  oo_routing :: "channel_routing option"

definition open_output_unbounded :: "('r, f32) ring_ops \<Rightarrow> nat \<Rightarrow> backend \<Rightarrow> cpal_device \<Rightarrow> stream_config \<Rightarrow> f32
    \<Rightarrow> ('r opened_output, oxi_error) result" where
  "open_output_unbounded R um B d config secs =
     and_then (validate config (output_info d)) (\<lambda>_.
     and_then (map_err map_default_config_err (default_out d)) (\<lambda>supported.
     (let c = to_cpal_stream_config config supported in
      and_then (is_config_supported_for_output d c) (\<lambda>_.
      (let fmt = open_format d config supported; ch = cc_channels c in
       and_then (umul um (scale_secs um secs (cc_rate c)) (unat (max ch 1))) (\<lambda>capacity.
       and_then (heap_rb R um 4 capacity) (\<lambda>ring.
       and_then (build_and_play B ''unsupported output sample format: '' sample_type d c fmt) (\<lambda>t.
       (let size0 = (case buffer_size config of Some b \<Rightarrow> b | None \<Rightarrow> 512) in
        Ok \<lparr>oo_stream = \<lparr>co_ring = ring, co_channels = ch, co_capacity = capacity,
               co_disconnected = False, co_underruns = 0, co_frames = 0,
               co_adaptive = new_sizer size0 128 8192 4, co_last_tick = 0, co_desired = size0,
               co_callback_ns = 0, co_period_ns = buffer_period config c, co_reconnect = None\<rparr>,
             oo_type = t, oo_routing = routing_opt config\<rparr>)))))))))"

text \<open>
  The reopening of the recovery thread: the capacity is clamped, and the flag and the counters
  are the caller's, given as the state \<open>old\<close>.
\<close>

definition open_output_shared :: "('r, f32) ring_ops \<Rightarrow> nat \<Rightarrow> backend \<Rightarrow> cpal_device \<Rightarrow> stream_config
    \<Rightarrow> 'r cpal_output \<Rightarrow> ('r opened_output, oxi_error) result" where
  "open_output_shared R um B d config old =
     and_then (validate config (output_info d)) (\<lambda>_.
     and_then (map_err map_default_config_err (default_out d)) (\<lambda>supported.
     (let c = to_cpal_stream_config config supported in
      and_then (is_config_supported_for_output d c) (\<lambda>_.
      (let fmt = open_format d config supported; ch = cc_channels c;
           secs = clamp_secs (case buffer_capacity_secs config of Some s \<Rightarrow> s | None \<Rightarrow> two_secs) in
       and_then (umul um (scale_secs um secs (cc_rate c)) (unat (max ch 1))) (\<lambda>capacity.
       and_then (heap_rb R um 4 capacity) (\<lambda>ring.
       and_then (build_and_play B ''unsupported output sample format: '' sample_type d c fmt) (\<lambda>t.
       (let size0 = (case buffer_size config of Some b \<Rightarrow> b | None \<Rightarrow> 512) in
        Ok \<lparr>oo_stream = \<lparr>co_ring = ring, co_channels = ch, co_capacity = capacity,
               co_disconnected = co_disconnected old, co_underruns = co_underruns old,
               co_frames = co_frames old,
               co_adaptive = new_sizer size0 128 8192 4, co_last_tick = 0, co_desired = size0,
               co_callback_ns = co_callback_ns old, co_period_ns = buffer_period config c,
               co_reconnect = None\<rparr>,
             oo_type = t, oo_routing = routing_opt config\<rparr>)))))))))"

record 'r opened_input =
  oi_stream :: "'r cpal_input"
  oi_type :: cpal_format

definition open_input_unbounded :: "('r, f32) ring_ops \<Rightarrow> nat \<Rightarrow> backend \<Rightarrow> cpal_device \<Rightarrow> stream_config
    \<Rightarrow> ('r opened_input, oxi_error) result" where
  "open_input_unbounded R um B d config =
     and_then (validate config (input_info d)) (\<lambda>_.
     and_then (map_err map_default_config_err (default_in d)) (\<lambda>supported.
     (let c = to_cpal_stream_config config supported in
      and_then (is_config_supported_for_input d c) (\<lambda>_.
      (let ch = cc_channels c;
           secs = (case buffer_capacity_secs config of Some s \<Rightarrow> s | None \<Rightarrow> two_secs);
           capacity = scale_secs_channels um secs (cc_rate c) (max ch 1) in
       and_then (heap_rb R um 4 capacity) (\<lambda>ring.
       and_then (build_and_play B ''unsupported input sample format: '' sample_type d c (dc_format supported)) (\<lambda>t.
       Ok \<lparr>oi_stream = \<lparr>ci_ring = ring, ci_channels = ch, ci_capacity = capacity,
               ci_disconnected = False, ci_frames = 0, ci_callback_ns = 0,
               ci_period_ns = buffer_period config c\<rparr>,
            oi_type = t\<rparr>)))))))"

definition open_duplex_unbounded :: "('r, f32) ring_ops \<Rightarrow> nat \<Rightarrow> backend \<Rightarrow> cpal_device \<Rightarrow> stream_config
    \<Rightarrow> ('r cpal_duplex, oxi_error) result" where
  "open_duplex_unbounded R um B d config =
     and_then (validate config (output_info d)) (\<lambda>_.
     and_then (map_err map_default_config_err (default_out d)) (\<lambda>out_supported.
     (let oc = to_cpal_stream_config config out_supported;
          secs = (case buffer_capacity_secs config of Some s \<Rightarrow> s | None \<Rightarrow> two_secs) in
      and_then (is_config_supported_for_output d oc) (\<lambda>_.
      and_then (heap_rb R um 4 (scale_secs_channels um secs (cc_rate oc) (max (cc_channels oc) 1))) (\<lambda>out_rb.
      and_then (build_and_play B ''duplex output: unsupported sample format '' duplex_sample_type d oc
            (dc_format out_supported)) (\<lambda>_.
      and_then (map_err map_default_config_err (default_in d)) (\<lambda>in_supported.
      (let ic = to_cpal_stream_config config in_supported in
       and_then (is_config_supported_for_input d ic) (\<lambda>_.
       and_then (heap_rb R um 4 (scale_secs_channels um secs (cc_rate ic) (max (cc_channels ic) 1))) (\<lambda>in_rb.
       and_then (build_and_play B ''duplex input: unsupported sample format '' duplex_sample_type d ic
             (dc_format in_supported)) (\<lambda>_.
       Ok \<lparr>cd_in_ring = in_rb, cd_out_ring = out_rb,
            cd_in_channels = cc_channels ic, cd_out_channels = cc_channels oc,
            cd_out_disconnected = False, cd_in_disconnected = False,
            cd_in_frames = 0, cd_out_frames = 0, cd_drift_ema = 1, cd_phase = 0\<rparr>)))))))))))"

text \<open>The bounded entry points; \<open>t\<close> is how long the open takes, \<open>None\<close> for never.\<close>

definition run_bounded :: "string \<Rightarrow> rstring option \<Rightarrow> nat option \<Rightarrow> ('a, oxi_error) result
    \<Rightarrow> nat \<times> ('a, oxi_error) result" where
  "run_bounded what spawned t r =
     open_bounded what STREAM_OPEN_TIMEOUT spawned (case t of Some t \<Rightarrow> worker_of t r | None \<Rightarrow> Hangs)"

definition open_output_inner :: "('r, f32) ring_ops \<Rightarrow> nat \<Rightarrow> backend \<Rightarrow> cpal_device \<Rightarrow> stream_config
    \<Rightarrow> rstring option \<Rightarrow> nat option \<Rightarrow> nat \<times> ('r opened_output, oxi_error) result" where
  "open_output_inner R um B d config spawned t =
     run_bounded ''output'' spawned t
       (open_output_unbounded R um B d config
         (case buffer_capacity_secs config of Some s \<Rightarrow> s | None \<Rightarrow> two_secs))"

definition open_output_with_capacity :: "('r, f32) ring_ops \<Rightarrow> nat \<Rightarrow> backend \<Rightarrow> cpal_device \<Rightarrow> stream_config
    \<Rightarrow> f32 \<Rightarrow> rstring option \<Rightarrow> nat option \<Rightarrow> nat \<times> ('r opened_output, oxi_error) result" where
  "open_output_with_capacity R um B d config secs spawned t =
     run_bounded ''output'' spawned t (open_output_unbounded R um B d config (clamp_secs secs))"

definition reopen_output :: "('r, f32) ring_ops \<Rightarrow> nat \<Rightarrow> backend \<Rightarrow> cpal_device \<Rightarrow> stream_config
    \<Rightarrow> 'r cpal_output \<Rightarrow> rstring option \<Rightarrow> nat option \<Rightarrow> nat \<times> ('r opened_output, oxi_error) result" where
  "reopen_output R um B d config old spawned t =
     run_bounded ''output-reconnect'' spawned t (open_output_shared R um B d config old)"

definition open_input_inner :: "('r, f32) ring_ops \<Rightarrow> nat \<Rightarrow> backend \<Rightarrow> cpal_device \<Rightarrow> stream_config
    \<Rightarrow> rstring option \<Rightarrow> nat option \<Rightarrow> nat \<times> ('r opened_input, oxi_error) result" where
  "open_input_inner R um B d config spawned t =
     run_bounded ''input'' spawned t (open_input_unbounded R um B d config)"

definition open_duplex :: "('r, f32) ring_ops \<Rightarrow> nat \<Rightarrow> backend \<Rightarrow> cpal_device \<Rightarrow> stream_config
    \<Rightarrow> rstring option \<Rightarrow> nat option \<Rightarrow> nat \<times> ('r cpal_duplex, oxi_error) result" where
  "open_duplex R um B d config spawned t =
     run_bounded ''duplex'' spawned t (open_duplex_unbounded R um B d config)"

text \<open>
  \<open>open_output_with_retry\<close>, over the outcomes of the attempts in order; the result is the time slept
  in milliseconds with the value. The attempt after the last delay is the final one.
\<close>

fun retry :: "nat list \<Rightarrow> (nat \<Rightarrow> ('a, oxi_error) result) \<Rightarrow> nat \<Rightarrow> nat \<times> ('a, oxi_error) result" where
  "retry [] attempt i = (0, attempt i)"
| "retry (delay # delays) attempt i =
     (case attempt i of
        Err e \<Rightarrow> (let (t, r) = retry delays attempt (i + 1) in (delay + t, r))
      | r \<Rightarrow> (0, r))"

definition open_output_with_retry :: "(nat \<Rightarrow> ('a, oxi_error) result) \<Rightarrow> nat \<times> ('a, oxi_error) result" where
  "open_output_with_retry attempt = retry [10, 50, 200, 1000] attempt 0"

text \<open>Loopback capture: the first input whose name has \<open>monitor\<close> in it, on Linux only.\<close>

definition open_loopback :: "(rstring \<Rightarrow> rstring) \<Rightarrow> target_os \<Rightarrow> cpal_host \<Rightarrow> (cpal_device \<Rightarrow> ('a, oxi_error) result)
    \<Rightarrow> ('a, oxi_error) result" where
  "open_loopback lower os h open_dev =
     (if os = Linux then
        and_then (map_err map_devices_err (input_devices h)) (\<lambda>ds.
          case position (\<lambda>d. case cpal_name d of Ok nm \<Rightarrow> contains (lower nm) (str_lit ''monitor'') | _ \<Rightarrow> False) ds of
            Some i \<Rightarrow> open_dev (ds ! i)
          | None \<Rightarrow> Err (Unsupported [Lit ''No loopback/monitor input device found. Ensure PulseAudio or PipeWire is running and a monitor source is present.'']))
      else Err (Unsupported [Lit ''Loopback capture is not natively available on this platform. On macOS, install BlackHole or SoundFlower and open the virtual device via open_input(). On Windows, WASAPI loopback is not yet exposed via cpal 0.17.3.'']))"

subsection \<open>Lemmas\<close>

lemma open_bounded_cases:
  "fst (open_bounded what timeout spawned w) \<le> timeout \<and>
   (snd (open_bounded what timeout spawned w) = Panic \<longrightarrow> (\<exists>t. w = Reports t Panic))"
  by (cases w) (auto simp: open_bounded_def Let_def split: option.splits)

lemma worker_of_not_Panic: "worker_of t r \<noteq> Reports u Panic"
  by (cases r) auto

lemma run_bounded_ok:
  "fst (run_bounded what spawned t r) \<le> STREAM_OPEN_TIMEOUT \<and> snd (run_bounded what spawned t r) \<noteq> Panic"
  using open_bounded_cases [of what STREAM_OPEN_TIMEOUT spawned "case t of Some t \<Rightarrow> worker_of t r | None \<Rightarrow> Hangs"]
    worker_of_not_Panic
  by (auto simp: run_bounded_def split: option.splits)

lemma run_bounded_Ok: "run_bounded what spawned t r = (n, Ok x) \<Longrightarrow> r = Ok x"
  by (cases r) (auto simp: run_bounded_def open_bounded_def Let_def split: option.splits if_splits)

lemma retry_position:
  "retry ds attempt i =
     (let k = (case position (\<lambda>j. \<not> is_err (attempt (i + j))) [0..<length ds] of
                 Some k \<Rightarrow> k | None \<Rightarrow> length ds)
      in (sum_list (take k ds), attempt (i + k)))"
proof (induction ds arbitrary: i)
  case Nil
  then show ?case by simp
next
  case (Cons d ds)
  have p: "position P [0..<Suc n] = (if P 0 then Some 0 else map_option Suc (position (P \<circ> Suc) [0..<n]))"
    for P n
    by (simp add: upt_conv_Cons map_Suc_upt [symmetric] position_map del: upt_Suc)
  have c: "(\<lambda>j. \<not> is_err (attempt (i + j))) \<circ> Suc = (\<lambda>j. \<not> is_err (attempt (i + 1 + j)))"
    by (simp add: fun_eq_iff)
  show ?case
    using Cons [of "i + 1"] p [of "\<lambda>j. \<not> is_err (attempt (i + j))" "length ds"]
    by (cases "attempt i") (auto simp: c Let_def split: option.splits simp del: upt_Suc)
qed

text \<open>A backend that builds only the sample types that the device lists.\<close>

definition strict_backend :: backend where
  "strict_backend = \<lparr>
     build_stream = (\<lambda>d c t. case out_configs d of
        Ok cs \<Rightarrow> if t \<in> set (map cr_format cs) then Ok () else Err (UnsupportedConfigKind, [])
      | _ \<Rightarrow> Err (UnsupportedConfigKind, [])),
     play_stream = Ok (), debug_format = (\<lambda>_. [])\<rparr>"

lemma two_secs_48k: "scale_secs 18446744073709551615 two_secs 48000 = 96000"
proof -
  have "val32 two_secs = Finite 2"
    by (simp add: two_secs_def val32_def unpack_def unpack_mag_def emin_def Let_def)
  moreover have "fl32 (of_nat 48000) = of_nat 48000" "fl32 (of_nat 96000) = of_nat 96000"
    by (intro fl_of_nat; simp add: emin_def)+
  ultimately show ?thesis
    by (simp add: scale_secs_def of_uint_def round32_small to_usize_def trunc_def)
qed

lemma sample_sorts:
  "sort [44100, 48000, 8000, 96000 :: 32 word] = [8000, 44100, 48000, 96000]"
  "sort [2, 2 :: 16 word] = [2, 2]"
  by (simp_all add: sort_conv_fold)

lemmas open_eval = open_output_inner_def run_bounded_def open_bounded_def open_output_unbounded_def
  validate_def output_info_def collect_config_ranges_def ranges_of_def to_cpal_stream_config_def
  is_config_supported_for_output_def open_format_def build_and_play_def negotiate_output_def
  negotiate_step_def umul_def stereo_48k_def sample_device_def strict_backend_def device_info_default_def
  range_admits_def map_build_stream_err_def map_cpal_err_def STREAM_OPEN_TIMEOUT_def sample_sorts Let_def two_secs_48k heap_rb_def

lemma sample_open:
  "\<exists>opened. open_output_inner fifo usize_max_64 strict_backend sample_device stereo_48k None (Some 0)
     = (0, Ok opened)"
  by (simp add: open_eval)

subsection \<open>Properties\<close>

text \<open>
  Whatever the backend does, even if it never returns or the worker thread panics, the
  bounded opens return within 15 seconds and with a value, never with a panic.
\<close>

lemma opens_are_bounded:
  "fst (open_output_inner R um B d config spawned t) \<le> 15 \<and>
   snd (open_output_inner R um B d config spawned t) \<noteq> Panic \<and>
   fst (open_output_with_capacity R um B d config secs spawned t) \<le> 15 \<and>
   snd (open_output_with_capacity R um B d config secs spawned t) \<noteq> Panic \<and>
   fst (reopen_output R um B d config old spawned t) \<le> 15 \<and>
   snd (reopen_output R um B d config old spawned t) \<noteq> Panic \<and>
   fst (open_input_inner R um B d config spawned t) \<le> 15 \<and>
   snd (open_input_inner R um B d config spawned t) \<noteq> Panic \<and>
   fst (open_duplex R um B d config spawned t) \<le> 15 \<and>
   snd (open_duplex R um B d config spawned t) \<noteq> Panic"
  by (simp add: run_bounded_ok [unfolded STREAM_OPEN_TIMEOUT_def] open_output_inner_def open_output_with_capacity_def reopen_output_def
      open_input_inner_def open_duplex_def)

text \<open>
  C31: A stream that opens has a configuration that the description of the device supports and
  that one of its output ranges admits; its queue is empty and as large as the capacity it
  reports, which is not zero, its counters are zero, and its sizer is well-formed.
\<close>

theorem open_output_postcondition:
  assumes "ring R contents cap"
    and "open_output_inner R um B d config spawned t = (elapsed, Ok opened)"
    and "out_configs d = Ok cs"
  shows "supports_config (output_info d) config \<and> list_ex (matches config) cs \<and>
    co_channels (oo_stream opened) = channels config \<and>
    contents (co_ring (oo_stream opened)) = [] \<and>
    cap (co_ring (oo_stream opened)) = co_capacity (oo_stream opened) \<and> 0 < co_capacity (oo_stream opened) \<and>
    co_underruns (oo_stream opened) = 0 \<and> co_frames (oo_stream opened) = 0 \<and>
    \<not> co_disconnected (oo_stream opened) \<and> co_reconnect (oo_stream opened) = None \<and>
    sizer_ok (co_adaptive (oo_stream opened))"
proof -
  from run_bounded_Ok [OF assms(2) [unfolded open_output_inner_def]]
  obtain supported where
    v: "validate config (output_info d) = Ok ()"
    and s: "is_config_supported_for_output d (to_cpal_stream_config config supported) = Ok ()"
    and o: "co_channels (oo_stream opened) = cc_channels (to_cpal_stream_config config supported)"
      "co_ring (oo_stream opened) = new_ring R (co_capacity (oo_stream opened))" "0 < co_capacity (oo_stream opened)"
      "co_underruns (oo_stream opened) = 0" "co_frames (oo_stream opened) = 0"
      "\<not> co_disconnected (oo_stream opened)" "co_reconnect (oo_stream opened) = None"
      "sizer_ok (co_adaptive (oo_stream opened))"
    by (auto simp: open_output_unbounded_def Let_def new_sizer_ok)
  have c: "cc_channels (to_cpal_stream_config config supported) = channels config"
    "cc_rate (to_cpal_stream_config config supported) = sample_rate config"
    by (simp_all add: to_cpal_stream_config_def Let_def split: option.splits)
  have "supports_config (output_info d) config"
    using v by (simp add: validate_def supports_config_def Let_def split: if_splits)
  moreover have "list_ex (matches config) cs"
    using s assms(3) by (simp add: is_config_supported_for_output_def c matches_def [abs_def] split: if_splits)
  ultimately show ?thesis
    using o c ring.new_spec [OF assms(1)] by auto
qed

theorem open_output_postcondition_witness:
  "\<exists>opened. open_output_inner fifo usize_max_64 strict_backend sample_device stereo_48k None (Some 0)
     = (0, Ok opened) \<and> fst (co_ring (oo_stream opened)) = [] \<and>
     snd (co_ring (oo_stream opened)) = co_capacity (oo_stream opened)"
proof -
  obtain opened where
    o: "open_output_inner fifo usize_max_64 strict_backend sample_device stereo_48k None (Some 0) = (0, Ok opened)"
    using sample_open by blast
  obtain cs where "out_configs sample_device = Ok cs" by (simp add: sample_device_def)
  from open_output_postcondition [OF fifo_ring o this] o show ?thesis by blast
qed

text \<open>
  The retrying open makes its attempts in order until one does not fail, at most five, and
  returns what that attempt, or the fifth, returned; it sleeps the delays of the failed attempts before.
\<close>

lemma open_with_retry_spec:
  "open_output_with_retry attempt =
     (let k = (case position (\<lambda>j. \<not> is_err (attempt j)) [0, 1, 2, 3] of Some k \<Rightarrow> k | None \<Rightarrow> 4)
      in (sum_list (take k [10, 50, 200, 1000]), attempt k))"
proof -
  have "length [10, 50, 200, 1000 :: nat] = 4" and "[0..<4] = [0, 1, 2, 3 :: nat]"
    by (simp_all add: upt_rec)
  then show ?thesis
    by (simp only: open_output_with_retry_def retry_position add_0)
qed

text \<open>
  On a device that offers only unsigned 16-bit and float samples, asking for signed 16-bit samples as the
  preferred format makes the open build a stream of a type that the device does not offer,
  although the open without a preference succeeds: the core formats do not distinguish the two.
\<close>

lemma preferred_format_not_offered:
  "is_ok (snd (open_output_inner fifo usize_max_64 strict_backend sample_device stereo_48k None (Some 0)))
   \<and> snd (open_output_inner fifo usize_max_64 strict_backend sample_device
        (stereo_48k\<lparr>preferred_formats := [I16]\<rparr>) None (Some 0))
     = Err (UnsupportedConfig [Lit ''build stream'', Lit '': '', Str []])
   \<and> map_ok n_sample_format (negotiate_output sample_device (stereo_48k\<lparr>preferred_formats := [I16]\<rparr>)) = Ok I16
   \<and> C_I16 \<notin> set (map cr_format (unwrap_or [] (out_configs sample_device)))"
  by (simp add: open_eval)

end
