(* ===== verification/Cpal_Recovery.thy ===== *)
theory Cpal_Recovery
  imports Cpal_Open "HOL-Library.List_Lexorder"
begin

text \<open>
  The reconnecting thread of \<open>crates/oxisound-cpal/src/recovery.rs\<close> as a step relation, interleaved
  with the error callbacks of the streams, and the hot-plug watcher (\<open>watcher.rs\<close>).
\<close>

subsection \<open>The reconnecting thread\<close>

definition BACKOFF_MS :: "nat list" where "BACKOFF_MS = [10, 50, 200, 1000]"

definition backoff_delay :: "nat \<Rightarrow> nat" where
  "backoff_delay i = BACKOFF_MS ! min i (length BACKOFF_MS - 1)"

definition next_backoff :: "nat \<Rightarrow> nat" where
  "next_backoff i = min (i + 1) (length BACKOFF_MS - 1)"

text \<open>
  Streams are numbered in the order they are opened; stream 0 is the one that the handle itself
  keeps. Where the thread is: at the head of its loop, before its poll, in an open attempt, with a stream that it has opened
  but not installed, before the reset of the flag, or gone.
\<close>

datatype recovery_pc = LoopHead | Polling | Attempting | Holding nat | Installed | Stopped

record recovery =
  rc_pc :: recovery_pc
  rc_disconnected :: bool
  rc_producer :: nat
  rc_held :: "nat set"
  rc_live :: "nat set"
  rc_backoff :: nat
  rc_slept :: "nat list"
  rc_next :: nat
  rc_stop :: bool

definition start_recovery :: recovery where
  "start_recovery = \<lparr>rc_pc = LoopHead, rc_disconnected = False, rc_producer = 0, rc_held = {0},
     rc_live = {0}, rc_backoff = 0, rc_slept = [], rc_next = 1, rc_stop = False\<rparr>"

datatype recovery_label = CheckStop | Poll | OpenFails | OpenWorks | MutexPoisoned | Install | ClearFlag
  | StreamLost nat | RequestStop

text \<open>
  A stream that is lost stops playing and its error callback sets the flag, which all streams
  share; any stream that has not been dropped can report. Installing a stream drops the one installed before,
  except the stream of the handle. A poisoned mutex drops the stream just opened.
\<close>

inductive recovery_step :: "recovery_label \<Rightarrow> recovery \<Rightarrow> recovery \<Rightarrow> bool" where
  go_on: "rc_pc s = LoopHead \<Longrightarrow> \<not> rc_stop s \<Longrightarrow> recovery_step CheckStop s (s\<lparr>rc_pc := Polling\<rparr>)"
| stopped: "rc_pc s = LoopHead \<Longrightarrow> rc_stop s \<Longrightarrow> recovery_step CheckStop s (s\<lparr>rc_pc := Stopped\<rparr>)"
| quiet: "rc_pc s = Polling \<Longrightarrow> \<not> rc_disconnected s \<Longrightarrow>
    recovery_step Poll s (s\<lparr>rc_pc := LoopHead, rc_backoff := 0\<rparr>)"
| lost: "rc_pc s = Polling \<Longrightarrow> rc_disconnected s \<Longrightarrow>
    recovery_step Poll s (s\<lparr>rc_pc := Attempting, rc_slept := rc_slept s @ [backoff_delay (rc_backoff s)],
      rc_backoff := next_backoff (rc_backoff s)\<rparr>)"
| fails: "rc_pc s = Attempting \<Longrightarrow> recovery_step OpenFails s (s\<lparr>rc_pc := LoopHead\<rparr>)"
| works: "rc_pc s = Attempting \<Longrightarrow>
    recovery_step OpenWorks s (s\<lparr>rc_pc := Holding (rc_next s), rc_held := insert (rc_next s) (rc_held s),
      rc_live := insert (rc_next s) (rc_live s), rc_next := rc_next s + 1\<rparr>)"
| poisoned: "rc_pc s = Holding n \<Longrightarrow>
    recovery_step MutexPoisoned s (s\<lparr>rc_pc := LoopHead, rc_held := rc_held s - {n}, rc_live := rc_live s - {n}\<rparr>)"
| install: "rc_pc s = Holding n \<Longrightarrow>
    recovery_step Install s (s\<lparr>rc_pc := Installed, rc_producer := n, rc_held := {0, n},
      rc_live := rc_live s \<inter> {0, n}\<rparr>)"
| clear: "rc_pc s = Installed \<Longrightarrow>
    recovery_step ClearFlag s (s\<lparr>rc_pc := LoopHead, rc_disconnected := False, rc_backoff := 0\<rparr>)"
| report: "n \<in> rc_held s \<Longrightarrow>
    recovery_step (StreamLost n) s (s\<lparr>rc_disconnected := True, rc_live := rc_live s - {n}\<rparr>)"
| request: "recovery_step RequestStop s (s\<lparr>rc_stop := True\<rparr>)"

text \<open>The states that runs reach whose steps are all allowed where they happen.\<close>

inductive recovers :: "(recovery_label \<Rightarrow> recovery \<Rightarrow> bool) \<Rightarrow> recovery \<Rightarrow> bool"
  for allowed :: "recovery_label \<Rightarrow> recovery \<Rightarrow> bool"
where
  start: "recovers allowed start_recovery"
| step: "recovers allowed s \<Longrightarrow> allowed l s \<Longrightarrow> recovery_step l s t \<Longrightarrow> recovers allowed t"

text \<open>No stream is lost between an open that works and the reset of the flag.\<close>

fun calm :: "recovery_label \<Rightarrow> recovery \<Rightarrow> bool" where
  "calm (StreamLost n) s = (case rc_pc s of Holding _ \<Rightarrow> False | Installed \<Rightarrow> False | _ \<Rightarrow> True)"
| "calm l s = True"

fun anything :: "recovery_label \<Rightarrow> recovery \<Rightarrow> bool" where
  "anything l s = True"

subsection \<open>Invariants\<close>

definition recovery_ok :: "recovery \<Rightarrow> bool" where
  "recovery_ok s \<longleftrightarrow> rc_backoff s \<le> 3 \<and> rc_producer s \<in> rc_held s \<and> rc_live s \<subseteq> rc_held s \<and>
     0 \<in> rc_held s \<and> (\<forall>n \<in> rc_held s. n < rc_next s) \<and> set (rc_slept s) \<subseteq> set BACKOFF_MS \<and>
     (case rc_pc s of
        Holding n \<Rightarrow> n \<in> rc_held s \<and> n \<noteq> rc_producer s \<and> n \<noteq> 0
      | _ \<Rightarrow> True)"

lemma backoff_delay_in: "backoff_delay i \<in> set BACKOFF_MS"
  by (simp add: backoff_delay_def BACKOFF_MS_def nth_Cons split: nat.split)
    (auto simp: numeral_eq_Suc less_Suc_eq)

lemma next_backoff_le: "next_backoff i \<le> 3"
  by (simp add: next_backoff_def BACKOFF_MS_def)

lemma recovery_ok_step: "recovery_step l s t \<Longrightarrow> recovery_ok s \<Longrightarrow> recovery_ok t"
  by (induction rule: recovery_step.induct)
    (auto simp: recovery_ok_def next_backoff_le backoff_delay_in split: recovery_pc.splits)

lemma recovery_ok_reached: "recovers allowed s \<Longrightarrow> recovery_ok s"
proof (induction rule: recovers.induct)
  case start
  show ?case by (simp add: recovery_ok_def start_recovery_def)
next
  case (step s l t)
  from step.hyps(3) step.IH show ?case by (rule recovery_ok_step)
qed

text \<open>In calm runs the stream about to be, or just, installed is alive, and a clear flag is true.\<close>

definition feeding :: "recovery \<Rightarrow> bool" where
  "feeding s \<longleftrightarrow> (rc_disconnected s \<or> rc_producer s \<in> rc_live s) \<and>
     (case rc_pc s of
        Holding n \<Rightarrow> n \<in> rc_live s
      | Installed \<Rightarrow> rc_producer s \<in> rc_live s
      | _ \<Rightarrow> True)"

lemma feeding_step:
  "recovery_step l s t \<Longrightarrow> calm l s \<Longrightarrow> recovery_ok s \<Longrightarrow> feeding s \<Longrightarrow> feeding t"
  by (induction rule: recovery_step.induct)
    (auto simp: feeding_def recovery_ok_def split: recovery_pc.splits)

lemma feeding_reached: "recovers calm s \<Longrightarrow> feeding s"
proof (induction rule: recovers.induct)
  case start
  show ?case by (simp add: feeding_def start_recovery_def)
next
  case (step s l t)
  from step.IH step.hyps recovery_ok_reached [OF step.hyps(1)] show ?case
    by (auto intro: feeding_step)
qed

subsection \<open>The watcher\<close>

text \<open>
  One poll: the events for the names that came and went. The iteration order of the hash sets is
  an argument.
\<close>

definition poll_events :: "(rstring set \<Rightarrow> rstring list) \<Rightarrow> rstring set \<Rightarrow> rstring set \<Rightarrow> device_event list" where
  "poll_events order prev current =
     map (\<lambda>nm. DeviceAdded (build_device (device_builder nm))) (order (current - prev)) @
     map DeviceRemoved (order (prev - current))"

definition current_device_names :: "cpal_host \<Rightarrow> rstring set" where
  "current_device_names h =
     (case all_devices h of
        Ok ds \<Rightarrow> set (List.map_filter (\<lambda>d. case cpal_name d of Ok nm \<Rightarrow> Some nm | _ \<Rightarrow> None) ds)
      | _ \<Rightarrow> {})"

text \<open>The events of a run of polls, each of which sees a set of names.\<close>

fun watch :: "(rstring set \<Rightarrow> rstring list) \<Rightarrow> rstring set \<Rightarrow> rstring set list \<Rightarrow> device_event list" where
  "watch order prev [] = []"
| "watch order prev (cur # rest) = poll_events order prev cur @ watch order cur rest"

text \<open>What a listener knows from the events.\<close>

fun apply_event :: "device_event \<Rightarrow> rstring set \<Rightarrow> rstring set" where
  "apply_event (DeviceAdded i) known = insert (dev_name i) known"
| "apply_event (DeviceRemoved nm) known = known - {nm}"
| "apply_event (DefaultChanged i) known = known"

lemma apply_added:
  "fold apply_event (map (\<lambda>nm. DeviceAdded (build_device (device_builder nm))) xs) known = known \<union> set xs"
  by (induction xs arbitrary: known) (auto simp: builder_defs)

lemma apply_removed: "fold apply_event (map DeviceRemoved xs) known = known - set xs"
  by (induction xs arbitrary: known) auto

lemma apply_poll:
  assumes "\<And>A. finite A \<Longrightarrow> set (order A) = A" and "finite prev" and "finite cur"
  shows "fold apply_event (poll_events order prev cur) prev = cur"
  using assms by (auto simp: poll_events_def apply_added apply_removed)

lemma apply_watch:
  assumes "\<And>A. finite A \<Longrightarrow> set (order A) = A" and "finite prev" and "list_all finite polls"
  shows "fold apply_event (watch order prev polls) prev = last (prev # polls)"
  using assms(2,3)
proof (induction polls arbitrary: prev)
  case (Cons cur polls)
  with apply_poll [OF assms(1), of prev cur] show ?case by simp
qed simp

subsection \<open>Properties\<close>

text \<open>
  C25: The flag can be lost. There is a run in which the stream opened by the recovery thread is
  lost before the thread resets the flag: afterwards the thread is back at its poll, the flag
  says that all is well, and the producer that writes go to feeds a dead stream.
\<close>

theorem recovery_can_lose_a_disconnect:
  "\<exists>s. recovers anything s \<and> rc_pc s = Polling \<and> \<not> rc_disconnected s \<and> rc_producer s \<notin> rc_live s"
proof -
  let ?s1 = "start_recovery\<lparr>rc_disconnected := True, rc_live := {}\<rparr>"
  let ?s2 = "?s1\<lparr>rc_pc := Polling\<rparr>"
  let ?s3 = "?s2\<lparr>rc_pc := Attempting, rc_slept := [10], rc_backoff := 1\<rparr>"
  let ?s4 = "?s3\<lparr>rc_pc := Holding 1, rc_held := {0, 1}, rc_live := {1}, rc_next := Suc 1\<rparr>"
  let ?s5 = "?s4\<lparr>rc_live := {}\<rparr>"
  let ?s6 = "?s5\<lparr>rc_pc := Installed, rc_producer := 1\<rparr>"
  let ?s7 = "?s6\<lparr>rc_pc := LoopHead, rc_disconnected := False, rc_backoff := 0\<rparr>"
  let ?s8 = "?s7\<lparr>rc_pc := Polling\<rparr>"
  have "recovers anything ?s1"
    using recovers.step [OF recovers.start _ report [of 0 start_recovery]] by (simp add: start_recovery_def)
  then have "recovers anything ?s2"
    using recovers.step [OF _ _ go_on [of ?s1]] by (simp add: start_recovery_def)
  then have "recovers anything ?s3"
    using recovers.step [OF _ _ lost [of ?s2]]
    by (simp add: start_recovery_def backoff_delay_def next_backoff_def BACKOFF_MS_def)
  then have "recovers anything ?s4"
    using recovers.step [OF _ _ works [of ?s3]] by (simp add: start_recovery_def insert_commute)
  then have "recovers anything ?s5"
    using recovers.step [OF _ _ report [of 1 ?s4]] by (simp add: start_recovery_def)
  then have "recovers anything ?s6"
    using recovers.step [OF _ _ install [of ?s5 1]] by (simp add: start_recovery_def)
  then have "recovers anything ?s7"
    using recovers.step [OF _ _ clear [of ?s6]] by (simp add: start_recovery_def)
  then have "recovers anything ?s8"
    using recovers.step [OF _ _ go_on [of ?s7]] by (simp add: start_recovery_def)
  then show ?thesis by (intro exI [of _ ?s8]) (simp add: start_recovery_def)
qed

text \<open>
  C10: If no stream is lost in that window, then whenever the flag is clear the producer feeds a
  stream that plays. In every reachable state the producer belongs to a stream that is still held, and
  every back-off delay is one of the four of the table.
\<close>

theorem recovery_feeds_a_live_stream:
  assumes "recovers calm s"
  shows "(if rc_disconnected s then True else rc_producer s \<in> rc_live s) \<and>
    rc_producer s \<in> rc_held s \<and> rc_backoff s \<le> 3 \<and> set (rc_slept s) \<subseteq> {10, 50, 200, 1000}"
  using feeding_reached [OF assms] recovery_ok_reached [OF assms]
  by (auto simp: feeding_def recovery_ok_def BACKOFF_MS_def)

text \<open>The device is lost, a first attempt fails, a second one works, and the new stream plays.\<close>

theorem recovery_feeds_a_live_stream_witness:
  "\<exists>s. recovers calm s \<and> rc_pc s = LoopHead \<and> rc_slept s = [10, 50] \<and> rc_producer s = 1 \<and>
     (if rc_disconnected s then True else rc_producer s \<in> rc_live s) \<and> \<not> rc_disconnected s \<and>
     rc_producer s \<in> rc_held s \<and> rc_backoff s \<le> 3 \<and> set (rc_slept s) \<subseteq> {10, 50, 200, 1000}"
proof -
  let ?s1 = "start_recovery\<lparr>rc_pc := Polling\<rparr>"
  let ?s2 = "?s1\<lparr>rc_disconnected := True, rc_live := {}\<rparr>"
  let ?s3 = "?s2\<lparr>rc_pc := Attempting, rc_slept := [10], rc_backoff := 1\<rparr>"
  let ?s4 = "?s3\<lparr>rc_pc := LoopHead\<rparr>"
  let ?s5 = "?s4\<lparr>rc_pc := Polling\<rparr>"
  let ?s6 = "?s5\<lparr>rc_pc := Attempting, rc_slept := [10, 50], rc_backoff := Suc (Suc 0)\<rparr>"
  let ?s7 = "?s6\<lparr>rc_pc := Holding 1, rc_held := {0, 1}, rc_live := {1}, rc_next := Suc 1\<rparr>"
  let ?s8 = "?s7\<lparr>rc_pc := Installed, rc_producer := 1\<rparr>"
  let ?s9 = "?s8\<lparr>rc_pc := LoopHead, rc_disconnected := False, rc_backoff := 0\<rparr>"
  note table = backoff_delay_def next_backoff_def BACKOFF_MS_def
  have "recovers calm ?s1"
    using recovers.step [OF recovers.start _ go_on [of start_recovery]] by (simp add: start_recovery_def)
  then have "recovers calm ?s2"
    using recovers.step [OF _ _ report [of 0 ?s1]] by (simp add: start_recovery_def)
  then have "recovers calm ?s3"
    using recovers.step [OF _ _ lost [of ?s2]] by (simp add: start_recovery_def table)
  then have "recovers calm ?s4"
    using recovers.step [OF _ _ fails [of ?s3]] by (simp add: start_recovery_def)
  then have "recovers calm ?s5"
    using recovers.step [OF _ _ go_on [of ?s4]] by (simp add: start_recovery_def)
  then have "recovers calm ?s6"
    using recovers.step [OF _ _ lost [of ?s5]] by (simp add: start_recovery_def table)
  then have "recovers calm ?s7"
    using recovers.step [OF _ _ works [of ?s6]] by (simp add: start_recovery_def insert_commute)
  then have "recovers calm ?s8"
    using recovers.step [OF _ _ install [of ?s7 1]] by (simp add: start_recovery_def)
  then have run: "recovers calm ?s9"
    using recovers.step [OF _ _ clear [of ?s8]] by (simp add: start_recovery_def)
  show ?thesis
    using recovery_feeds_a_live_stream [OF run] run by (intro exI [of _ ?s9]) (simp add: start_recovery_def)
qed

text \<open>
  A listener that starts from the names the watcher first saw and applies its events knows,
  after any number of polls, exactly the names of the last one, whatever the iteration order of
  the hash sets.
\<close>

lemma watcher_events_replay:
  assumes "\<And>A. finite A \<Longrightarrow> set (order A) = A" and "finite prev" and "list_all finite polls"
  shows "fold apply_event (watch order prev polls) prev = last (prev # polls)"
  by (rule apply_watch [OF assms])

theorem watcher_events_replay_witness:
  "fold apply_event (watch sorted_list_of_set {[1]} [{[1], [2]}, {[2], [3]}, {}]) {[1]} = {}"
  using watcher_events_replay [of sorted_list_of_set "{[1]}" "[{[1], [2]}, {[2], [3]}, {}]"] by simp

end
