(* ===== verification/Pulse_Env.thy ===== *)
theory Pulse_Env
  imports Core_Types
begin

text \<open>
  Where the PulseAudio server and its cookie are: \<open>crates/oxisound-pulse/src/env.rs\<close>. The code reads
  the environment through the trait \<open>EnvProvider\<close>, here the record \<open>env_ops\<close>, whose contract is the
  locale \<open>env_provider\<close>; its two implementations are interpretations. Paths are the bytes that
  Linux gives them.
\<close>

subsection \<open>The trait and its implementations\<close>

record env_ops =
  var :: "string \<Rightarrow> rstring option"
  home_dir :: "rstring option"
  uid :: "32 word option"
  path_exists :: "rstring \<Rightarrow> bool"

definition nonempty :: "rstring option \<Rightarrow> rstring option" where
  "nonempty v = (case v of Some s \<Rightarrow> if s = [] then None else Some s | None \<Rightarrow> None)"

text \<open>
  The real process: \<open>vars\<close> are the variables whose values are valid strings, \<open>proc_uid\<close> the owner
  of \<open>/proc/self\<close> (nothing on a target that is not Unix), \<open>files\<close> the paths that exist.
\<close>

definition process_env :: "(string \<Rightarrow> rstring option) \<Rightarrow> 32 word option \<Rightarrow> (rstring \<Rightarrow> bool) \<Rightarrow> env_ops" where
  "process_env vars proc_uid files =
     \<lparr>var = (\<lambda>k. nonempty (vars k)), home_dir = nonempty (vars ''HOME''), uid = proc_uid,
      path_exists = files\<rparr>"

record map_env =
  me_vars :: "string \<rightharpoonup> rstring"
  me_home :: "rstring option"
  me_uid :: "32 word option"
  me_existing :: "rstring list"

definition new_env :: map_env where
  "new_env = \<lparr>me_vars = Map.empty, me_home = None, me_uid = None, me_existing = []\<rparr>"

definition with_var :: "string \<Rightarrow> rstring \<Rightarrow> map_env \<Rightarrow> map_env" where
  "with_var k v e = e\<lparr>me_vars := (me_vars e)(k \<mapsto> v)\<rparr>"

definition with_home :: "rstring \<Rightarrow> map_env \<Rightarrow> map_env" where
  "with_home h e = e\<lparr>me_home := Some h\<rparr>"

definition with_uid :: "32 word \<Rightarrow> map_env \<Rightarrow> map_env" where
  "with_uid u e = e\<lparr>me_uid := Some u\<rparr>"

definition with_existing :: "rstring \<Rightarrow> map_env \<Rightarrow> map_env" where
  "with_existing p e = e\<lparr>me_existing := me_existing e @ [p]\<rparr>"

definition map_env_ops :: "map_env \<Rightarrow> env_ops" where
  "map_env_ops e =
     \<lparr>var = (\<lambda>k. nonempty (me_vars e k)), home_dir = me_home e, uid = me_uid e,
      path_exists = (\<lambda>p. p \<in> set (me_existing e))\<rparr>"

subsection \<open>Paths\<close>

text \<open>\<open>Path::join\<close> with a relative path.\<close>

definition join :: "rstring \<Rightarrow> string \<Rightarrow> rstring" where
  "join base rel =
     (if base = [] \<or> last base = of_char (CHR ''/'') then base @ str_lit rel
      else base @ [of_char (CHR ''/'')] @ str_lit rel)"

definition PULSE_NATIVE_SOCKET_RELATIVE :: string where
  "PULSE_NATIVE_SOCKET_RELATIVE = ''pulse/native''"

definition PULSE_COOKIE_LENGTH :: nat where "PULSE_COOKIE_LENGTH = 256"

subsection \<open>The socket\<close>

definition unix_path_from_server_entry :: "rstring \<Rightarrow> rstring option" where
  "unix_path_from_server_entry entry =
     (let entry = trim entry
      in if entry = [] then None
         else
           (let rest = (case strip_prefix (str_lit ''{'') entry of
                Some after \<Rightarrow>
                  (case split_once (of_char (CHR ''}'')) after of Some (_, rest) \<Rightarrow> Some rest | None \<Rightarrow> None)
              | None \<Rightarrow> Some entry)
            in case rest of None \<Rightarrow> None
               | Some rest \<Rightarrow>
                   (case strip_prefix (str_lit ''unix:'') rest of None \<Rightarrow> None
                    | Some path \<Rightarrow> if path = [] then None else Some path)))"

fun first_unix_path :: "rstring list \<Rightarrow> rstring option" where
  "first_unix_path [] = None"
| "first_unix_path (entry # es) =
     (case unix_path_from_server_entry entry of Some p \<Rightarrow> Some p | None \<Rightarrow> first_unix_path es)"

text \<open>Probe the candidates in order; \<open>Inr\<close> is the list of all that were tried.\<close>

fun probe :: "env_ops \<Rightarrow> rstring list \<Rightarrow> rstring list \<Rightarrow> rstring + rstring list" where
  "probe E [] tried = Inr tried"
| "probe E (c # cs) tried = (if path_exists E c then Inl c else probe E cs (tried @ [c]))"

fun comma_separated :: "rstring list \<Rightarrow> rstring" where
  "comma_separated [] = []"
| "comma_separated [p] = p"
| "comma_separated (p # ps) = p @ str_lit '', '' @ comma_separated ps"

definition format_candidates :: "rstring list \<Rightarrow> rstring" where
  "format_candidates tried =
     (if tried = []
      then str_lit ''$PULSE_SERVER, $PULSE_RUNTIME_PATH, $XDG_RUNTIME_DIR, /run/user/<uid> (none were set)''
      else comma_separated (map utf8_lossy tried))"

text \<open>The two errors.\<close>

definition no_unix_socket :: "env_ops \<Rightarrow> oxi_error" where
  "no_unix_socket E =
     Unsupported [Lit ''PULSE_SERVER=\"'', Str (case var E ''PULSE_SERVER'' of Some s \<Rightarrow> s | None \<Rightarrow> []),
       Lit ''\" names no unix socket; oxisound-pulse speaks the PulseAudio native protocol over a unix socket only (remote tcp: servers are out of scope)'']"

definition no_socket_found :: "rstring list \<Rightarrow> oxi_error" where
  "no_socket_found tried =
     Device [Lit ''no PulseAudio (or pipewire-pulse) socket found; tried: '', Str (format_candidates tried)]"

definition resolve_server_socket :: "env_ops \<Rightarrow> (rstring, oxi_error) result" where
  "resolve_server_socket E =
     (let server = var E ''PULSE_SERVER'';
          entries = (case server of Some s \<Rightarrow> split_whitespace s | None \<Rightarrow> [])
      in case first_unix_path entries of
           Some p \<Rightarrow> Ok p
         | None \<Rightarrow>
             (if entries \<noteq> [] then
                Err (no_unix_socket E)
              else
                (case probe E (case var E ''PULSE_RUNTIME_PATH'' of
                         Some base \<Rightarrow> [join base ''native'', join base PULSE_NATIVE_SOCKET_RELATIVE] | None \<Rightarrow> []) [] of
                   Inl c \<Rightarrow> Ok c
                 | Inr tried \<Rightarrow>
                (case probe E (case var E ''XDG_RUNTIME_DIR'' of
                         Some xdg \<Rightarrow> [join xdg PULSE_NATIVE_SOCKET_RELATIVE] | None \<Rightarrow> []) tried of
                   Inl c \<Rightarrow> Ok c
                 | Inr tried \<Rightarrow>
                (case probe E (case uid E of
                         Some u \<Rightarrow> [join (str_lit ''/run/user/'' @ decimal (unat u)) PULSE_NATIVE_SOCKET_RELATIVE]
                       | None \<Rightarrow> []) tried of
                   Inl c \<Rightarrow> Ok c
                 | Inr tried \<Rightarrow>
                     Err (no_socket_found tried))))))"

subsection \<open>The cookie\<close>

definition cookie_candidates :: "env_ops \<Rightarrow> rstring list" where
  "cookie_candidates E =
     (case var E ''PULSE_COOKIE'' of Some p \<Rightarrow> [p] | None \<Rightarrow> []) @
     (case var E ''XDG_CONFIG_HOME'' of Some c \<Rightarrow> [join c ''pulse/cookie''] | None \<Rightarrow> []) @
     (case home_dir E of Some h \<Rightarrow> [join h ''.config/pulse/cookie'', join h ''.pulse-cookie''] | None \<Rightarrow> [])"

definition resolve_cookie_path :: "env_ops \<Rightarrow> rstring option" where
  "resolve_cookie_path E = find (path_exists E) (cookie_candidates E)"

text \<open>\<open>read_file\<close> is \<open>std::fs::read\<close>: a file of any length is used, after a warning.\<close>

definition load_cookie :: "(rstring \<Rightarrow> byte list option) \<Rightarrow> rstring \<Rightarrow> byte list option" where
  "load_cookie read_file path = (case read_file path of Some bytes \<Rightarrow> Some bytes | None \<Rightarrow> None)"

definition load_cookie_from_env :: "(rstring \<Rightarrow> byte list option) \<Rightarrow> env_ops \<Rightarrow> byte list option" where
  "load_cookie_from_env read_file E = Option.bind (resolve_cookie_path E) (load_cookie read_file)"

subsection \<open>The contract of a provider\<close>

text \<open>A variable is never reported with an empty value, so no empty path is ever resolved.\<close>

locale env_provider =
  fixes E :: env_ops
  assumes var_nonempty: "var E k \<noteq> Some []"
begin

lemma cookie_candidates_nonempty: "p \<in> set (cookie_candidates E) \<Longrightarrow> p \<noteq> []"
  using var_nonempty [of "''PULSE_COOKIE''"]
  by (auto simp: cookie_candidates_def join_def str_lit_def split: option.splits if_splits)

lemma cookie_path_nonempty: "resolve_cookie_path E = Some p \<Longrightarrow> p \<noteq> [] \<and> path_exists E p"
  unfolding resolve_cookie_path_def by (metis cookie_candidates_nonempty find_Some_iff nth_mem)

end

lemma nonempty_not_Nil: "nonempty v \<noteq> Some []"
  by (simp add: nonempty_def split: option.splits)

interpretation process_env: env_provider "process_env vars proc_uid files"
  for vars proc_uid files
  by unfold_locales (simp add: process_env_def nonempty_not_Nil)

interpretation map_env: env_provider "map_env_ops e"
  for e
  by unfold_locales (simp add: map_env_ops_def nonempty_not_Nil)

subsection \<open>What is resolved\<close>

text \<open>The sockets that are tried when the user does not name a server.\<close>

definition socket_candidates :: "env_ops \<Rightarrow> rstring list" where
  "socket_candidates E =
     (case var E ''PULSE_RUNTIME_PATH'' of
        Some base \<Rightarrow> [join base ''native'', join base PULSE_NATIVE_SOCKET_RELATIVE] | None \<Rightarrow> []) @
     (case var E ''XDG_RUNTIME_DIR'' of Some xdg \<Rightarrow> [join xdg PULSE_NATIVE_SOCKET_RELATIVE] | None \<Rightarrow> []) @
     (case uid E of
        Some u \<Rightarrow> [join (str_lit ''/run/user/'' @ decimal (unat u)) PULSE_NATIVE_SOCKET_RELATIVE]
      | None \<Rightarrow> [])"

definition server_entries :: "env_ops \<Rightarrow> rstring list" where
  "server_entries E = (case var E ''PULSE_SERVER'' of Some s \<Rightarrow> split_whitespace s | None \<Rightarrow> [])"

lemma probe_find:
  "probe E cs tried = (case find (path_exists E) cs of Some c \<Rightarrow> Inl c | None \<Rightarrow> Inr (tried @ cs))"
  by (induction cs arbitrary: tried) (auto split: option.splits)

lemma find_append: "find P (xs @ ys) = (case find P xs of Some x \<Rightarrow> Some x | None \<Rightarrow> find P ys)"
  by (induction xs) auto

lemma resolve_alt:
  "resolve_server_socket E =
     (case first_unix_path (server_entries E) of
        Some p \<Rightarrow> Ok p
      | None \<Rightarrow>
          (if server_entries E \<noteq> [] then
             Err (no_unix_socket E)
           else case find (path_exists E) (socket_candidates E) of
               Some p \<Rightarrow> Ok p
             | None \<Rightarrow> Err (no_socket_found (socket_candidates E))))"
proof -
  define a where "a = (case var E ''PULSE_RUNTIME_PATH'' of
      Some base \<Rightarrow> [join base ''native'', join base PULSE_NATIVE_SOCKET_RELATIVE] | None \<Rightarrow> [])"
  define b where "b = (case var E ''XDG_RUNTIME_DIR'' of
      Some xdg \<Rightarrow> [join xdg PULSE_NATIVE_SOCKET_RELATIVE] | None \<Rightarrow> [])"
  define c where "c = (case uid E of
      Some u \<Rightarrow> [join (str_lit ''/run/user/'' @ decimal (unat u)) PULSE_NATIVE_SOCKET_RELATIVE]
    | None \<Rightarrow> [])"
  have all: "socket_candidates E = a @ b @ c"
    unfolding socket_candidates_def a_def b_def c_def by (rule refl)
  show ?thesis
    unfolding resolve_server_socket_def Let_def server_entries_def [symmetric] all
      a_def [symmetric] b_def [symmetric] c_def [symmetric] probe_find find_append
    by (cases "find (path_exists E) a"; cases "find (path_exists E) b"; cases "find (path_exists E) c")
      (simp_all split: option.splits)
qed

lemma first_unix_path_Some:
  "first_unix_path es = Some p \<Longrightarrow> \<exists>e \<in> set es. unix_path_from_server_entry e = Some p"
  by (induction es) (auto split: option.splits)

lemma first_unix_path_None:
  "first_unix_path es = None \<longleftrightarrow> list_all (\<lambda>e. unix_path_from_server_entry e = None) es"
  by (induction es) (auto split: option.splits)

subsection \<open>Properties\<close>

text \<open>
  C34: The server socket. A path named by \<open>PULSE_SERVER\<close> is taken without a look at the file system;
  otherwise the result is the first existing candidate. The error \<open>Unsupported\<close> means that
  \<open>PULSE_SERVER\<close> has entries and none of them is a unix socket (it is then never ignored), the error
  \<open>Device\<close> that it has none and no candidate exists, and its text lists every candidate. There is
  no other outcome.
\<close>

theorem resolve_server_socket_spec:
  "case resolve_server_socket E of
     Ok p \<Rightarrow>
       (if first_unix_path (server_entries E) = None
        then server_entries E = [] \<and> path_exists E p \<and>
          (\<exists>before after. socket_candidates E = before @ p # after \<and> list_all (\<lambda>q. \<not> path_exists E q) before)
        else first_unix_path (server_entries E) = Some p)
   | Err (Unsupported _) \<Rightarrow> server_entries E \<noteq> [] \<and>
       list_all (\<lambda>e. unix_path_from_server_entry e = None) (server_entries E)
   | Err (Device msg) \<Rightarrow> server_entries E = [] \<and> list_all (\<lambda>q. \<not> path_exists E q) (socket_candidates E) \<and>
       Device msg = no_socket_found (socket_candidates E)
   | _ \<Rightarrow> False"
proof (cases "first_unix_path (server_entries E)")
  case (Some p)
  then show ?thesis by (simp add: resolve_alt)
next
  case None
  show ?thesis
  proof (cases "server_entries E = []")
    case False
    with None have "resolve_server_socket E = Err (no_unix_socket E)" by (simp add: resolve_alt)
    with None False show ?thesis by (simp add: no_unix_socket_def first_unix_path_None)
  next
    case True
    show ?thesis
    proof (cases "find (path_exists E) (socket_candidates E)")
      case none: None
      then have "list_all (\<lambda>q. \<not> path_exists E q) (socket_candidates E)"
        by (simp add: find_None_iff list_all_iff)
      moreover have "resolve_server_socket E = Err (no_socket_found (socket_candidates E))"
        using None True none by (simp add: resolve_alt)
      ultimately show ?thesis using True by (simp add: no_socket_found_def)
    next
      case (Some p)
      then obtain i where i: "i < length (socket_candidates E)" "p = socket_candidates E ! i"
        "path_exists E p" "\<forall>j<i. \<not> path_exists E (socket_candidates E ! j)"
        by (auto simp: find_Some_iff)
      then have "socket_candidates E = take i (socket_candidates E) @ p # drop (Suc i) (socket_candidates E)"
        by (simp add: id_take_nth_drop)
      moreover have "list_all (\<lambda>q. \<not> path_exists E q) (take i (socket_candidates E))"
        using i by (auto simp: list_all_iff in_set_conv_nth)
      ultimately show ?thesis
        using None True Some i(3) by (auto simp: resolve_alt)
    qed
  qed
qed

end
