(* ===== verification/Pulse_Conn.thy ===== *)
theory Pulse_Conn
  imports Pulse_Env
begin

text \<open>
  Deadlines (\<open>crates/oxisound-pulse/src/timeout.rs\<close>), the bounded connection and the translation of
  errors (\<open>crates/oxisound-pulse/src/linux/conn.rs\<close>). The server and the crate that speaks its
  protocol are arguments: what they answer, and when. Times are in milliseconds.
\<close>

subsection \<open>Deadlines\<close>

definition PULSE_CONNECT_TIMEOUT :: nat where "PULSE_CONNECT_TIMEOUT = 5000"
definition PULSE_OP_TIMEOUT :: nat where "PULSE_OP_TIMEOUT = 5000"
definition PULSE_FLUSH_TIMEOUT :: nat where "PULSE_FLUSH_TIMEOUT = 2000"
definition PULSE_DRAIN_TIMEOUT :: nat where "PULSE_DRAIN_TIMEOUT = 10000"

record with_deadline =
  wd_deadline :: nat
  wd_armed :: bool

text \<open>
  Times are numbers of milliseconds. \<open>Instant::now() + timeout\<close> would panic if the sum could not be represented; every
  caller passes one of the constants of the crate, so the sum is taken to exist.
\<close>

definition new_deadline :: "nat \<Rightarrow> nat \<Rightarrow> with_deadline" where
  "new_deadline now timeout = \<lparr>wd_deadline = now + timeout, wd_armed = False\<rparr>"

datatype 'a poll = Ready 'a | Pending

text \<open>
  A poll: what the wrapped future answers, the time, and whether a timer thread can be started. The
  second result is the time at which a timer that was started now will wake the task.
\<close>

definition deadline_poll :: "'a poll \<Rightarrow> nat \<Rightarrow> bool \<Rightarrow> with_deadline
    \<Rightarrow> 'a option poll \<times> nat option \<times> with_deadline" where
  "deadline_poll inner now can_spawn d =
     (case inner of
        Ready v \<Rightarrow> (Ready (Some v), None, d)
      | Pending \<Rightarrow>
          (if wd_deadline d \<le> now then (Ready None, None, d)
           else if \<not> wd_armed d then
             (let remaining = wd_deadline d - now
              in if can_spawn then (Pending, Some (now + remaining), d\<lparr>wd_armed := True\<rparr>)
                 else (Pending, None, d\<lparr>wd_armed := False\<rparr>))
           else (Pending, None, d)))"

text \<open>
  The executor polls at the start and whenever the task is woken: by the wrapped future, at the
  times of the list, and by the timer, at \<open>timer\<close>. \<open>inner\<close> is the answer of the wrapped future at a
  time and \<open>spawns\<close> whether a thread can be started then. The result is the time and the value of
  the future; \<open>None\<close> is a caller that sleeps for ever.
\<close>

function block_on :: "(nat \<Rightarrow> 'a poll) \<Rightarrow> (nat \<Rightarrow> bool) \<Rightarrow> nat \<Rightarrow> nat list \<Rightarrow> nat option \<Rightarrow> with_deadline
    \<Rightarrow> (nat \<times> 'a option) option" where
  "block_on inner spawns now wakes timer d =
     (case deadline_poll (inner now) now (spawns now) d of
        (Ready r, _, _) \<Rightarrow> Some (now, r)
      | (Pending, armed, d') \<Rightarrow>
          (let timer = (case armed of Some t \<Rightarrow> Some t | None \<Rightarrow> timer)
           in case (wakes, timer) of
                ([], None) \<Rightarrow> None
              | ([], Some t) \<Rightarrow> block_on inner spawns (max now t) [] None d'
              | (w # ws, None) \<Rightarrow> block_on inner spawns (max now w) ws None d'
              | (w # ws, Some t) \<Rightarrow>
                  if t \<le> w then block_on inner spawns (max now t) (w # ws) None d'
                  else block_on inner spawns (max now w) ws (Some t) d'))"
  by pat_completeness auto
termination
  by (relation "measures [\<lambda>(i, s, now, ws, t, d). length ws,
      \<lambda>(i, s, now, ws, t, d). if wd_armed d then 0 else 1,
      \<lambda>(i, s, now, ws, t, d). case t of Some _ \<Rightarrow> 1 | None \<Rightarrow> 0]")
    (auto simp: deadline_poll_def Let_def split: poll.splits if_splits option.splits)

declare block_on.simps [simp del]

definition block_on_timeout :: "(nat \<Rightarrow> 'a poll) \<Rightarrow> (nat \<Rightarrow> bool) \<Rightarrow> nat list \<Rightarrow> nat \<Rightarrow> nat \<Rightarrow> string
    \<Rightarrow> (nat \<times> ('a, oxi_error) result) option" where
  "block_on_timeout inner spawns wakes start timeout what =
     map_option (map_prod id (ok_or (Timeout [Lit ''PulseAudio '', Lit what,
         Lit '' did not complete within '', Num timeout])))
       (block_on inner spawns start wakes None (new_deadline start timeout))"

lemma deadline_poll_wait:
  "deadline_poll inner now can_spawn d = (Pending, armed, d') \<Longrightarrow>
     inner = Pending \<and> now < wd_deadline d \<and> wd_deadline d' = wd_deadline d \<and>
     (wd_armed d' \<longleftrightarrow> wd_armed d \<or> can_spawn) \<and>
     armed = (if wd_armed d \<or> \<not> can_spawn then None else Some (wd_deadline d))"
  by (auto simp: deadline_poll_def Let_def split: poll.splits if_splits)

lemma deadline_poll_done:
  "deadline_poll inner now can_spawn d = (Ready r, armed, d') \<Longrightarrow>
     (case r of Some v \<Rightarrow> inner = Ready v | None \<Rightarrow> inner = Pending \<and> wd_deadline d \<le> now)"
  by (auto simp: deadline_poll_def Let_def split: poll.splits if_splits)

text \<open>
  With a timer that is pending for the deadline, or a thread that can be started now, the caller
  comes back by the deadline (or by the first poll, if that is later).
\<close>

definition comes_back :: "(nat \<Rightarrow> 'a poll) \<Rightarrow> nat \<Rightarrow> nat \<Rightarrow> (nat \<times> 'a option) option \<Rightarrow> bool" where
  "comes_back inner now limit res =
     (case res of None \<Rightarrow> False
      | Some (t, r) \<Rightarrow> now \<le> t \<and> t \<le> max now limit \<and>
          (case r of Some v \<Rightarrow> inner t = Ready v | None \<Rightarrow> inner t = Pending \<and> limit \<le> t))"

lemma comes_back_later:
  "comes_back inner now' limit res \<Longrightarrow> now \<le> now' \<Longrightarrow> now' \<le> max now limit \<Longrightarrow> comes_back inner now limit res"
  by (auto simp: comes_back_def max_def split: option.splits if_splits)

lemma block_on_returns:
  assumes "if wd_armed d then timer = Some (wd_deadline d) \<or> wd_deadline d \<le> now else spawns now"
  shows "comes_back inner now (wd_deadline d) (block_on inner spawns now wakes timer d)"
  using assms
proof (induction inner spawns now wakes timer d rule: block_on.induct)
  case (1 inner spawns now wakes timer d)
  show ?case
  proof (cases "deadline_poll (inner now) now (spawns now) d")
    case (fields p armed d')
    show ?thesis
    proof (cases p)
      case (Ready r)
      with fields deadline_poll_done [of "inner now" now "spawns now" d r armed d'] show ?thesis
        by (simp add: block_on.simps [of inner spawns now] comes_back_def split: option.splits)
    next
      case Pending
      note wait = deadline_poll_wait [OF fields [unfolded Pending]]
      define T where "T = (case armed of Some t \<Rightarrow> Some t | None \<Rightarrow> timer)"
      have T: "T = Some (wd_deadline d)" and armed': "wd_armed d'"
        using "1.prems" wait by (auto simp: T_def split: if_splits)
      have eq: "block_on inner spawns now wakes timer d =
          (case wakes of [] \<Rightarrow> block_on inner spawns (max now (wd_deadline d)) [] None d'
           | w # ws \<Rightarrow> if wd_deadline d \<le> w then block_on inner spawns (max now (wd_deadline d)) wakes None d'
               else block_on inner spawns (max now w) ws (Some (wd_deadline d)) d')"
        by (subst block_on.simps)
          (simp only: fields Pending prod.case poll.case Let_def T_def [symmetric], simp add: T split: list.splits)
      show ?thesis
      proof (cases wakes)
        case Nil
        from "1.IH"(1) [OF fields [symmetric] Pending refl T_def refl Nil T] armed' wait
        have "comes_back inner (max now (wd_deadline d)) (wd_deadline d)
            (block_on inner spawns (max now (wd_deadline d)) [] None d')" by simp
        then show ?thesis unfolding eq unfolding Nil list.case by (rule comes_back_later) auto
      next
        case (Cons w ws)
        note ih = "1.IH"(3,4) [OF fields [symmetric] Pending refl T_def refl Cons T]
        show ?thesis
        proof (cases "wd_deadline d \<le> w")
          case True
          have "comes_back inner (max now (wd_deadline d)) (wd_deadline d')
              (block_on inner spawns (max now (wd_deadline d)) (w # ws) None d')"
            by (rule ih(1) [OF True]) (simp add: armed' wait)
          then have c: "comes_back inner (max now (wd_deadline d)) (wd_deadline d)
              (block_on inner spawns (max now (wd_deadline d)) (w # ws) None d')"
            by (simp only: wait)
          show ?thesis
            unfolding eq unfolding Cons list.case if_P [OF True] by (rule comes_back_later [OF c]) auto
        next
          case False
          have "comes_back inner (max now w) (wd_deadline d')
              (block_on inner spawns (max now w) ws (Some (wd_deadline d)) d')"
            by (rule ih(2) [OF False]) (simp add: armed' wait)
          then have c: "comes_back inner (max now w) (wd_deadline d)
              (block_on inner spawns (max now w) ws (Some (wd_deadline d)) d')"
            by (simp only: wait)
          show ?thesis
            unfolding eq unfolding Cons list.case if_not_P [OF False]
            by (rule comes_back_later [OF c]) (use False in auto)
        qed
      qed
    qed
  qed
qed

subsection \<open>Errors\<close>

text \<open>An I/O error is its kind, as far as the code looks at it, and its text.\<close>

datatype io_kind = IoPermissionDenied | IoNotFound | IoConnectionRefused | IoOtherKind

type_synonym io_error = "io_kind \<times> rstring"

datatype pulse_error = AccessDenied | AuthKey | NoEntity | PulseTimeout | ConnectionTerminated | Killed
  | NotSupported | Invalid | TooLarge | Version | OtherPulse rstring

datatype protocol_error = ProtocolIo io_error | ProtocolServer pulse_error | ProtocolTimeout
  | OtherProtocol rstring

datatype client_error = ServerUnavailable | UnexpectedSequenceNumber | ClientProtocol protocol_error
  | ClientServer pulse_error | ClientIo io_error | ClientDisconnected

fun debug_pulse :: "pulse_error \<Rightarrow> rstring" where
  "debug_pulse AccessDenied = str_lit ''AccessDenied''"
| "debug_pulse AuthKey = str_lit ''AuthKey''"
| "debug_pulse NoEntity = str_lit ''NoEntity''"
| "debug_pulse PulseTimeout = str_lit ''Timeout''"
| "debug_pulse ConnectionTerminated = str_lit ''ConnectionTerminated''"
| "debug_pulse Killed = str_lit ''Killed''"
| "debug_pulse NotSupported = str_lit ''NotSupported''"
| "debug_pulse Invalid = str_lit ''Invalid''"
| "debug_pulse TooLarge = str_lit ''TooLarge''"
| "debug_pulse Version = str_lit ''Version''"
| "debug_pulse (OtherPulse nm) = nm"

fun map_connect_io :: "rstring \<Rightarrow> io_error \<Rightarrow> oxi_error" where
  "map_connect_io path (IoPermissionDenied, err) =
     PermissionDenied [Lit ''cannot open the PulseAudio socket '', Str path, Lit '': '', Str err]"
| "map_connect_io path (IoNotFound, err) =
     Device [Lit ''no PulseAudio server listening on '', Str path, Lit '': '', Str err,
       Lit ''; is pulseaudio or pipewire-pulse running?'']"
| "map_connect_io path (IoConnectionRefused, err) =
     Device [Lit ''no PulseAudio server listening on '', Str path, Lit '': '', Str err,
       Lit ''; is pulseaudio or pipewire-pulse running?'']"
| "map_connect_io path (IoOtherKind, err) =
     Device [Lit ''could not connect to the PulseAudio socket '', Str path, Lit '': '', Str err]"

fun map_server_error :: "pulse_error \<Rightarrow> oxi_error" where
  "map_server_error NoEntity = NoDevice"
| "map_server_error PulseTimeout =
     Timeout [Lit ''the PulseAudio server timed out ('', Str (debug_pulse PulseTimeout), Lit '')'']"
| "map_server_error NotSupported =
     Unsupported [Lit ''the PulseAudio server refused the request ('', Str (debug_pulse NotSupported), Lit '')'']"
| "map_server_error (OtherPulse nm) = Device [Lit ''PulseAudio server error: '', Str nm]"
| "map_server_error err =
     (if err = AccessDenied \<or> err = AuthKey then
        PermissionDenied [Lit ''the PulseAudio server rejected the connection ('', Str (debug_pulse err),
          Lit ''); check the cookie in $PULSE_COOKIE or ~/.config/pulse/cookie'']
      else if err = ConnectionTerminated \<or> err = Killed then
        Disconnected [Lit ''the PulseAudio stream ended ('', Str (debug_pulse err), Lit '')'']
      else UnsupportedConfig [Lit ''the PulseAudio server rejected it ('', Str (debug_pulse err), Lit '')''])"

fun io_err :: "io_error \<Rightarrow> oxi_error" where
  "io_err (k, err) = Io [Str err]"

fun map_protocol_error :: "protocol_error \<Rightarrow> oxi_error" where
  "map_protocol_error (ProtocolIo e) = io_err e"
| "map_protocol_error (ProtocolServer e) = map_server_error e"
| "map_protocol_error ProtocolTimeout = Timeout [Lit ''the PulseAudio server reported a timeout'']"
| "map_protocol_error (OtherProtocol nm) = Device [Lit ''PulseAudio protocol error: '', Str nm]"

fun map_client_error :: "client_error \<Rightarrow> oxi_error" where
  "map_client_error ServerUnavailable = Device [Lit ''the PulseAudio server is unavailable'']"
| "map_client_error UnexpectedSequenceNumber =
     Device [Lit ''the PulseAudio server replied with an unexpected sequence number'']"
| "map_client_error (ClientProtocol e) = map_protocol_error e"
| "map_client_error (ClientServer e) = map_server_error e"
| "map_client_error (ClientIo e) = io_err e"
| "map_client_error ClientDisconnected = Disconnected [Lit ''the PulseAudio connection was closed'']"

text \<open>
  A round trip with the server, \<open>block_on_timeout(...)?.map_err(map_client_error)\<close>: the answer, or
  \<open>None\<close> when the deadline passes first.
\<close>

type_synonym 'a reply = "('a, client_error) result option"

definition round_trip :: "string \<Rightarrow> nat \<Rightarrow> 'a reply \<Rightarrow> ('a, oxi_error) result" where
  "round_trip what timeout r =
     and_then (ok_or (Timeout [Lit ''PulseAudio '', Lit what, Lit '' did not complete within '', Num timeout]) r)
       (map_err map_client_error)"

subsection \<open>Connecting\<close>

definition DEFAULT_CLIENT_NAME :: rstring where "DEFAULT_CLIENT_NAME = str_lit ''oxisound''"

text \<open>What the calls of the worker answer, and how long they take together (\<open>None\<close>: for ever).\<close>

record connect_io =
  ci_connect :: "(unit, io_error) result"
  ci_read_timeout :: "(unit, io_error) result"
  ci_write_timeout :: "(unit, io_error) result"
  ci_clone :: "(unit, io_error) result"
  ci_handshake :: "rstring \<Rightarrow> byte list option \<Rightarrow> (unit, client_error) result"
  ci_time :: "nat option"

definition connect_blocking :: "connect_io \<Rightarrow> rstring \<Rightarrow> rstring \<Rightarrow> byte list option \<Rightarrow> (unit, oxi_error) result"
where
  "connect_blocking io path nm cookie =
     and_then (map_err (map_connect_io (utf8_lossy path)) (ci_connect io)) (\<lambda>_.
     and_then (map_err io_err (ci_read_timeout io)) (\<lambda>_.
     and_then (map_err io_err (ci_write_timeout io)) (\<lambda>_.
     and_then (map_err io_err (ci_clone io)) (\<lambda>_.
     map_err map_client_error (ci_handshake io nm cookie)))))"

text \<open>\<open>CString::new\<close> refuses an interior NUL; \<open>spawned\<close> is the error of starting the worker.\<close>

definition connect_client :: "env_ops \<Rightarrow> (rstring \<Rightarrow> byte list option) \<Rightarrow> rstring option \<Rightarrow> connect_io \<Rightarrow> rstring
    \<Rightarrow> nat \<times> (unit, oxi_error) result" where
  "connect_client E read_file spawned io nm =
     (case resolve_server_socket E of
        Err e \<Rightarrow> (0, Err e)
      | Panic \<Rightarrow> (0, Panic)
      | Ok path \<Rightarrow>
          (let cookie = load_cookie_from_env read_file E in
           if 0 \<in> set nm
           then (0, Err (Device [Lit ''PulseAudio client name '', Str nm, Lit '' contains an interior NUL byte'']))
           else case spawned of
               Some e \<Rightarrow> (0, Err (Device [Lit ''could not spawn PulseAudio connect thread: '', Str e]))
             | None \<Rightarrow>
                 (let timed_out = (PULSE_CONNECT_TIMEOUT,
                        Err (Timeout [Lit ''connecting to the PulseAudio server at '', Str (utf8_lossy path),
                          Lit '' did not complete within '', Num PULSE_CONNECT_TIMEOUT]))
                  in case (case ci_time io of Some t \<Rightarrow> worker_of t (connect_blocking io path nm cookie)
                           | None \<Rightarrow> Hangs) of
                       Reports t r \<Rightarrow> if t \<le> PULSE_CONNECT_TIMEOUT then (t, r) else timed_out
                     | Dies t \<Rightarrow> if t \<le> PULSE_CONNECT_TIMEOUT
                         then (t, Err (Device [Lit ''the PulseAudio connect worker for '', Str (utf8_lossy path),
                                Lit '' exited without a result'']))
                         else timed_out
                     | Hangs \<Rightarrow> timed_out)))"

lemma resolve_no_panic [panic_free]: "resolve_server_socket E \<noteq> Panic"
  by (simp add: resolve_alt split: option.splits)

lemma connect_bounded: "fst (connect_client E read_file spawned io nm) \<le> PULSE_CONNECT_TIMEOUT"
  by (auto simp: connect_client_def Let_def split: result.splits option.splits worker.splits)

lemma worker_of_report: "worker_of t r = Reports t' x \<Longrightarrow> t' = t \<and> x = r \<and> r \<noteq> Panic"
  by (cases r) auto

lemma connect_no_panic [panic_free]: "snd (connect_client E read_file spawned io nm) \<noteq> Panic"
  using resolve_no_panic [of E]
  by (auto simp: connect_client_def Let_def split: result.splits option.splits worker.splits
      dest: worker_of_report)

lemma connect_ok:
  assumes "connect_client E read_file spawned io nm = (t, Ok ())"
  shows "\<exists>path. resolve_server_socket E = Ok path \<and> 0 \<notin> set nm \<and> ci_time io = Some t \<and>
    ci_connect io = Ok () \<and> ci_handshake io nm (load_cookie_from_env read_file E) = Ok ()"
proof -
  from assms obtain path where path: "resolve_server_socket E = Ok path"
    by (auto simp: connect_client_def split: result.splits)
  with assms show ?thesis
    by (cases "ci_time io"; cases "connect_blocking io path nm (load_cookie_from_env read_file E)")
      (auto simp: connect_client_def Let_def connect_blocking_def map_err_eq_Ok
        split: option.splits if_splits)
qed

subsection \<open>Properties\<close>

text \<open>
  C33: \<open>block_on_timeout\<close> comes back. If a timer thread can be started at the first poll, the call
  returns by the deadline whatever the future does and whenever it wakes the task: with the value
  of the future if the last poll found it ready, and with \<open>Timeout\<close> only at the deadline or later,
  when the future was still pending.
\<close>

theorem block_on_timeout_returns:
  assumes "spawns start"
  shows "case block_on_timeout inner spawns wakes start timeout what of
      None \<Rightarrow> False
    | Some (t, r) \<Rightarrow> start \<le> t \<and> t \<le> start + timeout \<and>
        (case r of Ok v \<Rightarrow> inner t = Ready v
         | Err e \<Rightarrow> kind e = ''timeout'' \<and> inner t = Pending \<and> t = start + timeout
         | Panic \<Rightarrow> False)"
proof -
  have "comes_back inner start (start + timeout)
      (block_on inner spawns start wakes None (new_deadline start timeout))"
    using block_on_returns [of "new_deadline start timeout" None start spawns inner wakes] assms
    by (simp add: new_deadline_def)
  then show ?thesis
    by (auto simp: comes_back_def block_on_timeout_def split: option.splits)
qed

theorem block_on_timeout_returns_witness:
  "block_on_timeout (\<lambda>t. if t < 300 then Pending else Ready (7 :: nat)) (\<lambda>t. True) [10, 300] 0 5000 ''GET_SERVER_INFO''
     = Some (300, Ok 7) \<and>
   (case block_on_timeout (\<lambda>t. Pending :: nat poll) (\<lambda>t. True) [10, 300] 0 5000 ''GET_SERVER_INFO'' of
      None \<Rightarrow> False
    | Some (t, r) \<Rightarrow> t \<le> 5000)"
proof -
  have "block_on_timeout (\<lambda>t. if t < 300 then Pending else Ready (7 :: nat)) (\<lambda>t. True) [10, 300] 0 5000 ''GET_SERVER_INFO''
     = Some (300, Ok 7)"
    by (simp add: block_on_timeout_def new_deadline_def block_on.simps deadline_poll_def)
  moreover have "case block_on_timeout (\<lambda>t. Pending :: nat poll) (\<lambda>t. True) [10, 300] 0 5000 ''GET_SERVER_INFO'' of
      None \<Rightarrow> False | Some (t, r) \<Rightarrow> t \<le> 5000"
    using block_on_timeout_returns [where spawns = "\<lambda>t. True" and start = 0 and inner = "\<lambda>t. Pending :: nat poll"
      and wakes = "[10, 300]" and timeout = 5000 and what = "''GET_SERVER_INFO''"]
    by (auto split: option.splits)
  ultimately show ?thesis ..
qed

end
