(* ===== verification/Pulse_Format.thy ===== *)
theory Pulse_Format
  imports Ieee Core_Types
begin

text \<open>
  The wire formats of \<open>crates/oxisound-pulse/src/format.rs\<close>: negotiation, and the conversion between
  \<open>f32\<close> samples and the bytes of PulseAudio. A sample is its bit pattern and the arithmetic is that
  of theory \<open>Ieee\<close>, every operation rounded as the code rounds it.
\<close>

subsection \<open>Formats\<close>

text \<open>The constructor for unsigned bytes is called \<open>U8\<close> in the code.\<close>

datatype pulse_format = PulseU8 | S16Le | S24Le | S32Le | Float32Le

fun bytes_per_sample :: "pulse_format \<Rightarrow> nat" where
  "bytes_per_sample PulseU8 = 1"
| "bytes_per_sample S16Le = 2"
| "bytes_per_sample S24Le = 3"
| "bytes_per_sample S32Le = 4"
| "bytes_per_sample Float32Le = 4"

fun to_core :: "pulse_format \<Rightarrow> sample_format" where
  "to_core PulseU8 = U8"
| "to_core S16Le = I16"
| "to_core S24Le = I24"
| "to_core S32Le = I32"
| "to_core Float32Le = F32"

fun from_core :: "sample_format \<Rightarrow> pulse_format option" where
  "from_core U8 = Some PulseU8"
| "from_core I16 = Some S16Le"
| "from_core I24 = Some S24Le"
| "from_core I32 = Some S32Le"
| "from_core F32 = Some Float32Le"
| "from_core F64 = None"

definition frame_size :: "pulse_format \<Rightarrow> 16 word \<Rightarrow> nat" where
  "frame_size fmt ch = (let ch = if ch = 0 then 1 else unat ch in bytes_per_sample fmt * ch)"

subsection \<open>Negotiation\<close>

fun first_representable :: "sample_format list \<Rightarrow> pulse_format option" where
  "first_representable [] = None"
| "first_representable (f # fs) = (case from_core f of Some w \<Rightarrow> Some w | None \<Rightarrow> first_representable fs)"

definition negotiate_format ::
    "sample_format option \<Rightarrow> sample_format list \<Rightarrow> pulse_format option \<Rightarrow> (pulse_format, oxi_error) result"
where
  "negotiate_format requested preferred native =
     (case requested of
        Some f \<Rightarrow> ok_or (FormatMismatch [Lit ''sample format '', Lit (show_sample_format f),
            Lit '' has no PulseAudio wire encoding; use f32, i32, i24, i16 or u8'']) (from_core f)
      | None \<Rightarrow>
          (case first_representable preferred of
             Some w \<Rightarrow> Ok w
           | None \<Rightarrow> Ok (case native of Some w \<Rightarrow> w | None \<Rightarrow> Float32Le)))"

subsection \<open>Encoding\<close>

fun clamp_unit :: "fval \<Rightarrow> rat" where
  "clamp_unit NotANumber = 0"
| "clamp_unit (Infinite neg) = (if neg then -1 else 1)"
| "clamp_unit (Finite q) = max (-1) (min 1 q)"

definition as_i32 :: "rat \<Rightarrow> int" where
  "as_i32 q = cast_int (- (2 ^ 31)) (2 ^ 31 - 1) (Finite q)"

text \<open>\<open>v.clamp(lo, hi)\<close>\<close>

definition clamp_int :: "int \<Rightarrow> int \<Rightarrow> int \<Rightarrow> int" where
  "clamp_int lo hi v = max lo (min hi v)"

fun encode_sample :: "pulse_format \<Rightarrow> f32 \<Rightarrow> byte list" where
  "encode_sample PulseU8 s =
     (let scaled = as_i32 (of_int (round_away (fl32 (clamp_unit (val32 s) * 127)))) + 128
      in [word_of_int (clamp_int 0 255 scaled)])"
| "encode_sample S16Le s =
     (let v = as_i32 (of_int (round_away (fl32 (clamp_unit (val32 s) * 32767))))
      in to_le 2 (word_of_int (clamp_int (-32768) 32767 v) :: 16 word))"
| "encode_sample S24Le s =
     (let v = as_i32 (of_int (round_away (fl32 (clamp_unit (val32 s) * 8388607))))
      in take 3 (to_le 4 (word_of_int (clamp_int (-8388608) 8388607 v) :: 32 word)))"
| "encode_sample S32Le s =
     (let v = round_away (fl64 (clamp_unit (val32 s) * 2147483647))
      in to_le 4 (word_of_int (as_i32 (of_int (clamp_int (-2147483648) 2147483647 v))) :: 32 word))"
| "encode_sample Float32Le s = to_le 4 s"

fun encode_f32 :: "pulse_format \<Rightarrow> f32 list \<Rightarrow> byte list \<Rightarrow> byte list" where
  "encode_f32 fmt [] out = out"
| "encode_f32 fmt (s # samples) out = encode_f32 fmt samples (out @ encode_sample fmt s)"

subsection \<open>Decoding\<close>

text \<open>A chunk has as many bytes as the format has bytes per sample; \<open>bits32\<close> rounds the last result.\<close>

fun decode_sample :: "pulse_format \<Rightarrow> byte list \<Rightarrow> f32" where
  "decode_sample PulseU8 chunk = bits32 (fl32 (of_nat (unat (chunk ! 0)) - 128) / 128)"
| "decode_sample S16Le chunk =
     bits32 (of_int (sint (from_le [chunk ! 0, chunk ! 1] :: 16 word)) / 32768)"
| "decode_sample S24Le chunk =
     (let raw = from_le [chunk ! 0, chunk ! 1, chunk ! 2, 0] :: 32 word;
          signed = signed_drop_bit 8 (push_bit 8 raw)
      in bits32 (fl32 (of_int (sint signed)) / 8388608))"
| "decode_sample S32Le chunk =
     (let v = sint (from_le [chunk ! 0, chunk ! 1, chunk ! 2, chunk ! 3] :: 32 word)
      in bits32 (fl64 (of_int v / 2147483648)))"
| "decode_sample Float32Le chunk = from_le [chunk ! 0, chunk ! 1, chunk ! 2, chunk ! 3]"

definition decode_to_f32 :: "pulse_format \<Rightarrow> byte list \<Rightarrow> f32 list \<Rightarrow> nat \<times> f32 list" where
  "decode_to_f32 fmt bytes out =
     (let width = bytes_per_sample fmt;
          cnt = min (length bytes div width) (length out)
      in (cnt, map (\<lambda>i. decode_sample fmt (take width (drop (i * width) bytes))) [0..<cnt]
                 @ drop cnt out))"

subsection \<open>Lengths and chunks\<close>

lemma bytes_per_sample_pos [simp]: "0 < bytes_per_sample fmt"
  by (cases fmt) auto

lemma bytes_per_sample_byte_size: "bytes_per_sample fmt = byte_size (to_core fmt)"
  by (cases fmt) auto

lemma from_core_to_core [simp]: "from_core (to_core fmt) = Some fmt"
  by (cases fmt) auto

lemma frame_size_pos [simp]: "0 < frame_size fmt ch"
  by (simp add: frame_size_def Let_def unat_gt_0)

lemma length_encode_sample [simp]: "length (encode_sample fmt s) = bytes_per_sample fmt"
  by (cases fmt) (simp_all add: Let_def)

lemma encode_f32_concat: "encode_f32 fmt samples out = out @ concat (map (encode_sample fmt) samples)"
  by (induction samples arbitrary: out) auto

lemma length_encode_f32 [simp]:
  "length (encode_f32 fmt samples out) = length out + length samples * bytes_per_sample fmt"
  by (simp add: encode_f32_concat length_concat o_def sum_list_triv)

lemma take_drop_concat:
  assumes "\<And>c. c \<in> set cs \<Longrightarrow> length c = w" and "i < length cs"
  shows "take w (drop (i * w) (concat cs)) = cs ! i"
  using assms
proof (induction cs arbitrary: i)
  case Nil
  then show ?case by simp
next
  case (Cons c cs)
  then show ?case by (cases i) (auto simp flip: drop_drop simp: add.commute)
qed

text \<open>Decoding whole samples decodes each of them; what is behind the last one is left alone.\<close>

lemma decode_concat:
  assumes "\<And>c. c \<in> set cs \<Longrightarrow> length c = bytes_per_sample fmt"
  shows "decode_to_f32 fmt (concat cs) out =
    (min (length cs) (length out),
     map (decode_sample fmt) (take (length out) cs) @ drop (length cs) out)"
proof -
  define w where "w = bytes_per_sample fmt"
  have len: "length (concat cs) = length cs * w"
    using assms by (induction cs) (auto simp: w_def)
  have w: "0 < w" by (simp add: w_def)
  have "map (\<lambda>i. decode_sample fmt (take w (drop (i * w) (concat cs)))) [0..<min (length cs) (length out)]
      = map (decode_sample fmt) (take (length out) cs)"
    using assms by (intro nth_equalityI) (auto simp: take_drop_concat w_def)
  then show ?thesis
    using w by (auto simp: decode_to_f32_def Let_def len simp flip: w_def split: split_min)
qed

lemma decode_in_range:
  assumes "i < length bytes div bytes_per_sample fmt"
  shows "length (take (bytes_per_sample fmt) (drop (i * bytes_per_sample fmt) bytes)) = bytes_per_sample fmt"
proof -
  have "(i + 1) * bytes_per_sample fmt \<le> length bytes div bytes_per_sample fmt * bytes_per_sample fmt"
    using assms by (intro mult_le_mono1) simp
  also have "\<dots> \<le> length bytes" by simp
  finally show ?thesis by simp
qed

subsection \<open>The error of a round trip\<close>

lemma clamp_unit_bounds: "\<bar>clamp_unit v\<bar> \<le> 1"
  by (cases v) (auto simp: max_def min_def)

text \<open>
  Scaling by \<open>C\<close> with an error of at most a quarter, rounding to an integer and dividing by
  \<open>C + 1\<close> stays in range and moves the value by at most two steps.
\<close>

lemma quantize:
  fixes x y :: rat
  assumes x: "\<bar>x\<bar> \<le> 1" and y: "\<bar>y - x * of_int C\<bar> \<le> 1 / 4" and C: "0 < C"
  shows "\<bar>round_away y\<bar> \<le> C"
    and "\<bar>of_int (round_away y) / of_int (C + 1) - x\<bar> \<le> 2 / of_int (C + 1)"
proof -
  define r where "r = round_away y"
  have r: "\<bar>of_int r - y\<bar> \<le> 1 / 2" unfolding r_def by (rule round_away_error)
  have xc: "\<bar>x * of_int C\<bar> \<le> of_int C"
    using mult_right_mono [OF x, of "of_int C"] C by (simp add: abs_mult)
  from r y xc have "\<bar>rat_of_int r\<bar> < of_int C + 1" by linarith
  then have "of_int \<bar>r\<bar> < (of_int (C + 1) :: rat)" by simp
  then show "\<bar>round_away y\<bar> \<le> C" unfolding of_int_less_iff by (simp add: r_def)
  have "of_int r / of_int (C + 1) - x = (of_int r - x * of_int C - x) / (of_int (C + 1) :: rat)"
    using C by (simp add: field_simps)
  also have "\<bar>\<dots>\<bar> = \<bar>of_int r - x * of_int C - x\<bar> / of_int (C + 1)"
    using C by (simp add: abs_divide)
  also have "\<bar>of_int r - x * of_int C - x\<bar> \<le> 2"
    using r y x by linarith
  then have "\<bar>of_int r - x * of_int C - x\<bar> / of_int (C + 1) \<le> 2 / of_int (C + 1)"
    using C by (intro divide_right_mono) auto
  finally show "\<bar>of_int (round_away y) / of_int (C + 1) - x\<bar> \<le> 2 / of_int (C + 1)"
    by (simp add: r_def)
qed

lemma fl_scale_error:
  assumes "\<bar>x\<bar> \<le> 1" and "of_int C < (2 :: rat) powi k" and "0 < C" and "emin eb < k" and "k \<le> int mb"
  shows "\<bar>fl mb eb (x * of_int C) - x * of_int C\<bar> \<le> 1 / 4"
proof -
  have "\<bar>x * of_int C\<bar> \<le> of_int C"
    using mult_right_mono [OF assms(1), of "of_int C"] assms(3) by (simp add: abs_mult)
  with assms(2) have "\<bar>x * of_int C\<bar> < 2 powi k" by simp
  from fl_error [OF this assms(4), of mb]
  have "\<bar>fl mb eb (x * of_int C) - x * of_int C\<bar> \<le> 2 powi (k - int mb - 2)" .
  also have "\<dots> \<le> 2 powi (-2)"
    using assms(5) by (intro powi_mono) simp
  finally show ?thesis by (simp add: power_int_def power2_eq_square)
qed

lemma emin_32: "emin 8 = -126" and emin_64: "emin 11 = -1022"
  by (simp_all add: emin_def)

lemma as_i32_id: "\<bar>n\<bar> \<le> 2 ^ 31 - 1 \<Longrightarrow> as_i32 (of_int n) = n"
  by (auto simp: as_i32_def)

lemma clamp_int_id: "lo \<le> v \<Longrightarrow> v \<le> hi \<Longrightarrow> clamp_int lo hi v = v"
  by (simp add: clamp_int_def)

text \<open>Integers of up to 24 bits over a power of two are exact.\<close>

lemma fl32_quotient:
  assumes "\<bar>n\<bar> < 2 ^ 24" and "k \<le> 100"
  shows "fl32 (of_int n / 2 ^ k) = of_int n / 2 ^ k"
  using fl_exact [of n 23 8 "- int k"] assms
  by (simp add: emin_32 power_int_minus divide_inverse)

lemma val32_quotient:
  assumes "\<bar>n\<bar> < 2 ^ 24" and "k \<le> 100" and "\<bar>of_int n / 2 ^ k :: rat\<bar> < 2"
  shows "val32 (bits32 (of_int n / 2 ^ k)) = Finite (of_int n / 2 ^ k)"
  using assms by (simp add: fl32_quotient val32_bits32)

text \<open>What comes back from a sample, given the integer that was encoded.\<close>

lemma sint_of_int_16: "-(2 ^ 15) \<le> v \<Longrightarrow> v < 2 ^ 15 \<Longrightarrow> sint (word_of_int v :: 16 word) = v"
  by (simp add: sint_sbintrunc' signed_take_bit_int_eq_self)

lemma sint_of_int_32: "-(2 ^ 31) \<le> v \<Longrightarrow> v < 2 ^ 31 \<Longrightarrow> sint (word_of_int v :: 32 word) = v"
  by (simp add: sint_sbintrunc' signed_take_bit_int_eq_self)

lemma length_2: "length xs = 2 \<Longrightarrow> [xs ! 0, xs ! 1] = xs"
  by (auto simp: numeral_eq_Suc length_Suc_conv)

lemma length_4: "length xs = 4 \<Longrightarrow> [xs ! 0, xs ! 1, xs ! 2, xs ! 3] = xs"
  by (auto simp: numeral_eq_Suc length_Suc_conv)

lemma to_le_2 [simp]: "from_le [to_le 2 w ! 0, to_le 2 w ! Suc 0] = (w :: 16 word)"
  by (simp only: length_2 [unfolded One_nat_def] length_to_le from_le_to_le_16)

lemma to_le_4 [simp]:
  "from_le [to_le 4 w ! 0, to_le 4 w ! Suc 0, to_le 4 w ! 2, to_le 4 w ! 3] = (w :: 32 word)"
  by (simp only: length_4 [unfolded One_nat_def] length_to_le from_le_to_le_32)

text \<open>Three bytes and an arithmetic shift restore a number of 24 bits.\<close>

lemma take_rev_be_bytes: "k \<le> n \<Longrightarrow> take k (rev (be_bytes n v)) = rev (be_bytes k v)"
proof (induction n arbitrary: k v)
  case (Suc n)
  then show ?case by (cases k) auto
qed simp

lemma be_nat_zero_Cons: "be_nat (0 # xs) = be_nat xs"
  by (simp add: be_nat_def)

lemma rev_3: "length xs = 3 \<Longrightarrow> [xs ! 2, xs ! 1, xs ! 0] = rev xs"
  by (auto simp: numeral_eq_Suc length_Suc_conv)

lemma le_24:
  fixes w :: "32 word"
  shows "(from_le [take 3 (to_le 4 w) ! 0, take 3 (to_le 4 w) ! 1, take 3 (to_le 4 w) ! 2, 0] :: 32 word)
     = word_of_nat (unat w mod 2 ^ 24)"
proof -
  define c where "c = take 3 (to_le 4 w)"
  have c: "c = rev (be_bytes 3 (unat w))"
    unfolding c_def to_le_def to_be_def by (rule take_rev_be_bytes) simp
  have "be_nat [0, c ! 2, c ! 1, c ! 0] = be_nat (rev c)"
    using rev_3 [of c] by (simp add: be_nat_zero_Cons c)
  also have "\<dots> = unat w mod 2 ^ 24" by (simp add: c)
  finally show ?thesis by (simp add: from_le_def from_be_def flip: c_def)
qed

lemma sign_extend_24:
  assumes "-(2 ^ 23) \<le> v" and "v < 2 ^ 23"
  shows "sint (signed_drop_bit 8 (push_bit 8 (word_of_nat (unat (word_of_int v :: 32 word) mod 2 ^ 24) :: 32 word))) = v"
proof -
  define n where "n = unat (word_of_int v :: 32 word)"
  have "(word_of_nat (n mod 2 ^ 24 * 2 ^ 8) :: 32 word) = word_of_nat (n * 2 ^ 8)"
    by (simp only: word_of_nat_eq_iff take_bit_eq_mod) (simp add: mult_mod_left)
  then have "push_bit 8 (word_of_nat (n mod 2 ^ 24) :: 32 word) = push_bit 8 (word_of_nat n)"
    by (simp add: push_bit_eq_mult)
  also have "\<dots> = push_bit 8 (word_of_int v)" by (simp add: n_def)
  also have "\<dots> = word_of_int (v * 2 ^ 8)" by (simp add: push_bit_eq_mult)
  finally have "sint (push_bit 8 (word_of_nat (n mod 2 ^ 24) :: 32 word)) = sint (word_of_int (v * 2 ^ 8) :: 32 word)"
    by (simp only:)
  also have "\<dots> = v * 2 ^ 8"
    using assms by (intro sint_of_int_32) auto
  finally show ?thesis
    by (simp add: sint_signed_drop_bit_eq drop_bit_eq_div flip: n_def)
qed

text \<open>The largest error of a format: two steps, and for 32 bits the last rounding to \<open>f32\<close>.\<close>

fun tolerance :: "pulse_format \<Rightarrow> rat" where
  "tolerance PulseU8 = 2 / 2 ^ 7"
| "tolerance S16Le = 2 / 2 ^ 15"
| "tolerance S24Le = 2 / 2 ^ 23"
| "tolerance S32Le = 2 / 2 ^ 31 + 1 / 2 ^ 24"
| "tolerance Float32Le = 0"

lemma scaled_sample:
  fixes s :: f32
  defines "x \<equiv> clamp_unit (val32 s)"
  shows "\<bar>round_away (fl32 (x * 127))\<bar> \<le> 127 \<and> \<bar>of_int (round_away (fl32 (x * 127))) / 2 ^ 7 - x\<bar> \<le> 2 / 2 ^ 7"
    and "\<bar>round_away (fl32 (x * 32767))\<bar> \<le> 32767 \<and>
      \<bar>of_int (round_away (fl32 (x * 32767))) / 2 ^ 15 - x\<bar> \<le> 2 / 2 ^ 15"
    and "\<bar>round_away (fl32 (x * 8388607))\<bar> \<le> 8388607 \<and>
      \<bar>of_int (round_away (fl32 (x * 8388607))) / 2 ^ 23 - x\<bar> \<le> 2 / 2 ^ 23"
    and "\<bar>round_away (fl64 (x * 2147483647))\<bar> \<le> 2147483647 \<and>
      \<bar>of_int (round_away (fl64 (x * 2147483647))) / 2 ^ 31 - x\<bar> \<le> 2 / 2 ^ 31"
proof -
  have x: "\<bar>x\<bar> \<le> 1" unfolding x_def by (rule clamp_unit_bounds)
  note q = quantize [OF x] and e = fl_scale_error [OF x]
  show "\<bar>round_away (fl32 (x * 127))\<bar> \<le> 127 \<and> \<bar>of_int (round_away (fl32 (x * 127))) / 2 ^ 7 - x\<bar> \<le> 2 / 2 ^ 7"
    using q [of "fl32 (x * 127)" 127] e [of 127 7 8 23] by (simp add: emin_32)
  show "\<bar>round_away (fl32 (x * 32767))\<bar> \<le> 32767 \<and>
      \<bar>of_int (round_away (fl32 (x * 32767))) / 2 ^ 15 - x\<bar> \<le> 2 / 2 ^ 15"
    using q [of "fl32 (x * 32767)" 32767] e [of 32767 15 8 23] by (simp add: emin_32)
  show "\<bar>round_away (fl32 (x * 8388607))\<bar> \<le> 8388607 \<and>
      \<bar>of_int (round_away (fl32 (x * 8388607))) / 2 ^ 23 - x\<bar> \<le> 2 / 2 ^ 23"
    using q [of "fl32 (x * 8388607)" 8388607] e [of 8388607 23 8 23] by (simp add: emin_32)
  show "\<bar>round_away (fl64 (x * 2147483647))\<bar> \<le> 2147483647 \<and>
      \<bar>of_int (round_away (fl64 (x * 2147483647))) / 2 ^ 31 - x\<bar> \<le> 2 / 2 ^ 31"
    using q [of "fl64 (x * 2147483647)" 2147483647] e [of 2147483647 31 11 52] by (simp add: emin_64)
qed

text \<open>No clamp or cast behind the scaling changes the number, and decoding reads it back.\<close>

lemma reread_U8:
  assumes "\<bar>r\<bar> \<le> 127" and "r = round_away (fl32 (clamp_unit (val32 s) * 127))"
  shows "decode_sample PulseU8 (encode_sample PulseU8 s) = bits32 (of_int r / 2 ^ 7)"
proof -
  have "clamp_int 0 255 (r + 128) = r + 128" using assms(1) by (intro clamp_int_id) auto
  then have "encode_sample PulseU8 s = [word_of_int (r + 128)]"
    using assms(1) by (simp add: as_i32_id flip: assms(2))
  moreover have "int (unat (word_of_int (r + 128) :: byte)) = r + 128"
    using assms(1) by (simp only: unsigned_of_int) (simp add: take_bit_int_eq_self)
  then have "rat_of_nat (unat (word_of_int (r + 128) :: byte)) = of_int (r + 128)"
    by (metis of_int_of_nat_eq)
  ultimately show ?thesis
    using assms(1) fl32_quotient [of r 0] by simp
qed

lemma reread_16:
  assumes "\<bar>r\<bar> \<le> 32767" and "r = round_away (fl32 (clamp_unit (val32 s) * 32767))"
  shows "decode_sample S16Le (encode_sample S16Le s) = bits32 (of_int r / 2 ^ 15)"
proof -
  have "encode_sample S16Le s = to_le 2 (word_of_int r :: 16 word)"
    using assms(1) by (simp add: as_i32_id clamp_int_id flip: assms(2))
  then show ?thesis
    using assms(1) by (simp only: decode_sample.simps One_nat_def to_le_2) (simp add: sint_of_int_16 del: of_int_sint)
qed

lemma reread_24:
  assumes "\<bar>r\<bar> \<le> 8388607" and "r = round_away (fl32 (clamp_unit (val32 s) * 8388607))"
  shows "decode_sample S24Le (encode_sample S24Le s) = bits32 (of_int r / 2 ^ 23)"
proof -
  have "encode_sample S24Le s = take 3 (to_le 4 (word_of_int r :: 32 word))"
    using assms(1) by (simp add: as_i32_id clamp_int_id flip: assms(2))
  moreover have "sint (signed_drop_bit 8 (push_bit 8 (word_of_nat (unat (word_of_int r :: 32 word) mod 2 ^ 24) :: 32 word))) = r"
    using assms(1) by (intro sign_extend_24) auto
  ultimately show ?thesis
    using assms(1) fl32_quotient [of r 0]
    by (simp only: decode_sample.simps le_24 Let_def) (simp del: of_int_sint)
qed

lemma reread_32:
  assumes "\<bar>r\<bar> \<le> 2147483647" and "r = round_away (fl64 (clamp_unit (val32 s) * 2147483647))"
  shows "decode_sample S32Le (encode_sample S32Le s) = bits32 (fl64 (of_int r / 2 ^ 31))"
proof -
  have "encode_sample S32Le s = to_le 4 (word_of_int r :: 32 word)"
    using assms(1) by (simp add: as_i32_id clamp_int_id flip: assms(2))
  then show ?thesis
    using assms(1) by (simp only: decode_sample.simps One_nat_def to_le_4) (simp add: sint_of_int_32 del: of_int_sint)
qed

lemma quotient_less_2:
  assumes "\<bar>r\<bar> < 2 ^ k"
  shows "\<bar>of_int r / 2 ^ k :: rat\<bar> < 2"
proof -
  have "of_int \<bar>r\<bar> < (of_int (2 ^ k) :: rat)" using assms by (simp only: of_int_less_iff)
  then have "\<bar>of_int r\<bar> < (2 :: rat) ^ k" by simp
  then show ?thesis by (simp add: abs_divide divide_less_eq)
qed

lemma reread_value:
  assumes "decode_sample fmt (encode_sample fmt s) = bits32 (of_int r / 2 ^ k)"
    and "\<bar>r\<bar> < 2 ^ k" and "k \<le> 23" and "\<bar>of_int r / 2 ^ k - x\<bar> \<le> t"
  shows "\<exists>v. val32 (decode_sample fmt (encode_sample fmt s)) = Finite v \<and> \<bar>v - x\<bar> \<le> t"
proof -
  have "(2 :: int) ^ k \<le> 2 ^ 23" using assms(3) by (rule power_increasing) simp
  with assms(2) have "\<bar>r\<bar> < 2 ^ 24" by simp
  with assms(3) quotient_less_2 [OF assms(2)]
  have "val32 (bits32 (of_int r / 2 ^ k)) = Finite (of_int r / 2 ^ k)"
    by (intro val32_quotient) auto
  with assms(1,4) show ?thesis by auto
qed

lemma sample_roundtrip:
  assumes "fmt \<noteq> Float32Le"
  shows "\<exists>v. val32 (decode_sample fmt (encode_sample fmt s)) = Finite v \<and>
    \<bar>v - clamp_unit (val32 s)\<bar> \<le> tolerance fmt"
proof (cases fmt)
  case PulseU8
  from scaled_sample(1) [of s] show ?thesis
    unfolding PulseU8 tolerance.simps by (intro reread_value [OF reread_U8 [OF _ refl]]) auto
next
  case S16Le
  from scaled_sample(2) [of s] show ?thesis
    unfolding S16Le tolerance.simps by (intro reread_value [OF reread_16 [OF _ refl]]) auto
next
  case S24Le
  from scaled_sample(3) [of s] show ?thesis
    unfolding S24Le tolerance.simps by (intro reread_value [OF reread_24 [OF _ refl]]) auto
next
  case S32Le
  define r where "r = round_away (fl64 (clamp_unit (val32 s) * 2147483647))"
  define y :: rat where "y = of_int r / 2 ^ 31"
  note b = scaled_sample(4) [of s, folded r_def]
  have "fl64 y = y"
    using fl_exact [of r 52 11 "- 31"] b by (simp add: y_def emin_64 power_int_minus_divide)
  then have dec: "decode_sample S32Le (encode_sample S32Le s) = bits32 y"
    using reread_32 [OF _ r_def] b by (simp only: y_def)
  have "of_int \<bar>r\<bar> < (of_int (2 ^ 31) :: rat)" using b by (simp only: of_int_less_iff) simp
  then have "\<bar>y\<bar> < 1" by (simp add: y_def abs_divide divide_less_eq)
  then have e: "\<bar>fl32 y - y\<bar> \<le> 1 / 2 ^ 25"
    using fl_error [of y 0 8 23] by (simp add: emin_32 power_int_def power_one_over)
  from dec \<open>\<bar>y\<bar> < 1\<close> have "val32 (decode_sample fmt (encode_sample fmt s)) = Finite (fl32 y)"
    by (simp add: S32Le val32_bits32)
  moreover have "\<bar>fl32 y - clamp_unit (val32 s)\<bar> \<le> 2 / 2 ^ 31 + 1 / 2 ^ 24"
  proof -
    have "\<bar>y - clamp_unit (val32 s)\<bar> \<le> 2 / 2 ^ 31"
      using b by (simp add: y_def)
    with e have "\<bar>fl32 y - y\<bar> + \<bar>y - clamp_unit (val32 s)\<bar> \<le> 1 / 2 ^ 25 + 2 / 2 ^ 31"
      by (rule add_mono)
    moreover have "\<bar>fl32 y - clamp_unit (val32 s)\<bar> \<le> \<bar>fl32 y - y\<bar> + \<bar>y - clamp_unit (val32 s)\<bar>"
      by linarith
    ultimately show ?thesis by simp
  qed
  ultimately show ?thesis by (simp add: S32Le)
next
  case Float32Le
  with assms show ?thesis by simp
qed

lemma encode_saturates:
  assumes "fmt \<noteq> Float32Le" and "clamp_unit (val32 s) = clamp_unit (val32 t)"
  shows "encode_sample fmt s = encode_sample fmt t"
  using assms by (cases fmt) auto

subsection \<open>Properties\<close>

text \<open>
  C22: A buffer that is encoded and decoded again comes back whole, with as many bytes on the wire
  as its samples need. \<open>Float32Le\<close> keeps every bit pattern, NaN included. In the integer formats
  every sample is a number again, within two steps of the format of the sample clamped to
  \<open>[-1, 1]\<close> (plus the rounding to \<open>f32\<close> for 32 bits), and a NaN comes back as silence.
\<close>

theorem pulse_encode_decode:
  "length (encode_f32 fmt samples []) = length samples * bytes_per_sample fmt \<and>
   (case decode_to_f32 fmt (encode_f32 fmt samples []) out of (n, out') \<Rightarrow>
      n = min (length samples) (length out) \<and> drop n out' = drop n out \<and>
      list_all2 (\<lambda>s t. case fmt of
          Float32Le \<Rightarrow> t = s
        | _ \<Rightarrow> (case val32 t of Finite v \<Rightarrow> \<bar>v - clamp_unit (val32 s)\<bar> \<le> tolerance fmt | _ \<Rightarrow> False))
        (take n samples) (take n out'))"
proof -
  define n where "n = min (length samples) (length out)"
  define rr where "rr s = decode_sample fmt (encode_sample fmt s)" for s
  have dec: "decode_to_f32 fmt (encode_f32 fmt samples []) out =
      (n, map rr (take n samples) @ drop n out)"
    using decode_concat [of "map (encode_sample fmt) samples" fmt out]
    by (fastforce simp: encode_f32_concat n_def rr_def take_map comp_def split: split_min)
  have one: "case fmt of Float32Le \<Rightarrow> rr s = s
      | _ \<Rightarrow> (case val32 (rr s) of Finite v \<Rightarrow> \<bar>v - clamp_unit (val32 s)\<bar> \<le> tolerance fmt | _ \<Rightarrow> False)" for s
  proof (cases "fmt = Float32Le")
    case True
    then show ?thesis by (simp add: rr_def)
  next
    case False
    with sample_roundtrip [OF False, of s] show ?thesis
      by (auto simp: rr_def split: pulse_format.splits)
  qed
  have "length (map rr (take n samples)) = n" by (simp add: n_def)
  then show ?thesis
    using one by (simp add: dec list_all2_map2 list.rel_refl) (simp add: n_def)
qed

end
