(* ===== verification/Pulse_Model.thy ===== *)
theory Pulse_Model
  imports Pulse_Format
begin

text \<open>
  The device model and the buffer arithmetic of \<open>crates/oxisound-pulse/src/model.rs\<close>: which
  endpoints are devices, the period, the buffer attributes sent to the server, the size of the ring
  and the limits of the protocol.
\<close>

subsection \<open>Constants\<close>

definition DEFAULT_PERIOD_FRAMES :: "32 word" where "DEFAULT_PERIOD_FRAMES = 1024"
definition MIN_PERIOD_FRAMES :: "32 word" where "MIN_PERIOD_FRAMES = 32"
definition MAX_PERIOD_FRAMES :: "32 word" where "MAX_PERIOD_FRAMES = 65536"
definition PLAYBACK_TARGET_PERIODS :: "32 word" where "PLAYBACK_TARGET_PERIODS = 4"
definition PLAYBACK_MAX_PERIODS :: "32 word" where "PLAYBACK_MAX_PERIODS = 8"
definition DEFAULT_RING_CAPACITY_SECS :: rat where "DEFAULT_RING_CAPACITY_SECS = 2"
definition PULSE_MAX_CHANNELS :: "16 word" where "PULSE_MAX_CHANNELS = 32"
definition PULSE_MAX_SAMPLE_RATE :: "32 word" where "PULSE_MAX_SAMPLE_RATE = 48000 * 16"

lemmas pulse_constants = DEFAULT_PERIOD_FRAMES_def MIN_PERIOD_FRAMES_def MAX_PERIOD_FRAMES_def
  PLAYBACK_TARGET_PERIODS_def PLAYBACK_MAX_PERIODS_def DEFAULT_RING_CAPACITY_SECS_def
  PULSE_MAX_CHANNELS_def PULSE_MAX_SAMPLE_RATE_def

subsection \<open>Endpoints\<close>

datatype pulse_role = Sink | Source

definition role_is_output :: "pulse_role \<Rightarrow> bool" where "role_is_output r \<longleftrightarrow> r = Sink"
definition role_is_input :: "pulse_role \<Rightarrow> bool" where "role_is_input r \<longleftrightarrow> r = Source"

record pulse_descriptor =
  pd_name :: rstring
  pd_description :: "rstring option"
  pd_index :: "32 word"
  pd_role :: pulse_role
  pd_is_monitor :: bool
  pd_sample_rate :: "32 word"
  pd_channels :: byte
  pd_format :: "pulse_format option"
  pd_is_default :: bool

definition to_device_info :: "pulse_descriptor \<Rightarrow> device_info option" where
  "to_device_info d =
     (if pd_channels d = 0 \<or> pd_sample_rate d = 0 then None
      else
        (let caps = \<lparr>min_buffer_size = Some MIN_PERIOD_FRAMES, max_buffer_size = Some MAX_PERIOD_FRAMES,
               supported_formats = (case pd_format d of Some f \<Rightarrow> [to_core f] | None \<Rightarrow> []),
               exclusive_mode = False\<rparr>;
             builder = set_capabilities caps (set_channel_counts [ucast (pd_channels d)]
               (set_sample_rates [pd_sample_rate d] (device_builder (pd_name d))));
             builder = (case pd_role d of Sink \<Rightarrow> set_output True builder | Source \<Rightarrow> set_input True builder);
             builder = (if pd_is_default d then default_device builder else builder)
         in Some (build_device builder)))"

fun map_descriptors :: "pulse_descriptor list \<Rightarrow> device_info list" where
  "map_descriptors [] = []"
| "map_descriptors (d # ds) =
     (case to_device_info d of Some i \<Rightarrow> i # map_descriptors ds | None \<Rightarrow> map_descriptors ds)"

subsection \<open>Buffers\<close>

record pulse_attrs =
  max_length :: "32 word"
  target_length :: "32 word"
  pre_buffering :: "32 word"
  minimum_request_length :: "32 word"
  fragment_size :: "32 word"

definition period_frames :: "stream_config \<Rightarrow> 32 word" where
  "period_frames config =
     (let n = (case buffer_size config of Some n \<Rightarrow> n | None \<Rightarrow> DEFAULT_PERIOD_FRAMES)
      in max MIN_PERIOD_FRAMES (min MAX_PERIOD_FRAMES n))"

definition period_bytes :: "32 word \<Rightarrow> 16 word \<Rightarrow> pulse_format \<Rightarrow> 32 word" where
  "period_bytes period ch fmt =
     (let fs = word_of_nat (frame_size fmt ch) in max (saturating_mul period fs) fs)"

definition playback_buffer_attrs :: "32 word \<Rightarrow> 16 word \<Rightarrow> pulse_format \<Rightarrow> pulse_attrs" where
  "playback_buffer_attrs period ch fmt =
     (let pb = period_bytes period ch fmt
      in \<lparr>max_length = saturating_mul pb PLAYBACK_MAX_PERIODS,
          target_length = saturating_mul pb PLAYBACK_TARGET_PERIODS,
          pre_buffering = pb, minimum_request_length = pb, fragment_size = - 1\<rparr>)"

definition record_buffer_attrs :: "32 word \<Rightarrow> 16 word \<Rightarrow> pulse_format \<Rightarrow> pulse_attrs" where
  "record_buffer_attrs period ch fmt =
     (let pb = period_bytes period ch fmt
      in \<lparr>max_length = saturating_mul pb PLAYBACK_MAX_PERIODS,
          target_length = - 1, pre_buffering = - 1, minimum_request_length = - 1, fragment_size = pb\<rparr>)"

text \<open>The requested seconds if they are a positive number; \<open>um\<close> is \<open>usize::MAX\<close>.\<close>

definition capacity_secs :: "stream_config \<Rightarrow> rat" where
  "capacity_secs config =
     (case buffer_capacity_secs config of
        None \<Rightarrow> DEFAULT_RING_CAPACITY_SECS
      | Some s \<Rightarrow> (case val32 s of
            Finite q \<Rightarrow> if 0 < q then q else DEFAULT_RING_CAPACITY_SECS
          | _ \<Rightarrow> DEFAULT_RING_CAPACITY_SECS))"

definition ring_capacity_bytes :: "nat \<Rightarrow> stream_config \<Rightarrow> pulse_format \<Rightarrow> nat" where
  "ring_capacity_bytes um config fmt =
     (let fs = frame_size fmt (channels config);
          product = fl64 (of_nat (unat (sample_rate config)) * capacity_secs config);
          frames = nat (cast_int 0 (int um) (Finite (max 0 (of_int \<lceil>product\<rceil>))));
          least = unat (period_frames config) * unat PLAYBACK_MAX_PERIODS
      in min (max frames least * fs) um)"

definition whole_samples :: "nat \<Rightarrow> pulse_format \<Rightarrow> nat" where
  "whole_samples bytes fmt = (let width = bytes_per_sample fmt in bytes - bytes mod width)"

subsection \<open>Validation and prediction\<close>

definition validate_stream_config :: "stream_config \<Rightarrow> (unit, oxi_error) result" where
  "validate_stream_config config =
     (if channels config = 0 \<or> channels config > PULSE_MAX_CHANNELS
      then Err (UnsupportedConfig [Lit ''channel count '', Num (unat (channels config)),
             Lit '' is outside the PulseAudio range 1..='', Num (unat PULSE_MAX_CHANNELS)])
      else if sample_rate config = 0 \<or> sample_rate config > PULSE_MAX_SAMPLE_RATE
      then Err (UnsupportedConfig [Lit ''sample rate '', Num (unat (sample_rate config)),
             Lit '' Hz is outside the PulseAudio range 1..='', Num (unat PULSE_MAX_SAMPLE_RATE), Lit '' Hz''])
      else Ok ())"

definition predict_negotiated :: "stream_config \<Rightarrow> pulse_format option \<Rightarrow> (negotiated_config, oxi_error) result"
where
  "predict_negotiated config native =
     and_then (negotiate_format (sample_format_opt config) (preferred_formats config) native) (\<lambda>fmt.
       Ok \<lparr>n_sample_rate = sample_rate config, n_channels = channels config,
           n_buffer_size = period_frames config, n_sample_format = to_core fmt\<rparr>)"

subsection \<open>Lemmas\<close>

lemma unat_period_frames: "32 \<le> unat (period_frames config) \<and> unat (period_frames config) \<le> 65536"
  by (auto simp: period_frames_def Let_def pulse_constants max_def min_def word_le_nat_alt not_le
      split: option.splits)

lemma validate_ok_iff:
  "validate_stream_config config = Ok () \<longleftrightarrow>
     1 \<le> unat (channels config) \<and> unat (channels config) \<le> 32 \<and>
     1 \<le> unat (sample_rate config) \<and> unat (sample_rate config) \<le> 768000"
  by (auto simp: validate_stream_config_def pulse_constants word_less_nat_alt not_less Suc_le_eq unat_gt_0)

lemma validate_no_panic [panic_free]: "validate_stream_config config \<noteq> Panic"
  by (simp add: validate_stream_config_def)

lemma frame_size_le:
  assumes "unat ch \<le> 32"
  shows "frame_size fmt ch \<le> 128"
  using assms by (cases fmt) (auto simp: frame_size_def Let_def)

text \<open>Within the limits of the protocol no product saturates.\<close>

lemma unat_period_bytes:
  assumes "unat ch \<le> 32" and "0 < unat period" and "unat period \<le> 65536"
  shows "unat (period_bytes period ch fmt) = unat period * frame_size fmt ch"
proof -
  have fs: "frame_size fmt ch \<le> 128" by (rule frame_size_le [OF assms(1)])
  then have u: "unat (word_of_nat (frame_size fmt ch) :: 32 word) = frame_size fmt ch" by simp
  have "unat period * frame_size fmt ch \<le> 65536 * 128"
    using assms(3) fs by (rule mult_le_mono)
  then have m: "unat (saturating_mul period (word_of_nat (frame_size fmt ch))) = unat period * frame_size fmt ch"
    by (simp add: unat_saturating_mul u)
  have "frame_size fmt ch \<le> unat period * frame_size fmt ch" using assms(2) by simp
  then show ?thesis
    by (simp add: period_bytes_def Let_def max_def word_le_nat_alt m u)
qed

lemma unat_periods:
  assumes "unat pb \<le> 2 ^ 23" and "unat n \<le> 8"
  shows "unat (saturating_mul pb n :: 32 word) = unat pb * unat n"
proof -
  have "unat pb * unat n \<le> 2 ^ 23 * 8" using assms by (rule mult_le_mono)
  then show ?thesis by (simp add: unat_saturating_mul)
qed

lemma ring_capacity_ge:
  "min (unat (period_frames config) * 8 * frame_size fmt (channels config)) um
     \<le> ring_capacity_bytes um config fmt"
proof -
  have eight: "unat PLAYBACK_MAX_PERIODS = 8" by (simp add: PLAYBACK_MAX_PERIODS_def)
  show ?thesis
    unfolding ring_capacity_bytes_def Let_def eight by (intro min.mono mult_le_mono max.cobounded2 le_refl)
qed

lemma whole_samples_le: "whole_samples n fmt \<le> n"
  by (simp add: whole_samples_def Let_def)

lemma whole_samples_dvd: "bytes_per_sample fmt dvd whole_samples n fmt"
  by (simp add: whole_samples_def Let_def minus_mod_eq_mult_div)

lemma whole_samples_alt: "whole_samples n fmt = n div bytes_per_sample fmt * bytes_per_sample fmt"
  by (simp add: whole_samples_def Let_def minus_mod_eq_div_mult)

lemma to_device_info_Some:
  "to_device_info d = Some i \<Longrightarrow>
     dev_name i = pd_name d \<and> is_output i = role_is_output (pd_role d) \<and> is_input i = role_is_input (pd_role d) \<and>
     is_default i = pd_is_default d \<and> sample_rates i = [pd_sample_rate d] \<and>
     channel_counts i = [ucast (pd_channels d)] \<and> pd_channels d \<noteq> 0 \<and> pd_sample_rate d \<noteq> 0"
  by (auto simp: to_device_info_def Let_def device_builder_def device_info_default_def set_capabilities_def
      set_channel_counts_def set_sample_rates_def set_output_def set_input_def default_device_def
      build_device_def role_is_output_def role_is_input_def split: if_splits pulse_role.splits)

lemma map_descriptors_alt:
  "map_descriptors ds = List.map_filter to_device_info ds"
  by (induction ds) (auto simp: map_filter_simps split: option.splits)

end
