(* ===== verification/Pulse_Stream.thy ===== *)
theory Pulse_Stream
  imports Pulse_Conn Pulse_Model Ring "HOL-Library.Sublist"
begin

text \<open>
  The streams of \<open>crates/oxisound-pulse/src/linux/stream.rs\<close>. A handle and its adapter in the reactor
  share a queue of bytes, a slot for a waker, counters and flags; the state records hold all of
  them, and each method and each call of the reactor is a function on the state. Wakers are numbers
  and \<open>po_woken\<close> lists the wakers that were woken. The interleavings inside a call are in theory
  \<open>Pulse_Wakeup\<close>.
\<close>

subsection \<open>Sample specifications\<close>

text \<open>
  The formats of the protocol, of which the code knows five (the others carry their name), and its
  sample specification.
\<close>

datatype wire_format = WireU8 | WireS16Le | WireS24Le | WireS32Le | WireFloat32Le | WireOther rstring

record sample_spec =
  ss_format :: wire_format
  ss_channels :: byte
  ss_rate :: "32 word"

fun map_wire_format :: "wire_format \<Rightarrow> pulse_format option" where
  "map_wire_format WireU8 = Some PulseU8"
| "map_wire_format WireS16Le = Some S16Le"
| "map_wire_format WireS24Le = Some S24Le"
| "map_wire_format WireS32Le = Some S32Le"
| "map_wire_format WireFloat32Le = Some Float32Le"
| "map_wire_format (WireOther _) = None"

fun to_wire_format :: "pulse_format \<Rightarrow> wire_format" where
  "to_wire_format PulseU8 = WireU8"
| "to_wire_format S16Le = WireS16Le"
| "to_wire_format S24Le = WireS24Le"
| "to_wire_format S32Le = WireS32Le"
| "to_wire_format Float32Le = WireFloat32Le"

fun debug_wire :: "wire_format \<Rightarrow> rstring" where
  "debug_wire WireU8 = str_lit ''U8''"
| "debug_wire WireS16Le = str_lit ''S16Le''"
| "debug_wire WireS24Le = str_lit ''S24Le''"
| "debug_wire WireS32Le = str_lit ''S32Le''"
| "debug_wire WireFloat32Le = str_lit ''Float32Le''"
| "debug_wire (WireOther nm) = nm"

definition verify_negotiated_spec :: "string \<Rightarrow> sample_spec \<Rightarrow> pulse_format \<Rightarrow> 16 word \<Rightarrow> 32 word
    \<Rightarrow> (unit, oxi_error) result" where
  "verify_negotiated_spec direction actual fmt ch rate =
     (if ss_format actual = to_wire_format fmt \<and> ucast (ss_channels actual) = ch \<and> ss_rate actual = rate
      then Ok ()
      else Err (FormatMismatch [Lit ''the PulseAudio server created the '', Lit direction, Lit '' stream as '',
        Str (debug_wire (ss_format actual)), Lit '' '', Num (unat (ss_channels actual)), Lit '' ch @ '', Num (unat (ss_rate actual)), Lit '' Hz, but '',
        Str (debug_wire (to_wire_format fmt)), Lit '' '', Num (unat ch), Lit '' ch @ '', Num (unat rate), Lit '' Hz was requested; oxisound-pulse does not convert between the two'']))"

subsection \<open>Channel maps and names\<close>

datatype pa_position = PaFrontLeft | PaFrontRight | PaFrontCenter | PaLfe | PaRearLeft | PaRearRight
  | PaSideLeft | PaSideRight | PaAux nat

datatype channel_map = Mono | Stereo | Positions "pa_position list"

definition SURROUND :: "pa_position list" where
  "SURROUND = [PaFrontLeft, PaFrontRight, PaFrontCenter, PaLfe, PaRearLeft, PaRearRight, PaSideLeft,
     PaSideRight]"

text \<open>The library accepts at most 32 positions, and \<open>ChannelMap::new\<close> panics for more.\<close>

definition channel_map_for :: "16 word \<Rightarrow> (channel_map, oxi_error) result" where
  "channel_map_for ch =
     (if ch = 0 \<or> ch = 1 then Ok Mono
      else if ch = 2 then Ok Stereo
      else
        (let n = min (unat ch) 32;
             ps = map (\<lambda>i. case get SURROUND i of Some p \<Rightarrow> p | None \<Rightarrow> PaAux (min (i - length SURROUND) 23)) [0..<n]
         in if length ps \<le> 32 then Ok (Positions ps) else Panic))"

definition cstring_or_default :: "rstring \<Rightarrow> (rstring, oxi_error) result" where
  "cstring_or_default nm =
     (if 0 \<in> set nm then Err (Device [Lit ''device name '', Str nm, Lit '' contains an interior NUL byte''])
      else Ok nm)"

subsection \<open>Playback\<close>

record 'r pulse_output =
  po_ring :: 'r
  po_waker :: "nat option"
  po_woken :: "nat list"
  po_underruns :: "64 word"
  po_bytes_sent :: "64 word"
  po_starved :: bool
  po_disconnected :: bool
  po_discard :: nat
  po_format :: pulse_format
  po_channels :: "16 word"
  po_frame_size :: nat
  po_capacity :: nat
  po_negotiated :: negotiated_config
  po_attrs :: pulse_attrs

text \<open>\<open>take_waker\<close> followed by \<open>wake\<close>, and \<open>store_waker\<close>, which keeps a waker of the same task.\<close>

definition wake_reactor :: "'r pulse_output \<Rightarrow> 'r pulse_output" where
  "wake_reactor s =
     (case po_waker s of
        Some w \<Rightarrow> s\<lparr>po_waker := None, po_woken := po_woken s @ [w]\<rparr>
      | None \<Rightarrow> s)"

definition store_waker :: "nat \<Rightarrow> 'r pulse_output \<Rightarrow> 'r pulse_output" where
  "store_waker w s = (if po_waker s = Some w then s else s\<lparr>po_waker := Some w\<rparr>)"

definition serve :: "('r, byte) ring_ops \<Rightarrow> nat \<Rightarrow> 'r pulse_output \<Rightarrow> byte list option \<times> 'r pulse_output" where
  "serve R n s =
     (case pop_slice R n (po_ring s) of (bytes, r) \<Rightarrow>
        if length bytes = 0 then (None, s\<lparr>po_ring := r\<rparr>)
        else (Some bytes, s\<lparr>po_ring := r, po_starved := False,
               po_bytes_sent := po_bytes_sent s + word_of_nat (length bytes)\<rparr>))"

definition take_discard :: "('r, byte) ring_ops \<Rightarrow> 'r pulse_output \<Rightarrow> 'r pulse_output" where
  "take_discard R s =
     (let discard = po_discard s; s = s\<lparr>po_discard := 0\<rparr>
      in if discard > 0 then s\<lparr>po_ring := snd (skip_front R discard (po_ring s))\<rparr> else s)"

definition note_starved :: "'r pulse_output \<Rightarrow> 'r pulse_output" where
  "note_starved s =
     (if \<not> po_starved s then s\<lparr>po_starved := True, po_underruns := po_underruns s + 1\<rparr> else s)"

definition poll_read :: "('r, byte) ring_ops \<Rightarrow> nat \<Rightarrow> nat \<Rightarrow> 'r pulse_output
    \<Rightarrow> byte list poll \<times> 'r pulse_output" where
  "poll_read R w n s =
     (case serve R n (take_discard R s) of
        (Some bytes, s) \<Rightarrow> (Ready bytes, s)
      | (None, s) \<Rightarrow>
          (case serve R n (store_waker w s) of
             (Some bytes, s) \<Rightarrow> (Ready bytes, s\<lparr>po_waker := None\<rparr>)
           | (None, s) \<Rightarrow> (Pending, note_starved s)))"

text \<open>The reactor drops the source.\<close>

definition drop_source :: "'r pulse_output \<Rightarrow> 'r pulse_output" where
  "drop_source s = wake_reactor (s\<lparr>po_disconnected := True\<rparr>)"

definition pulse_write :: "('r, byte) ring_ops \<Rightarrow> f32 list \<Rightarrow> 'r pulse_output
    \<Rightarrow> (unit, oxi_error) result \<times> 'r pulse_output" where
  "pulse_write R samples s =
     (if po_disconnected s then (Err (Disconnected [Lit ''PulseAudio playback stream disconnected'']), s)
      else if samples = [] then (Ok (), s)
      else
        (let needed = length samples * bytes_per_sample (po_format s)
         in if vacant_len R (po_ring s) < needed
            then (Err (Overrun [Lit ''output ring buffer full: '', Num (vacant_len R (po_ring s)),
                    Lit '' free, '', Num needed, Lit '' requested'']), s)
            else
              (let scratch = encode_f32 (po_format s) samples []
               in case push_slice R scratch (po_ring s) of (written, r) \<Rightarrow>
                    (let s = s\<lparr>po_ring := r\<rparr>
                     in if written < length scratch
                        then (Err (Overrun [Lit ''partial write: only '', Num written, Lit ''/'',
                                Num (length scratch), Lit '' bytes written'']), s)
                        else (Ok (), wake_reactor s)))))"

definition pulse_latency_frames :: "('r, byte) ring_ops \<Rightarrow> 'r pulse_output \<Rightarrow> nat" where
  "pulse_latency_frames R s = occupied_len R (po_ring s) div max (po_frame_size s) 1"

definition pulse_output_stats :: "('r, byte) ring_ops \<Rightarrow> 'r pulse_output \<Rightarrow> stream_stats" where
  "pulse_output_stats R s =
     (let fs = word_of_nat (max (po_frame_size s) 1)
      in \<lparr>frames_processed = po_bytes_sent s div fs, underruns = po_underruns s, overruns = 0,
          latency_frames = word_of_nat (pulse_latency_frames R s), cpu_load_percent = 0\<rparr>)"

text \<open>The methods that talk to the server take its answer as an argument.\<close>

definition pulse_discard_buffered :: "('r, byte) ring_ops \<Rightarrow> unit reply \<Rightarrow> 'r pulse_output
    \<Rightarrow> (unit, oxi_error) result \<times> 'r pulse_output" where
  "pulse_discard_buffered R flushed s =
     (round_trip ''FLUSH_PLAYBACK_STREAM'' PULSE_OP_TIMEOUT flushed,
      wake_reactor (s\<lparr>po_discard := occupied_len R (po_ring s)\<rparr>))"

definition pulse_pause :: "unit reply \<Rightarrow> (unit, oxi_error) result" where
  "pulse_pause corked = round_trip ''CORK_PLAYBACK_STREAM'' PULSE_OP_TIMEOUT corked"

text \<open>A round trip that misses its deadline returns before the wake-up.\<close>

definition pulse_resume :: "unit reply \<Rightarrow> 'r pulse_output \<Rightarrow> (unit, oxi_error) result \<times> 'r pulse_output" where
  "pulse_resume uncorked s =
     (round_trip ''UNCORK_PLAYBACK_STREAM'' PULSE_OP_TIMEOUT uncorked,
      if uncorked = None then s else wake_reactor s)"

text \<open>
  \<open>flush\<close>: between its polls the reactor and the clock go on, so the state at the i-th check and the
  time that has passed then are arguments. The number of wake-ups is the number of further checks.
\<close>

fun flush_loop :: "(nat \<Rightarrow> nat) \<Rightarrow> (nat \<Rightarrow> bool) \<Rightarrow> (nat \<Rightarrow> nat) \<Rightarrow> nat \<Rightarrow> nat \<Rightarrow> (unit, oxi_error) result option"
where
  "flush_loop queued lost elapsed 0 i = None"
| "flush_loop queued lost elapsed (Suc fuel) i =
     (if queued i = 0 then Some (Ok ())
      else if lost i then Some (Err (Disconnected [Lit ''PulseAudio stream disconnected during flush'']))
      else if elapsed i \<ge> PULSE_FLUSH_TIMEOUT
      then Some (Err (Timeout [Lit ''flush timed out after '', Num PULSE_FLUSH_TIMEOUT, Lit '' with '',
             Num (queued i), Lit '' bytes still queued'']))
      else flush_loop queued lost elapsed fuel (Suc i))"

definition pulse_drain :: "(unit, oxi_error) result \<Rightarrow> unit reply \<Rightarrow> (unit, oxi_error) result" where
  "pulse_drain flushed drained =
     and_then flushed (\<lambda>_. round_trip ''DRAIN_PLAYBACK_STREAM'' PULSE_DRAIN_TIMEOUT drained)"

text \<open>
  \<open>open\<close>: \<open>create\<close> is the server's answer, the specification it created the stream with. \<open>um\<close> is
  \<open>usize::MAX\<close>.
\<close>

definition pulse_open_output :: "('r, byte) ring_ops \<Rightarrow> nat \<Rightarrow> (sample_spec \<Rightarrow> channel_map \<Rightarrow> rstring \<Rightarrow> pulse_attrs
    \<Rightarrow> sample_spec reply) \<Rightarrow> pulse_descriptor \<Rightarrow> stream_config \<Rightarrow> ('r pulse_output, oxi_error) result" where
  "pulse_open_output R um create dev config =
     and_then (validate_stream_config config) (\<lambda>_.
     and_then (negotiate_format (sample_format_opt config) (preferred_formats config) (pd_format dev)) (\<lambda>fmt.
       (let ch = channels config;
            period = period_frames config;
            attrs = playback_buffer_attrs period ch fmt;
            capacity = ring_capacity_bytes um config fmt
        in and_then (heap_rb R um 1 capacity) (\<lambda>ring.
           and_then (channel_map_for ch) (\<lambda>cm.
           and_then (cstring_or_default (pd_name dev)) (\<lambda>sink.
           and_then (round_trip ''CREATE_PLAYBACK_STREAM'' PULSE_OP_TIMEOUT
              (create \<lparr>ss_format = to_wire_format fmt, ss_channels = ucast ch, ss_rate = sample_rate config\<rparr>
                 cm sink attrs)) (\<lambda>actual.
           and_then (verify_negotiated_spec ''playback'' actual fmt ch (sample_rate config)) (\<lambda>_.
             Ok \<lparr>po_ring = ring, po_waker = None, po_woken = [], po_underruns = 0,
                 po_bytes_sent = 0, po_starved = True, po_disconnected = False, po_discard = 0,
                 po_format = fmt, po_channels = ch, po_frame_size = frame_size fmt ch, po_capacity = capacity,
                 po_negotiated = \<lparr>n_sample_rate = ss_rate actual, n_channels = ucast (ss_channels actual),
                   n_buffer_size = period, n_sample_format = to_core fmt\<rparr>,
                 po_attrs = attrs\<rparr>))))))))"

subsection \<open>Capture\<close>

record 'r pulse_input =
  pi_ring :: 'r
  pi_overruns :: "64 word"
  pi_bytes_received :: "64 word"
  pi_disconnected :: bool
  pi_format :: pulse_format
  pi_channels :: "16 word"
  pi_frame_size :: nat
  pi_capacity :: nat
  pi_negotiated :: negotiated_config
  pi_attrs :: pulse_attrs

text \<open>The reactor delivers a chunk, and drops the sink.\<close>

definition sink_write :: "('r, byte) ring_ops \<Rightarrow> byte list \<Rightarrow> 'r pulse_input \<Rightarrow> 'r pulse_input" where
  "sink_write R bytes s =
     (case push_slice R bytes (pi_ring s) of (n, r) \<Rightarrow>
        (let s = s\<lparr>pi_ring := r\<rparr>;
             s = (if n < length bytes then s\<lparr>pi_overruns := pi_overruns s + 1\<rparr> else s)
         in s\<lparr>pi_bytes_received := pi_bytes_received s + word_of_nat n\<rparr>))"

definition drop_sink :: "'r pulse_input \<Rightarrow> 'r pulse_input" where
  "drop_sink s = s\<lparr>pi_disconnected := True\<rparr>"

definition pulse_read :: "('r, byte) ring_ops \<Rightarrow> f32 list \<Rightarrow> 'r pulse_input
    \<Rightarrow> (nat, oxi_error) result \<times> f32 list \<times> 'r pulse_input" where
  "pulse_read R samples s =
     (if pi_disconnected s then (Err (Disconnected [Lit ''PulseAudio capture stream disconnected'']), samples, s)
      else if samples = [] then (Ok 0, samples, s)
      else
        (let wanted = length samples * bytes_per_sample (pi_format s);
             n = whole_samples (min (occupied_len R (pi_ring s)) wanted) (pi_format s)
         in if n = 0 then (Ok 0, samples, s)
            else
              (case pop_slice R n (pi_ring s) of (scratch, r) \<Rightarrow>
                 (let usable = whole_samples (length scratch) (pi_format s);
                      (cnt, samples') = decode_to_f32 (pi_format s) (take usable scratch) samples
                  in (Ok cnt, samples', s\<lparr>pi_ring := r\<rparr>)))))"

definition pulse_input_latency_frames :: "('r, byte) ring_ops \<Rightarrow> 'r pulse_input \<Rightarrow> nat" where
  "pulse_input_latency_frames R s = occupied_len R (pi_ring s) div max (pi_frame_size s) 1"

definition pulse_input_stats :: "('r, byte) ring_ops \<Rightarrow> 'r pulse_input \<Rightarrow> stream_stats" where
  "pulse_input_stats R s =
     (let fs = word_of_nat (max (pi_frame_size s) 1)
      in \<lparr>frames_processed = pi_bytes_received s div fs, underruns = 0, overruns = pi_overruns s,
          latency_frames = word_of_nat (pulse_input_latency_frames R s), cpu_load_percent = 0\<rparr>)"

definition pulse_input_discard :: "unit reply \<Rightarrow> (unit, oxi_error) result" where
  "pulse_input_discard flushed = round_trip ''FLUSH_RECORD_STREAM'' PULSE_OP_TIMEOUT flushed"

definition pulse_input_pause :: "unit reply \<Rightarrow> (unit, oxi_error) result" where
  "pulse_input_pause corked = round_trip ''CORK_RECORD_STREAM'' PULSE_OP_TIMEOUT corked"

definition pulse_input_resume :: "unit reply \<Rightarrow> (unit, oxi_error) result" where
  "pulse_input_resume uncorked = round_trip ''UNCORK_RECORD_STREAM'' PULSE_OP_TIMEOUT uncorked"

definition pulse_open_input :: "('r, byte) ring_ops \<Rightarrow> nat \<Rightarrow> (sample_spec \<Rightarrow> channel_map \<Rightarrow> rstring \<Rightarrow> pulse_attrs
    \<Rightarrow> sample_spec reply) \<Rightarrow> pulse_descriptor \<Rightarrow> stream_config \<Rightarrow> ('r pulse_input, oxi_error) result" where
  "pulse_open_input R um create dev config =
     and_then (validate_stream_config config) (\<lambda>_.
     and_then (negotiate_format (sample_format_opt config) (preferred_formats config) (pd_format dev)) (\<lambda>fmt.
       (let ch = channels config;
            period = period_frames config;
            attrs = record_buffer_attrs period ch fmt;
            capacity = ring_capacity_bytes um config fmt
        in and_then (heap_rb R um 1 capacity) (\<lambda>ring.
           and_then (channel_map_for ch) (\<lambda>cm.
           and_then (cstring_or_default (pd_name dev)) (\<lambda>source.
           and_then (round_trip ''CREATE_RECORD_STREAM'' PULSE_OP_TIMEOUT
              (create \<lparr>ss_format = to_wire_format fmt, ss_channels = ucast ch, ss_rate = sample_rate config\<rparr>
                 cm source attrs)) (\<lambda>actual.
           and_then (verify_negotiated_spec ''record'' actual fmt ch (sample_rate config)) (\<lambda>_.
             Ok \<lparr>pi_ring = ring, pi_overruns = 0, pi_bytes_received = 0,
                 pi_disconnected = False, pi_format = fmt, pi_channels = ch, pi_frame_size = frame_size fmt ch,
                 pi_capacity = capacity,
                 pi_negotiated = \<lparr>n_sample_rate = ss_rate actual, n_channels = ucast (ss_channels actual),
                   n_buffer_size = period, n_sample_format = to_core fmt\<rparr>,
                 pi_attrs = attrs\<rparr>))))))))"

subsection \<open>Duplex\<close>

record 'r pulse_duplex =
  px_output :: "'r pulse_output"
  px_input :: "'r pulse_input"

definition pulse_roundtrip_latency :: "('r, byte) ring_ops \<Rightarrow> 'r pulse_duplex \<Rightarrow> nat" where
  "pulse_roundtrip_latency R d =
     pulse_latency_frames R (px_output d) + pulse_input_latency_frames R (px_input d)"

definition pulse_duplex_disconnected :: "'r pulse_duplex \<Rightarrow> bool" where
  "pulse_duplex_disconnected d \<longleftrightarrow> po_disconnected (px_output d) \<or> pi_disconnected (px_input d)"

definition pulse_duplex_write :: "('r, byte) ring_ops \<Rightarrow> f32 list \<Rightarrow> 'r pulse_duplex
    \<Rightarrow> (unit, oxi_error) result \<times> 'r pulse_duplex" where
  "pulse_duplex_write R out d =
     (case pulse_write R out (px_output d) of (res, s) \<Rightarrow> (res, d\<lparr>px_output := s\<rparr>))"

definition pulse_duplex_read :: "('r, byte) ring_ops \<Rightarrow> f32 list \<Rightarrow> 'r pulse_duplex
    \<Rightarrow> (nat, oxi_error) result \<times> f32 list \<times> 'r pulse_duplex" where
  "pulse_duplex_read R inp d =
     (case pulse_read R inp (px_input d) of (res, out, s) \<Rightarrow> (res, out, d\<lparr>px_input := s\<rparr>))"

definition pulse_duplex_stats :: "('r, byte) ring_ops \<Rightarrow> 'r pulse_duplex \<Rightarrow> stream_stats" where
  "pulse_duplex_stats R d =
     (let out = pulse_output_stats R (px_output d); inp = pulse_input_stats R (px_input d)
      in \<lparr>frames_processed = frames_processed out, underruns = underruns out, overruns = overruns inp,
          latency_frames = word_of_nat (pulse_roundtrip_latency R d), cpu_load_percent = 0\<rparr>)"

subsection \<open>Runs\<close>

datatype play_step = PlayWrite "f32 list" | PlayPoll nat nat | PlayDiscard "unit reply" | PlayResume "unit reply" | PlayDrop

text \<open>What the reactor got, poll by poll, and the state that a run leaves.\<close>

fun run_play :: "('r, byte) ring_ops \<Rightarrow> play_step list \<Rightarrow> 'r pulse_output \<Rightarrow> byte list poll list \<times> 'r pulse_output"
where
  "run_play R [] s = ([], s)"
| "run_play R (PlayWrite xs # es) s = run_play R es (snd (pulse_write R xs s))"
| "run_play R (PlayPoll w n # es) s =
     (let (p, s') = poll_read R w n s; (ps, s'') = run_play R es s' in (p # ps, s''))"
| "run_play R (PlayDiscard rep # es) s = run_play R es (snd (pulse_discard_buffered R rep s))"
| "run_play R (PlayResume rep # es) s = run_play R es (snd (pulse_resume rep s))"
| "run_play R (PlayDrop # es) s = run_play R es (drop_source s)"

datatype capture_step = Chunk "byte list" | ReadInto "f32 list" | SinkDropped

fun run_capture :: "('r, byte) ring_ops \<Rightarrow> capture_step list \<Rightarrow> 'r pulse_input \<Rightarrow> f32 list \<times> 'r pulse_input" where
  "run_capture R [] s = ([], s)"
| "run_capture R (Chunk bytes # es) s = run_capture R es (sink_write R bytes s)"
| "run_capture R (ReadInto buf # es) s =
     (let (res, buf', s') = pulse_read R buf s; (xs, s'') = run_capture R es s'
      in (case res of Ok n \<Rightarrow> take n buf' @ xs | _ \<Rightarrow> xs, s''))"
| "run_capture R (SinkDropped # es) s = run_capture R es (drop_sink s)"

end
