(* ===== verification/Pulse_Runs.thy ===== *)
theory Pulse_Runs
  imports Pulse_Stream
begin

text \<open>
  What runs of the PulseAudio streams do: playback refines a queue of bytes that a discard empties,
  capture delivers the samples of the accepted bytes in order, \<open>flush\<close> ends, and an open stream has
  the configuration that was predicted.
\<close>

subsection \<open>Playback as a queue\<close>

datatype abs_step = AbsWrite "byte list" | AbsPoll nat | AbsDiscard

fun abs_play :: "abs_step list \<Rightarrow> byte list \<Rightarrow> byte list poll list \<times> byte list" where
  "abs_play [] q = ([], q)"
| "abs_play (AbsWrite bytes # es) q = abs_play es (q @ bytes)"
| "abs_play (AbsPoll n # es) q =
     (let (ps, q') = abs_play es (drop n q)
      in ((if take n q = [] then Pending else Ready (take n q)) # ps, q'))"
| "abs_play (AbsDiscard # es) q = abs_play es []"

text \<open>A step of the stream as a step of the queue: a write that fails is none.\<close>

fun abs_of :: "('r, byte) ring_ops \<Rightarrow> play_step list \<Rightarrow> 'r pulse_output \<Rightarrow> abs_step list" where
  "abs_of R [] s = []"
| "abs_of R (PlayWrite xs # es) s =
     (case pulse_write R xs s of (res, s') \<Rightarrow>
        (if res = Ok () then [AbsWrite (encode_f32 (po_format s) xs [])] else []) @ abs_of R es s')"
| "abs_of R (PlayPoll w n # es) s = AbsPoll n # abs_of R es (snd (poll_read R w n s))"
| "abs_of R (PlayDiscard rep # es) s = AbsDiscard # abs_of R es (snd (pulse_discard_buffered R rep s))"
| "abs_of R (PlayResume rep # es) s = abs_of R es (snd (pulse_resume rep s))"
| "abs_of R (PlayDrop # es) s = abs_of R es (drop_source s)"

fun sent_bytes :: "byte list poll list \<Rightarrow> nat" where
  "sent_bytes [] = 0"
| "sent_bytes (Ready bytes # ps) = length bytes + sent_bytes ps"
| "sent_bytes (Pending # ps) = sent_bytes ps"

text \<open>The polls that find nothing after one that found something (or after the start, if not starved).\<close>

fun dry_edges :: "bool \<Rightarrow> byte list poll list \<Rightarrow> nat" where
  "dry_edges dry [] = 0"
| "dry_edges dry (Ready bytes # ps) = dry_edges False ps"
| "dry_edges dry (Pending # ps) = (if dry then 0 else 1) + dry_edges True ps"

definition survivors :: "('r \<Rightarrow> byte list) \<Rightarrow> 'r pulse_output \<Rightarrow> byte list" where
  "survivors contents s = drop (po_discard s) (contents (po_ring s))"

definition discard_ok :: "('r \<Rightarrow> byte list) \<Rightarrow> 'r pulse_output \<Rightarrow> bool" where
  "discard_ok contents s \<longleftrightarrow> po_discard s \<le> length (contents (po_ring s))"

lemma wake_reactor_sel [simp]:
  "po_ring (wake_reactor s) = po_ring s" "po_discard (wake_reactor s) = po_discard s"
  "po_underruns (wake_reactor s) = po_underruns s" "po_bytes_sent (wake_reactor s) = po_bytes_sent s"
  "po_starved (wake_reactor s) = po_starved s" "po_format (wake_reactor s) = po_format s"
  "po_disconnected (wake_reactor s) = po_disconnected s"
  by (simp_all add: wake_reactor_def split: option.splits)

lemma store_waker_sel [simp]:
  "po_ring (store_waker w s) = po_ring s" "po_discard (store_waker w s) = po_discard s"
  "po_underruns (store_waker w s) = po_underruns s" "po_bytes_sent (store_waker w s) = po_bytes_sent s"
  "po_starved (store_waker w s) = po_starved s" "po_format (store_waker w s) = po_format s"
  by (simp_all add: store_waker_def)

lemma note_starved_sel [simp]:
  "po_ring (note_starved s) = po_ring s" "po_discard (note_starved s) = po_discard s"
  "po_bytes_sent (note_starved s) = po_bytes_sent s" "po_starved (note_starved s)"
  "po_underruns (note_starved s) = po_underruns s + (if po_starved s then 0 else 1)"
  "po_format (note_starved s) = po_format s"
  by (simp_all add: note_starved_def)

context ring
begin

lemma skip_contents: "contents (snd (skip_front R n r)) = drop n (contents r)"
  using skip_spec [of n r] by (simp split: prod.splits)

lemma pop_contents: "pop_slice R n r = (xs, r') \<Longrightarrow> xs = take n (contents r) \<and> contents r' = drop n (contents r)"
  using pop_slice_spec [of n r] by simp

end

lemma take_discard_survivors:
  assumes "ring R contents cap"
  shows "contents (po_ring (take_discard R s)) = survivors contents s \<and>
    po_discard (take_discard R s) = 0 \<and> po_starved (take_discard R s) = po_starved s \<and>
    po_underruns (take_discard R s) = po_underruns s \<and> po_bytes_sent (take_discard R s) = po_bytes_sent s \<and>
    po_format (take_discard R s) = po_format s"
  by (simp add: take_discard_def Let_def survivors_def ring.skip_contents [OF assms])

text \<open>A poll takes from the front of what survives, or finds that nothing does.\<close>

lemma serve_spec:
  assumes "ring R contents cap" and "serve R n s = (res, s')"
  shows "contents (po_ring s') = drop n (contents (po_ring s)) \<and> po_discard s' = po_discard s \<and>
    po_format s' = po_format s \<and> po_underruns s' = po_underruns s \<and>
    (if take n (contents (po_ring s)) = []
     then res = None \<and> po_starved s' = po_starved s \<and> po_bytes_sent s' = po_bytes_sent s
     else res = Some (take n (contents (po_ring s))) \<and> \<not> po_starved s' \<and>
       po_bytes_sent s' = po_bytes_sent s + word_of_nat (length (take n (contents (po_ring s)))))"
proof -
  obtain xs r where p: "pop_slice R n (po_ring s) = (xs, r)" by (cases "pop_slice R n (po_ring s)")
  note c = ring.pop_contents [OF assms(1) p]
  have "length xs = 0 \<longleftrightarrow> take n (contents (po_ring s)) = []"
    using c by (simp only: length_0_conv)
  with assms(2) c show ?thesis
    by (auto simp: serve_def p split: if_splits)
qed

lemma poll_read_spec:
  assumes R: "ring R contents cap" and p: "poll_read R w n s = (res, s')"
  shows "survivors contents s' = drop n (survivors contents s) \<and> discard_ok contents s' \<and> po_format s' = po_format s \<and>
    (if take n (survivors contents s) = []
     then res = Pending \<and> po_starved s' \<and> po_bytes_sent s' = po_bytes_sent s \<and>
       po_underruns s' = po_underruns s + (if po_starved s then 0 else 1)
     else res = Ready (take n (survivors contents s)) \<and> \<not> po_starved s' \<and> po_underruns s' = po_underruns s \<and>
       po_bytes_sent s' = po_bytes_sent s + word_of_nat (length (take n (survivors contents s))))"
proof -
  note d = take_discard_survivors [OF R, of s]
  obtain r1 s1 where s1: "serve R n (take_discard R s) = (r1, s1)" by (cases "serve R n (take_discard R s)")
  obtain r2 s2 where s2: "serve R n (store_waker w s1) = (r2, s2)" by (cases "serve R n (store_waker w s1)")
  note f1 = serve_spec [OF R s1] and f2 = serve_spec [OF R s2]
  show ?thesis
  proof (cases "take n (survivors contents s) = []")
    case True
    with f1 d have none: "r1 = None" "contents (po_ring s1) = drop n (survivors contents s)" by auto
    moreover have "take n (contents (po_ring s1)) = []"
      using True none by (cases n) auto
    ultimately show ?thesis
      using p True d f1 f2 by (auto simp: poll_read_def s1 s2 survivors_def discard_ok_def)
  next
    case False
    with f1 d p show ?thesis
      by (auto simp: poll_read_def s1 survivors_def discard_ok_def)
  qed
qed

lemma pulse_write_spec:
  assumes R: "ring R contents cap" and ok: "discard_ok contents s" and w: "pulse_write R xs s = (res, s')"
  shows "survivors contents s' = survivors contents s @ (if res = Ok () then encode_f32 (po_format s) xs [] else []) \<and>
    discard_ok contents s' \<and> po_starved s' = po_starved s \<and> po_bytes_sent s' = po_bytes_sent s \<and>
    po_underruns s' = po_underruns s \<and> po_format s' = po_format s"
proof -
  define bytes where "bytes = encode_f32 (po_format s) xs []"
  obtain k r where p: "push_slice R bytes (po_ring s) = (k, r)" by (cases "push_slice R bytes (po_ring s)")
  have push: "k = min (length bytes) (cap (po_ring s) - length (contents (po_ring s)))"
    "contents r = contents (po_ring s) @ take k bytes"
    using ring.push_slice_spec [OF R, of bytes "po_ring s"] p by auto
  have "vacant_len R (po_ring s) = cap (po_ring s) - length (contents (po_ring s))"
    using ring.vacant_spec [OF R] .
  then show ?thesis
    using w ok push
    by (auto simp: pulse_write_def Let_def p survivors_def discard_ok_def simp flip: bytes_def split: if_splits)
      (simp_all add: bytes_def)
qed

lemma play_refines:
  assumes R: "ring R contents cap"
  shows "discard_ok contents s \<Longrightarrow> run_play R es s = (ps, s') \<Longrightarrow>
    abs_play (abs_of R es s) (survivors contents s) = (ps, survivors contents s') \<and>
    po_bytes_sent s' = po_bytes_sent s + word_of_nat (sent_bytes ps) \<and>
    po_underruns s' = po_underruns s + word_of_nat (dry_edges (po_starved s) ps)"
proof (induction es arbitrary: s ps s')
  case Nil
  then show ?case by simp
next
  case (Cons e es)
  show ?case
  proof (cases e)
    case (PlayWrite xs)
    obtain res t where w: "pulse_write R xs s = (res, t)" by (cases "pulse_write R xs s")
    note spec = pulse_write_spec [OF R Cons.prems(1) w]
    with Cons.prems(2) Cons.IH [of t ps s'] show ?thesis by (auto simp: PlayWrite w split: if_splits)
  next
    case (PlayPoll wk n)
    obtain p t where p: "poll_read R wk n s = (p, t)" by (cases "poll_read R wk n s")
    obtain qs where qs: "run_play R es t = (qs, s')" "ps = p # qs"
      using Cons.prems(2) by (auto simp: PlayPoll p split: prod.splits)
    note spec = poll_read_spec [OF R p]
    from spec Cons.IH [OF _ qs(1)] show ?thesis
      by (auto simp: PlayPoll p qs(2) split: if_splits)
  next
    case (PlayDiscard rep)
    define t where "t = snd (pulse_discard_buffered R rep s)"
    have "survivors contents t = [] \<and> discard_ok contents t \<and> po_starved t = po_starved s \<and>
        po_bytes_sent t = po_bytes_sent s \<and> po_underruns t = po_underruns s"
      using ring.occupied_spec [OF R]
      by (simp add: t_def pulse_discard_buffered_def survivors_def discard_ok_def)
    with Cons.prems(2) Cons.IH [of t ps s'] show ?thesis by (simp add: PlayDiscard flip: t_def)
  next
    case (PlayResume rep)
    define t where "t = snd (pulse_resume rep s)"
    have "survivors contents t = survivors contents s \<and> discard_ok contents t \<and> po_starved t = po_starved s \<and>
        po_bytes_sent t = po_bytes_sent s \<and> po_underruns t = po_underruns s"
      using Cons.prems(1) by (simp add: t_def pulse_resume_def survivors_def discard_ok_def)
    with Cons.prems(2) Cons.IH [of t ps s'] show ?thesis by (simp add: PlayResume flip: t_def)
  next
    case PlayDrop
    have "survivors contents (drop_source s) = survivors contents s \<and> discard_ok contents (drop_source s)"
      using Cons.prems(1) by (simp add: drop_source_def survivors_def discard_ok_def)
    moreover have "po_starved (drop_source s) = po_starved s" "po_bytes_sent (drop_source s) = po_bytes_sent s"
      "po_underruns (drop_source s) = po_underruns s"
      by (simp_all add: drop_source_def)
    ultimately show ?thesis
      using Cons.prems(2) Cons.IH [of "drop_source s" ps s'] by (simp add: PlayDrop)
  qed
qed

lemma abs_play_never_empty: "abs_play es q = (ps, q') \<Longrightarrow> Ready [] \<notin> set ps"
  by (induction es q arbitrary: ps q' rule: abs_play.induct) (auto split: prod.splits if_splits)

subsection \<open>Capture\<close>

text \<open>The first \<open>k\<close> samples of a byte sequence.\<close>

definition decode_all :: "pulse_format \<Rightarrow> nat \<Rightarrow> byte list \<Rightarrow> f32 list" where
  "decode_all fmt k bytes =
     map (\<lambda>i. decode_sample fmt (take (bytes_per_sample fmt) (drop (i * bytes_per_sample fmt) bytes))) [0..<k]"

lemma decode_all_add:
  "decode_all fmt (j + k) bytes = decode_all fmt j bytes @ decode_all fmt k (drop (j * bytes_per_sample fmt) bytes)"
proof -
  have "[0..<j + k] = [0..<j] @ map (\<lambda>i. i + j) [0..<k]"
    by (simp add: map_add_upt upt_add_eq_append [of 0 j k] add.commute)
  then show ?thesis by (simp add: decode_all_def add_mult_distrib add.commute)
qed

lemma decode_all_prefix:
  assumes "j * bytes_per_sample fmt \<le> length xs"
  shows "decode_all fmt j (xs @ ys) = decode_all fmt j xs"
proof -
  have le: "bytes_per_sample fmt + i * bytes_per_sample fmt \<le> length xs" if "i < j" for i
  proof -
    have "Suc i * bytes_per_sample fmt \<le> j * bytes_per_sample fmt"
      using that by (intro mult_le_mono1) simp
    with assms show ?thesis by simp
  qed
  have "take (bytes_per_sample fmt) (drop (i * bytes_per_sample fmt) (xs @ ys)) =
      take (bytes_per_sample fmt) (drop (i * bytes_per_sample fmt) xs)" if "i < j" for i
    using le [OF that] by simp
  then show ?thesis
    unfolding decode_all_def by (intro map_cong refl) (simp only: set_upt atLeastLessThan_iff)
qed

text \<open>The bytes of a run that fit the ring, and the chunks that did not fit whole.\<close>

fun accepted_bytes :: "('r, byte) ring_ops \<Rightarrow> ('r \<Rightarrow> byte list) \<Rightarrow> ('r \<Rightarrow> nat) \<Rightarrow> capture_step list
    \<Rightarrow> 'r pulse_input \<Rightarrow> byte list \<times> nat" where
  "accepted_bytes R contents cap [] s = ([], 0)"
| "accepted_bytes R contents cap (Chunk bytes # es) s =
     (let space = cap (pi_ring s) - length (contents (pi_ring s));
          (acc, k) = accepted_bytes R contents cap es (sink_write R bytes s)
      in (take space bytes @ acc, if space < length bytes then Suc k else k))"
| "accepted_bytes R contents cap (ReadInto buf # es) s =
     accepted_bytes R contents cap es (snd (snd (pulse_read R buf s)))"
| "accepted_bytes R contents cap (SinkDropped # es) s = accepted_bytes R contents cap es (drop_sink s)"

lemma sink_write_spec:
  assumes R: "ring R contents cap"
  shows "contents (pi_ring (sink_write R bytes s)) =
      contents (pi_ring s) @ take (cap (pi_ring s) - length (contents (pi_ring s))) bytes \<and>
    pi_overruns (sink_write R bytes s) = pi_overruns s +
      (if cap (pi_ring s) - length (contents (pi_ring s)) < length bytes then 1 else 0) \<and>
    pi_bytes_received (sink_write R bytes s) = pi_bytes_received s +
      word_of_nat (length (take (cap (pi_ring s) - length (contents (pi_ring s))) bytes)) \<and>
    pi_format (sink_write R bytes s) = pi_format s"
proof -
  obtain k r where p: "push_slice R bytes (pi_ring s) = (k, r)" by (cases "push_slice R bytes (pi_ring s)")
  have "k = min (length bytes) (cap (pi_ring s) - length (contents (pi_ring s)))"
    "contents r = contents (pi_ring s) @ take k bytes"
    using ring.push_slice_spec [OF R, of bytes "pi_ring s"] p by auto
  then show ?thesis
    by (auto simp: sink_write_def Let_def p min_def)
qed

lemma pulse_read_spec:
  assumes R: "ring R contents cap" and rd: "pulse_read R buf s = (res, buf', s')"
  shows "\<exists>j. (case res of Ok n \<Rightarrow> take n buf' | _ \<Rightarrow> []) = decode_all (pi_format s) j (contents (pi_ring s)) \<and>
    j * bytes_per_sample (pi_format s) \<le> length (contents (pi_ring s)) \<and>
    contents (pi_ring s') = drop (j * bytes_per_sample (pi_format s)) (contents (pi_ring s)) \<and>
    pi_format s' = pi_format s \<and> pi_overruns s' = pi_overruns s \<and> pi_bytes_received s' = pi_bytes_received s"
proof -
  define fmt where "fmt = pi_format s"
  define w where "w = bytes_per_sample fmt"
  define q where "q = contents (pi_ring s)"
  define n where "n = whole_samples (min (length q) (length buf * w)) fmt"
  define j where "j = n div w"
  have w: "0 < w" by (simp add: w_def)
  have nj: "n = j * w" by (simp add: n_def j_def w_def whole_samples_alt)
  have n: "n \<le> length q" "n \<le> length buf * w"
    using whole_samples_le [of "min (length q) (length buf * w)" fmt] by (simp_all add: n_def)
  then have j: "j \<le> length buf" using w by (simp add: nj)
  obtain xs r where p: "pop_slice R n (pi_ring s) = (xs, r)" by (cases "pop_slice R n (pi_ring s)")
  have xs: "xs = take n q" "contents r = drop n q"
    using ring.pop_contents [OF R p] by (simp_all add: q_def)
  show ?thesis
  proof (cases "pi_disconnected s \<or> buf = [] \<or> n = 0")
    case True
    with rd have "(case res of Ok n \<Rightarrow> take n buf' | _ \<Rightarrow> []) = [] \<and> s' = s"
      by (auto simp: pulse_read_def Let_def n_def q_def w_def fmt_def ring.occupied_spec [OF R] split: if_splits)
    then show ?thesis by (intro exI [of _ 0]) (simp add: decode_all_def)
  next
    case False
    have "length xs = n" using xs n by simp
    moreover have "whole_samples n fmt = n"
      using w by (simp add: whole_samples_alt nj flip: w_def)
    ultimately have dec: "decode_to_f32 fmt (take (whole_samples (length xs) fmt) xs) buf
        = (j, decode_all fmt j (take n q) @ drop j buf)"
      using j w n by (simp add: decode_to_f32_def decode_all_def Let_def xs(1) nj min_absorb1 flip: w_def)
    have rest_eq: "decode_all fmt j (take n q) = decode_all fmt j q"
      using decode_all_prefix [of j fmt "take n q" "drop n q"] n by (simp add: nj flip: w_def)
    from False rd have "res = Ok j \<and> take j buf' = decode_all fmt j (take n q) \<and> s' = s\<lparr>pi_ring := r\<rparr>"
      using p dec
      by (auto simp: pulse_read_def Let_def ring.occupied_spec [OF R] decode_all_def
        simp flip: fmt_def w_def q_def n_def)
    then show ?thesis
      using xs rest_eq n by (intro exI [of _ j]) (auto simp: nj q_def w_def fmt_def)
  qed
qed

lemma capture_run_spec:
  assumes R: "ring R contents cap"
  shows "run_capture R es s = (xs, s') \<Longrightarrow> accepted_bytes R contents cap es s = (acc, k) \<Longrightarrow>
    xs = decode_all (pi_format s) (length xs) (contents (pi_ring s) @ acc) \<and>
    length xs * bytes_per_sample (pi_format s) \<le> length (contents (pi_ring s) @ acc) \<and>
    contents (pi_ring s') = drop (length xs * bytes_per_sample (pi_format s)) (contents (pi_ring s) @ acc) \<and>
    pi_bytes_received s' = pi_bytes_received s + word_of_nat (length acc) \<and>
    pi_overruns s' = pi_overruns s + word_of_nat k"
proof (induction es arbitrary: s xs s' acc k)
  case Nil
  then show ?case by (simp add: decode_all_def)
next
  case (Cons e es)
  show ?case
  proof (cases e)
    case (Chunk bytes)
    define t where "t = sink_write R bytes s"
    obtain acc1 k1 where a: "accepted_bytes R contents cap es t = (acc1, k1)"
      by (cases "accepted_bytes R contents cap es t")
    note w = sink_write_spec [OF R, of bytes s, folded t_def]
    from Cons.prems have r: "run_capture R es t = (xs, s')" by (simp add: Chunk t_def)
    from Cons.IH [OF r a] w Cons.prems(2) show ?thesis
      by (auto simp: Chunk Let_def a simp flip: t_def split: if_splits)
  next
    case (ReadInto buf)
    obtain res buf' t where rd: "pulse_read R buf s = (res, buf', t)" by (cases "pulse_read R buf s")
    obtain ys u where r: "run_capture R es t = (ys, u)" by (cases "run_capture R es t")
    define first where "first = (case res of Ok n \<Rightarrow> take n buf' | _ \<Rightarrow> [])"
    have xs: "xs = first @ ys" "s' = u"
      using Cons.prems(1) by (auto simp: ReadInto rd r first_def split: result.splits)
    have a: "accepted_bytes R contents cap es t = (acc, k)"
      using Cons.prems(2) by (simp add: ReadInto rd)
    obtain j where j: "first = decode_all (pi_format s) j (contents (pi_ring s))"
      "j * bytes_per_sample (pi_format s) \<le> length (contents (pi_ring s))"
      "contents (pi_ring t) = drop (j * bytes_per_sample (pi_format s)) (contents (pi_ring s))"
      "pi_format t = pi_format s" "pi_overruns t = pi_overruns s" "pi_bytes_received t = pi_bytes_received s"
      using pulse_read_spec [OF R rd] unfolding first_def by auto
    have len: "length first = j" using j(1) by (simp add: decode_all_def)
    define B where "B = contents (pi_ring s) @ acc"
    define w where "w = bytes_per_sample (pi_format s)"
    have t: "contents (pi_ring t) @ acc = drop (j * w) B" and le: "j * w \<le> length B"
      using j(2,3) by (simp_all add: B_def w_def)
    have first: "first = decode_all (pi_format s) j B"
      using j(1) decode_all_prefix [OF j(2)] by (simp add: B_def)
    from Cons.IH [OF r a, unfolded t j(4-6)]
    have ys: "ys = decode_all (pi_format s) (length ys) (drop (j * w) B)" "length ys * w \<le> length B - j * w"
      "contents (pi_ring u) = drop (length ys * w + j * w) B"
      "pi_bytes_received u = pi_bytes_received s + word_of_nat (length acc)"
      "pi_overruns u = pi_overruns s + word_of_nat k"
      by (simp_all add: w_def add.commute)
    have "decode_all (pi_format s) (length xs) B = first @ ys"
      using ys(1) unfolding xs(1) length_append len decode_all_add first [symmetric] w_def by simp
    moreover have "length xs * w = j * w + length ys * w"
      by (simp add: xs(1) len add_mult_distrib)
    ultimately show ?thesis
      using ys(2-5) le by (simp add: xs add.commute flip: B_def w_def)
  next
    case SinkDropped
    with Cons.IH [of "drop_sink s" xs s' acc k] Cons.prems show ?thesis by (simp add: drop_sink_def)
  qed
qed

subsection \<open>Flushing\<close>

lemma flush_ends:
  assumes "\<And>n. n \<le> elapsed n"
  shows "PULSE_FLUSH_TIMEOUT < i + fuel \<Longrightarrow> 0 < fuel \<Longrightarrow>
    \<exists>k r. flush_loop queued lost elapsed fuel i = Some r \<and> i \<le> k \<and>
      (\<forall>m. i \<le> m \<and> m < k \<longrightarrow> queued m \<noteq> 0 \<and> \<not> lost m \<and> elapsed m < PULSE_FLUSH_TIMEOUT) \<and>
      (if queued k = 0 then r = Ok ()
       else if lost k then \<exists>msg. r = Err (Disconnected msg)
       else PULSE_FLUSH_TIMEOUT \<le> elapsed k \<and> (\<exists>msg. r = Err (Timeout msg)))"
proof (induction fuel arbitrary: i)
  case 0
  then show ?case by simp
next
  case (Suc fuel)
  show ?case
  proof (cases "queued i = 0 \<or> lost i \<or> elapsed i \<ge> PULSE_FLUSH_TIMEOUT")
    case True
    then show ?thesis by (intro exI [of _ i]) auto
  next
    case False
    with assms [of i] have "i < PULSE_FLUSH_TIMEOUT" by simp
    with Suc.prems have "PULSE_FLUSH_TIMEOUT < Suc i + fuel" "0 < fuel" by auto
    from Suc.IH [OF this] obtain k r where
      kr: "flush_loop queued lost elapsed fuel (Suc i) = Some r" "Suc i \<le> k"
        "\<forall>m. Suc i \<le> m \<and> m < k \<longrightarrow> queued m \<noteq> 0 \<and> \<not> lost m \<and> elapsed m < PULSE_FLUSH_TIMEOUT"
        "if queued k = 0 then r = Ok ()
         else if lost k then \<exists>msg. r = Err (Disconnected msg)
         else PULSE_FLUSH_TIMEOUT \<le> elapsed k \<and> (\<exists>msg. r = Err (Timeout msg))"
      by blast
    have "\<forall>m. i \<le> m \<and> m < k \<longrightarrow> queued m \<noteq> 0 \<and> \<not> lost m \<and> elapsed m < PULSE_FLUSH_TIMEOUT"
      using kr(3) False by (metis le_antisym not_less not_less_eq_eq)
    with kr False show ?thesis by (intro exI [of _ k] exI [of _ r]) auto
  qed
qed

subsection \<open>Opening\<close>

lemma channel_map_no_panic [panic_free]: "channel_map_for ch \<noteq> Panic"
  by (simp add: channel_map_for_def Let_def)

lemma length_SURROUND [simp]: "length SURROUND = 8"
  by (simp add: SURROUND_def)

text \<open>One position for each channel, and no position twice.\<close>

fun map_positions :: "channel_map \<Rightarrow> pa_position list option" where
  "map_positions (Positions ps) = Some ps"
| "map_positions _ = None"

lemma SURROUND_nth:
  "i < 8 \<Longrightarrow> SURROUND ! i \<noteq> PaAux k" "i < 8 \<Longrightarrow> PaAux k \<noteq> SURROUND ! i"
  "i < 8 \<Longrightarrow> j < 8 \<Longrightarrow> SURROUND ! i = SURROUND ! j \<longleftrightarrow> i = j"
proof -
  have d: "distinct SURROUND" by (simp add: SURROUND_def)
  show "i < 8 \<Longrightarrow> SURROUND ! i \<noteq> PaAux k"
    using nth_mem [of i SURROUND] by (auto simp: SURROUND_def)
  then show "i < 8 \<Longrightarrow> PaAux k \<noteq> SURROUND ! i" by metis
  show "i < 8 \<Longrightarrow> j < 8 \<Longrightarrow> SURROUND ! i = SURROUND ! j \<longleftrightarrow> i = j"
    using d by (simp add: nth_eq_iff_index_eq)
qed

lemma channel_map_positions:
  assumes "3 \<le> unat ch" and "unat ch \<le> 32"
  shows "\<exists>ps. channel_map_for ch = Ok (Positions ps) \<and> length ps = unat ch \<and> distinct ps"
proof -
  define f where "f i = (case get SURROUND i of Some p \<Rightarrow> p | None \<Rightarrow> PaAux (min (i - length SURROUND) 23))" for i
  have f: "f i = (if i < 8 then SURROUND ! i else PaAux (min (i - 8) 23))" for i
    by (simp add: f_def get_def)
  have "ch \<noteq> 0" "ch \<noteq> 1" "ch \<noteq> 2" using assms(1) by auto
  then have "channel_map_for ch = Ok (Positions (map f [0..<unat ch]))"
    using assms(2) by (simp add: channel_map_for_def Let_def min_absorb1 flip: f_def)
  moreover have "inj_on f {0..<unat ch}"
    using assms(2) by (auto simp: inj_on_def f SURROUND_nth split: if_splits)
  then have "distinct (map f [0..<unat ch])" by (simp add: distinct_map)
  ultimately show ?thesis by simp
qed

text \<open>Whether the ring of a stream can be allocated.\<close>

definition ring_fits :: "nat \<Rightarrow> stream_config \<Rightarrow> pulse_format \<Rightarrow> bool" where
  "ring_fits um config fmt \<longleftrightarrow> 0 < ring_capacity_bytes um config fmt \<and> ring_capacity_bytes um config fmt \<le> um div 2"

lemma heap_rb_bytes: "heap_rb R um (Suc 0) (ring_capacity_bytes um config fmt) =
    (if ring_fits um config fmt then Ok (new_ring R (ring_capacity_bytes um config fmt)) else Panic)"
  by (simp add: heap_rb_def ring_fits_def)

text \<open>What an open stream has: a configuration that was asked for, and the state before any audio.\<close>

lemma verify_ok:
  "verify_negotiated_spec dir actual fmt ch rate = Ok () \<longleftrightarrow>
     ss_format actual = to_wire_format fmt \<and> ucast (ss_channels actual) = ch \<and> ss_rate actual = rate"
  by (simp add: verify_negotiated_spec_def)

lemma open_output_ok:
  assumes "pulse_open_output R um create dev config = Ok s"
  shows "validate_stream_config config = Ok () \<and>
    predict_negotiated config (pd_format dev) = Ok (po_negotiated s) \<and>
    negotiate_format (sample_format_opt config) (preferred_formats config) (pd_format dev) = Ok (po_format s) \<and>
    ring_fits um config (po_format s) \<and> po_ring s = new_ring R (ring_capacity_bytes um config (po_format s)) \<and>
    po_capacity s = ring_capacity_bytes um config (po_format s) \<and>
    po_channels s = channels config \<and> po_frame_size s = frame_size (po_format s) (channels config) \<and>
    po_attrs s = playback_buffer_attrs (period_frames config) (channels config) (po_format s) \<and>
    po_discard s = 0 \<and> po_starved s \<and> \<not> po_disconnected s \<and> po_bytes_sent s = 0 \<and> po_underruns s = 0 \<and>
    po_waker s = None \<and> 0 \<notin> set (pd_name dev)"
  using assms
  by (auto simp: pulse_open_output_def heap_rb_bytes Let_def verify_ok predict_negotiated_def cstring_or_default_def
      split: if_splits)

lemma open_input_ok:
  assumes "pulse_open_input R um create dev config = Ok s"
  shows "validate_stream_config config = Ok () \<and>
    predict_negotiated config (pd_format dev) = Ok (pi_negotiated s) \<and>
    negotiate_format (sample_format_opt config) (preferred_formats config) (pd_format dev) = Ok (pi_format s) \<and>
    ring_fits um config (pi_format s) \<and> pi_ring s = new_ring R (ring_capacity_bytes um config (pi_format s)) \<and>
    pi_capacity s = ring_capacity_bytes um config (pi_format s) \<and>
    pi_channels s = channels config \<and> pi_frame_size s = frame_size (pi_format s) (channels config) \<and>
    pi_attrs s = record_buffer_attrs (period_frames config) (channels config) (pi_format s) \<and>
    \<not> pi_disconnected s \<and> pi_bytes_received s = 0 \<and> pi_overruns s = 0 \<and> 0 \<notin> set (pd_name dev)"
  using assms
  by (auto simp: pulse_open_input_def heap_rb_bytes Let_def verify_ok predict_negotiated_def cstring_or_default_def
      split: if_splits)

lemma negotiate_no_panic [panic_free]: "negotiate_format req pref native \<noteq> Panic"
  by (auto simp: negotiate_format_def split: option.splits)

definition replies :: "(sample_spec \<Rightarrow> channel_map \<Rightarrow> rstring \<Rightarrow> pulse_attrs \<Rightarrow> sample_spec reply) \<Rightarrow> bool" where
  "replies create \<longleftrightarrow> (\<forall>a b c d. create a b c d \<noteq> Some Panic)"

lemma round_trip_no_panic: "r \<noteq> Some Panic \<Longrightarrow> round_trip what limit r \<noteq> Panic"
  by (cases r) (auto simp: round_trip_def)

text \<open>Opening for playback panics only where the client library does or the ring cannot be allocated.\<close>

definition ring_refused :: "nat \<Rightarrow> pulse_descriptor \<Rightarrow> stream_config \<Rightarrow> bool" where
  "ring_refused um dev config \<longleftrightarrow> validate_stream_config config = Ok () \<and>
     (case negotiate_format (sample_format_opt config) (preferred_formats config) (pd_format dev) of
        Ok fmt \<Rightarrow> \<not> ring_fits um config fmt | _ \<Rightarrow> False)"

lemma opens_panic:
  assumes "replies create"
  shows "pulse_open_output R um create dev config = Panic \<longleftrightarrow> ring_refused um dev config"
    and "pulse_open_input R um create dev config = Panic \<longleftrightarrow> ring_refused um dev config"
  using assms
  by (auto simp: pulse_open_output_def pulse_open_input_def ring_refused_def heap_rb_bytes Let_def replies_def and_then_eq_Panic
      verify_negotiated_spec_def cstring_or_default_def channel_map_no_panic validate_no_panic negotiate_no_panic
      round_trip_no_panic split: if_splits result.splits)

subsection \<open>Properties\<close>

text \<open>
  C7: Playback is a queue of bytes. Over any run of writes, polls of the reactor, discards, resumes
  and a loss of the connection, the reactor gets what a queue gives that takes the encoded bytes of
  the writes that succeed, hands out its front to each poll, and is emptied by a discard. It never
  gets an empty buffer, which would end the stream; the byte counter is exact, and an underrun is
  counted once for every time the queue runs dry.
\<close>

theorem pulse_output_run:
  assumes "ring R contents cap" and "discard_ok contents s"
  shows "case run_play R es s of (ps, s') \<Rightarrow>
    abs_play (abs_of R es s) (survivors contents s) = (ps, survivors contents s') \<and>
    Ready [] \<notin> set ps \<and>
    po_bytes_sent s' = po_bytes_sent s + word_of_nat (sent_bytes ps) \<and>
    po_underruns s' = po_underruns s + word_of_nat (dry_edges (po_starved s) ps)"
proof (cases "run_play R es s")
  case (Pair ps s')
  from play_refines [OF assms Pair] abs_play_never_empty show ?thesis
    by (auto simp: Pair)
qed

definition playing :: "byte fifo pulse_output" where
  "playing = \<lparr>po_ring = ([], 16), po_waker = None, po_woken = [], po_underruns = 0, po_bytes_sent = 0,
     po_starved = True, po_disconnected = False, po_discard = 0, po_format = Float32Le, po_channels = 1,
     po_frame_size = 4, po_capacity = 16,
     po_negotiated = \<lparr>n_sample_rate = 48000, n_channels = 1, n_buffer_size = 32, n_sample_format = F32\<rparr>,
     po_attrs = playback_buffer_attrs 32 1 Float32Le\<rparr>"

theorem pulse_output_run_witness:
  "case run_play fifo [PlayPoll 7 8, PlayWrite [0x3F800000], PlayPoll 7 3] playing of (ps, s') \<Rightarrow>
    abs_play (abs_of fifo [PlayPoll 7 8, PlayWrite [0x3F800000], PlayPoll 7 3] playing) [] =
      (ps, survivors fst s') \<and> Ready [] \<notin> set ps \<and> po_bytes_sent s' = word_of_nat (sent_bytes ps)"
  using pulse_output_run [OF fifo_ring, of playing "[PlayPoll 7 8, PlayWrite [0x3F800000], PlayPoll 7 3]"]
  by (auto simp: discard_ok_def survivors_def playing_def)

text \<open>
  Capture loses no alignment. Over any run of chunks from the server and reads of any size, the
  samples delivered are the decoded first samples of the bytes that were accepted, in order, and the
  bytes behind them wait in the ring: a sample that is split between two chunks is put together. The
  byte counter is exact and every chunk that did not fit whole is counted as an overrun.
\<close>

lemma pulse_input_run:
  assumes "ring R contents cap"
  shows "case (run_capture R es s, accepted_bytes R contents cap es s) of ((xs, s'), (acc, k)) \<Rightarrow>
    xs = decode_all (pi_format s) (length xs) (contents (pi_ring s) @ acc) \<and>
    length xs * bytes_per_sample (pi_format s) \<le> length (contents (pi_ring s) @ acc) \<and>
    contents (pi_ring s') = drop (length xs * bytes_per_sample (pi_format s)) (contents (pi_ring s) @ acc) \<and>
    pi_bytes_received s' = pi_bytes_received s + word_of_nat (length acc) \<and>
    pi_overruns s' = pi_overruns s + word_of_nat k"
  using capture_run_spec [OF assms, of es s]
  by (cases "run_capture R es s"; cases "accepted_bytes R contents cap es s") simp

definition capturing :: "byte fifo pulse_input" where
  "capturing = \<lparr>pi_ring = ([], 16), pi_overruns = 0, pi_bytes_received = 0, pi_disconnected = False,
     pi_format = Float32Le, pi_channels = 1, pi_frame_size = 4, pi_capacity = 16,
     pi_negotiated = po_negotiated playing, pi_attrs = record_buffer_attrs 32 1 Float32Le\<rparr>"

theorem pulse_input_run_witness:
  "case (run_capture fifo [Chunk [0, 0, 0x80, 0x3F, 9], ReadInto [0, 0], Chunk [1, 2, 3]] capturing,
      accepted_bytes fifo fst snd [Chunk [0, 0, 0x80, 0x3F, 9], ReadInto [0, 0], Chunk [1, 2, 3]] capturing) of
    ((xs, s'), (acc, k)) \<Rightarrow> fst (pi_ring s') = drop (length xs * 4) acc"
  using pulse_input_run [OF fifo_ring, where s = capturing and
      es = "[Chunk [0, 0, 0x80, 0x3F, 9], ReadInto [0, 0], Chunk [1, 2, 3]]"]
  by (auto simp: capturing_def split: prod.splits)

text \<open>
  \<open>flush\<close> ends. Every check is at least a millisecond after the one before, so at most 2001
  checks are made. It succeeds at the first check that finds the ring empty, reports \<open>Disconnected\<close>
  at the first that finds the stream lost, and \<open>Timeout\<close> at the first after two seconds.
\<close>

lemma pulse_flush_ends:
  assumes "\<And>n. n \<le> elapsed n"
  shows "\<exists>k r. flush_loop queued lost elapsed 2001 0 = Some r \<and>
    (\<forall>m. m < k \<longrightarrow> queued m \<noteq> 0 \<and> \<not> lost m \<and> elapsed m < PULSE_FLUSH_TIMEOUT) \<and>
    (if queued k = 0 then r = Ok ()
     else if lost k then \<exists>msg. r = Err (Disconnected msg)
     else PULSE_FLUSH_TIMEOUT \<le> elapsed k \<and> (\<exists>msg. r = Err (Timeout msg)))"
  using flush_ends [OF assms, where i = 0 and fuel = 2001 and queued = queued and lost = lost] assms
  by (simp add: PULSE_FLUSH_TIMEOUT_def)

lemma pulse_flush_ends_witness:
  "\<exists>k r. flush_loop (\<lambda>n. 10 - n) (\<lambda>n. n = 7) (\<lambda>n. 2 * n) 2001 0 = Some r \<and>
    (\<forall>m. m < k \<longrightarrow> 10 - m \<noteq> 0 \<and> \<not> m = 7 \<and> 2 * m < PULSE_FLUSH_TIMEOUT) \<and>
    (if 10 - k = 0 then r = Ok ()
     else if k = 7 then \<exists>msg. r = Err (Disconnected msg)
     else PULSE_FLUSH_TIMEOUT \<le> 2 * k \<and> (\<exists>msg. r = Err (Timeout msg)))"
  by (rule pulse_flush_ends) simp

end
