(* ===== verification/Pulse_Device.thy ===== *)
theory Pulse_Device
  imports Pulse_Runs
begin

text \<open>
  Enumeration and opening of PulseAudio devices (\<open>crates/oxisound-pulse/src/linux/device.rs\<close>). What the
  server answers to the requests of one call is the record \<open>pulse_server\<close>; \<open>conn\<close> is the connection
  of theory \<open>Pulse_Conn\<close> as a function of the client's name.
\<close>

subsection \<open>What the server reports\<close>

record endpoint_info =
  ep_index :: "32 word"
  ep_name :: "byte list"
  ep_description :: "byte list option"
  ep_spec :: sample_spec
  ep_map_channels :: byte

record source_info = endpoint_info +
  monitor_of_sink_index :: "32 word option"
  monitor_of_sink_name :: "byte list option"

record server_info =
  default_sink_name :: "byte list option"
  default_source_name :: "byte list option"

record pulse_server =
  sv_info :: "server_info reply"
  sv_sink :: "byte list \<Rightarrow> endpoint_info reply"
  sv_source :: "byte list \<Rightarrow> source_info reply"
  sv_sinks :: "endpoint_info list reply"
  sv_sources :: "source_info list reply"
  sv_create_playback :: "sample_spec \<Rightarrow> channel_map \<Rightarrow> rstring \<Rightarrow> pulse_attrs \<Rightarrow> sample_spec reply"
  sv_create_record :: "sample_spec \<Rightarrow> channel_map \<Rightarrow> rstring \<Rightarrow> pulse_attrs \<Rightarrow> sample_spec reply"
  sv_default_sink :: "byte list"
  sv_default_source :: "byte list"

type_synonym connector = "rstring \<Rightarrow> nat \<times> (unit, oxi_error) result"

subsection \<open>Descriptors\<close>

definition channels_of :: "sample_spec \<Rightarrow> byte \<Rightarrow> byte" where
  "channels_of spec map_channels = (if ss_channels spec > 0 then ss_channels spec else map_channels)"

definition sink_descriptor :: "endpoint_info \<Rightarrow> byte list option \<Rightarrow> pulse_descriptor" where
  "sink_descriptor info default_sink =
     \<lparr>pd_name = utf8_lossy (ep_name info), pd_description = map_option utf8_lossy (ep_description info),
      pd_index = ep_index info, pd_role = Sink, pd_is_monitor = False,
      pd_sample_rate = ss_rate (ep_spec info), pd_channels = channels_of (ep_spec info) (ep_map_channels info),
      pd_format = map_wire_format (ss_format (ep_spec info)),
      pd_is_default = (default_sink = Some (ep_name info))\<rparr>"

definition source_descriptor :: "source_info \<Rightarrow> byte list option \<Rightarrow> pulse_descriptor" where
  "source_descriptor info default_source =
     \<lparr>pd_name = utf8_lossy (ep_name info), pd_description = map_option utf8_lossy (ep_description info),
      pd_index = ep_index info, pd_role = Source,
      pd_is_monitor = (monitor_of_sink_index info \<noteq> None \<or> monitor_of_sink_name info \<noteq> None),
      pd_sample_rate = ss_rate (ep_spec info), pd_channels = channels_of (ep_spec info) (ep_map_channels info),
      pd_format = map_wire_format (ss_format (ep_spec info)),
      pd_is_default = (default_source = Some (ep_name info))\<rparr>"

definition fetch_server_info :: "pulse_server \<Rightarrow> (server_info, oxi_error) result" where
  "fetch_server_info sv = round_trip ''GET_SERVER_INFO'' PULSE_OP_TIMEOUT (sv_info sv)"

definition fetch_sink :: "pulse_server \<Rightarrow> byte list \<Rightarrow> (endpoint_info, oxi_error) result" where
  "fetch_sink sv nm = round_trip ''GET_SINK_INFO'' PULSE_OP_TIMEOUT (sv_sink sv nm)"

definition fetch_source :: "pulse_server \<Rightarrow> byte list \<Rightarrow> (source_info, oxi_error) result" where
  "fetch_source sv nm = round_trip ''GET_SOURCE_INFO'' PULSE_OP_TIMEOUT (sv_source sv nm)"

subsection \<open>Devices\<close>

text \<open>A device is its descriptor; the connection it holds is that of the server it came from.\<close>

definition from_parts :: "pulse_descriptor \<Rightarrow> (pulse_descriptor, oxi_error) result" where
  "from_parts d = (if pd_channels d = 0 \<or> pd_sample_rate d = 0 then Err NoDevice else Ok d)"

definition pulse_open_default :: "connector \<Rightarrow> pulse_server \<Rightarrow> pulse_role \<Rightarrow> rstring
    \<Rightarrow> (pulse_descriptor, oxi_error) result" where
  "pulse_open_default conn sv role client =
     and_then (snd (conn client)) (\<lambda>_.
     and_then (fetch_server_info sv) (\<lambda>server.
     and_then (case role of
         Sink \<Rightarrow> map_ok (\<lambda>info. sink_descriptor info (default_sink_name server)) (fetch_sink sv (sv_default_sink sv))
       | Source \<Rightarrow> map_ok (\<lambda>info. source_descriptor info (default_source_name server))
           (fetch_source sv (sv_default_source sv)))
       from_parts))"

definition pulse_open_named :: "connector \<Rightarrow> pulse_server \<Rightarrow> rstring \<Rightarrow> pulse_role \<Rightarrow> rstring
    \<Rightarrow> (pulse_descriptor, oxi_error) result" where
  "pulse_open_named conn sv nm role client =
     and_then (cstring_or_default nm) (\<lambda>target.
     and_then (snd (conn client)) (\<lambda>_.
     and_then (fetch_server_info sv) (\<lambda>server.
     and_then (case role of
         Sink \<Rightarrow> map_ok (\<lambda>info. sink_descriptor info (default_sink_name server)) (fetch_sink sv target)
       | Source \<Rightarrow> map_ok (\<lambda>info. source_descriptor info (default_source_name server)) (fetch_source sv target))
       from_parts)))"

definition enumerate_details :: "connector \<Rightarrow> pulse_server \<Rightarrow> rstring \<Rightarrow> (pulse_descriptor list, oxi_error) result"
where
  "enumerate_details conn sv client =
     and_then (snd (conn client)) (\<lambda>_.
     and_then (fetch_server_info sv) (\<lambda>server.
     and_then (round_trip ''GET_SINK_INFO_LIST'' PULSE_OP_TIMEOUT (sv_sinks sv)) (\<lambda>sinks.
     and_then (round_trip ''GET_SOURCE_INFO_LIST'' PULSE_OP_TIMEOUT (sv_sources sv)) (\<lambda>sources.
       Ok (map (\<lambda>s. sink_descriptor s (default_sink_name server)) sinks @
           map (\<lambda>s. source_descriptor s (default_source_name server)) sources)))))"

definition enumerate_all_as :: "connector \<Rightarrow> pulse_server \<Rightarrow> rstring \<Rightarrow> (device_info list, oxi_error) result" where
  "enumerate_all_as conn sv client = map_ok map_descriptors (enumerate_details conn sv client)"

definition pulse_enumerate_output :: "connector \<Rightarrow> pulse_server \<Rightarrow> (device_info list, oxi_error) result" where
  "pulse_enumerate_output conn sv = map_ok (filter is_output) (enumerate_all_as conn sv DEFAULT_CLIENT_NAME)"

definition pulse_enumerate_input :: "connector \<Rightarrow> pulse_server \<Rightarrow> (device_info list, oxi_error) result" where
  "pulse_enumerate_input conn sv = map_ok (filter is_input) (enumerate_all_as conn sv DEFAULT_CLIENT_NAME)"

definition pulse_enumerate :: "connector \<Rightarrow> pulse_server \<Rightarrow> (device_info list, oxi_error) result" where
  "pulse_enumerate conn sv = enumerate_all_as conn sv DEFAULT_CLIENT_NAME"

definition pulse_default_output :: "connector \<Rightarrow> pulse_server \<Rightarrow> (pulse_descriptor, oxi_error) result" where
  "pulse_default_output conn sv = pulse_open_default conn sv Sink DEFAULT_CLIENT_NAME"

definition pulse_default_input :: "connector \<Rightarrow> pulse_server \<Rightarrow> (pulse_descriptor, oxi_error) result" where
  "pulse_default_input conn sv = pulse_open_default conn sv Source DEFAULT_CLIENT_NAME"

subsection \<open>Streams of a device\<close>

definition open_output_concrete :: "('r, byte) ring_ops \<Rightarrow> nat \<Rightarrow> pulse_server \<Rightarrow> pulse_descriptor \<Rightarrow> stream_config
    \<Rightarrow> ('r pulse_output, oxi_error) result" where
  "open_output_concrete R um sv d config =
     (if \<not> role_is_output (pd_role d)
      then Err (UnsupportedConfig [Str (pd_name d), Lit '' is a PulseAudio source and cannot be opened for playback''])
      else pulse_open_output R um (sv_create_playback sv) d config)"

definition open_input_concrete :: "('r, byte) ring_ops \<Rightarrow> nat \<Rightarrow> pulse_server \<Rightarrow> pulse_descriptor \<Rightarrow> stream_config
    \<Rightarrow> ('r pulse_input, oxi_error) result" where
  "open_input_concrete R um sv d config =
     (if \<not> role_is_input (pd_role d)
      then Err (UnsupportedConfig [Str (pd_name d), Lit '' is a PulseAudio sink; capture from its monitor source '',
             Str (pd_name d), Lit ''.monitor instead''])
      else pulse_open_input R um (sv_create_record sv) d config)"

definition open_duplex_concrete :: "('r, byte) ring_ops \<Rightarrow> nat \<Rightarrow> pulse_server \<Rightarrow> pulse_descriptor \<Rightarrow> stream_config
    \<Rightarrow> ('r pulse_duplex, oxi_error) result" where
  "open_duplex_concrete R um sv d config =
     and_then (case pd_role d of
         Sink \<Rightarrow> map_ok (\<lambda>info. (d, source_descriptor info None)) (fetch_source sv (sv_default_source sv))
       | Source \<Rightarrow> map_ok (\<lambda>info. (sink_descriptor info None, d)) (fetch_sink sv (sv_default_sink sv)))
       (\<lambda>(sink, source).
     and_then (pulse_open_output R um (sv_create_playback sv) sink config) (\<lambda>out.
     and_then (pulse_open_input R um (sv_create_record sv) source config) (\<lambda>inp.
       Ok \<lparr>px_output = out, px_input = inp\<rparr>)))"

definition pulse_negotiate_output :: "pulse_descriptor \<Rightarrow> stream_config \<Rightarrow> (negotiated_config, oxi_error) result" where
  "pulse_negotiate_output d config =
     and_then (validate_stream_config config) (\<lambda>_. predict_negotiated config (pd_format d))"

subsection \<open>Lemmas\<close>

lemma wire_format_roundtrip: "map_wire_format (to_wire_format fmt) = Some fmt"
  by (cases fmt) auto

lemma round_trip_ok [simp]: "round_trip what limit (Some (Ok x)) = Ok x"
  by (simp add: round_trip_def)

lemma map_descriptors_append: "map_descriptors (xs @ ys) = map_descriptors xs @ map_descriptors ys"
  by (induction xs) (auto split: option.splits)

definition usable :: "pulse_descriptor \<Rightarrow> bool" where
  "usable d \<longleftrightarrow> pd_channels d \<noteq> 0 \<and> pd_sample_rate d \<noteq> 0"

lemma to_device_info_None: "to_device_info d = None \<longleftrightarrow> \<not> usable d"
  by (simp add: to_device_info_def usable_def Let_def)

text \<open>What a listed device says about its endpoint.\<close>

definition describes :: "device_info \<Rightarrow> pulse_descriptor \<Rightarrow> bool" where
  "describes i d \<longleftrightarrow> dev_name i = pd_name d \<and> is_output i = (pd_role d = Sink) \<and> is_input i = (pd_role d = Source) \<and>
     is_default i = pd_is_default d \<and> sample_rates i = [pd_sample_rate d] \<and> channel_counts i = [ucast (pd_channels d)]"

lemma map_descriptors_describe: "list_all2 describes (map_descriptors ds) (filter usable ds)"
proof (induction ds)
  case (Cons d ds)
  show ?case
  proof (cases "to_device_info d")
    case None
    then have "\<not> usable d" by (simp add: to_device_info_None)
    with None Cons.IH show ?thesis by simp
  next
    case (Some i)
    then have "usable d" using to_device_info_None [of d] by auto
    with Some Cons.IH to_device_info_Some [OF Some] show ?thesis
      by (simp add: describes_def role_is_output_def role_is_input_def)
  qed
qed simp

lemma validate_err: "validate_stream_config config \<noteq> Ok () \<Longrightarrow> \<exists>msg. validate_stream_config config = Err (UnsupportedConfig msg)"
  by (simp add: validate_stream_config_def split: if_splits)

lemma describes_one_role: "list_all2 describes is ds \<Longrightarrow> list_all (\<lambda>i. is_input i \<noteq> is_output i) is"
  by (induction rule: list_all2_induct) (auto simp: describes_def, (metis pulse_role.exhaust)+)

subsection \<open>Properties\<close>

text \<open>
  Enumeration lists exactly the endpoints with channels and a sample rate, the sinks before the
  sources and both in the order of the server. Each listed device has one role, output for a sink and
  input for a source, the name, the rate and the channels of its endpoint, and is a default exactly
  if the server names it as the default of its kind. The other queries are filters of this list.
\<close>

lemma pulse_enumerate_spec:
  assumes "snd (conn client) = Ok ()" and "sv_info sv = Some (Ok server)"
    and "sv_sinks sv = Some (Ok sinks)" and "sv_sources sv = Some (Ok sources)"
  shows "case enumerate_all_as conn sv client of
      Ok infos \<Rightarrow>
        list_all2 describes infos (filter usable
          (map (\<lambda>s. sink_descriptor s (default_sink_name server)) sinks @
           map (\<lambda>s. source_descriptor s (default_source_name server)) sources)) \<and>
        list_all (\<lambda>i. is_input i \<noteq> is_output i) infos
    | _ \<Rightarrow> False"
proof -
  define ds where "ds = map (\<lambda>s. sink_descriptor s (default_sink_name server)) sinks @
      map (\<lambda>s. source_descriptor s (default_source_name server)) sources"
  have "enumerate_all_as conn sv client = Ok (map_descriptors ds)"
    by (simp add: enumerate_all_as_def enumerate_details_def fetch_server_info_def assms ds_def)
  with map_descriptors_describe [of ds] describes_one_role [OF map_descriptors_describe [of ds]]
  show ?thesis by (simp flip: ds_def)
qed

definition speaker_info :: endpoint_info where
  "speaker_info = \<lparr>ep_index = 1, ep_name = [0x73], ep_description = None,
     ep_spec = \<lparr>ss_format = WireS16Le, ss_channels = 2, ss_rate = 48000\<rparr>, ep_map_channels = 2\<rparr>"

definition dummy_info :: endpoint_info where
  "dummy_info = \<lparr>ep_index = 0, ep_name = [0x6E], ep_description = None,
     ep_spec = \<lparr>ss_format = WireOther [], ss_channels = 0, ss_rate = 0\<rparr>, ep_map_channels = 0\<rparr>"

definition small_server :: pulse_server where
  "small_server = \<lparr>sv_info = Some (Ok \<lparr>default_sink_name = Some [0x73], default_source_name = None\<rparr>),
     sv_sink = (\<lambda>_. Some (Ok speaker_info)), sv_source = (\<lambda>_. None),
     sv_sinks = Some (Ok [dummy_info, speaker_info]), sv_sources = Some (Ok []),
     sv_create_playback = (\<lambda>spec _ _ _. Some (Ok spec)), sv_create_record = (\<lambda>_ _ _ _. None),
     sv_default_sink = [0x40], sv_default_source = [0x40]\<rparr>"

theorem pulse_enumerate_spec_witness:
  "case enumerate_all_as (\<lambda>_. (3, Ok ())) small_server DEFAULT_CLIENT_NAME of
      Ok infos \<Rightarrow> list_all2 describes infos [sink_descriptor speaker_info (Some [0x73])]
    | _ \<Rightarrow> False"
proof -
  have keep: "filter usable
      (map (\<lambda>s. sink_descriptor s (Some [0x73])) [dummy_info, speaker_info] @ map (\<lambda>s. source_descriptor s None) [])
     = [sink_descriptor speaker_info (Some [0x73])]"
    by (simp add: usable_def sink_descriptor_def channels_of_def speaker_info_def dummy_info_def)
  have "case enumerate_all_as (\<lambda>_. (3, Ok ())) small_server DEFAULT_CLIENT_NAME of
      Ok infos \<Rightarrow> list_all2 describes infos (filter usable
        (map (\<lambda>s. sink_descriptor s (default_sink_name \<lparr>default_sink_name = Some [0x73], default_source_name = None\<rparr>))
           [dummy_info, speaker_info] @
         map (\<lambda>s. source_descriptor s (default_source_name \<lparr>default_sink_name = Some [0x73], default_source_name = None\<rparr>)) [])) \<and>
        list_all (\<lambda>i. is_input i \<noteq> is_output i) infos
    | _ \<Rightarrow> False"
    by (rule pulse_enumerate_spec) (simp_all add: small_server_def)
  then show ?thesis
    unfolding server_info.simps keep by (auto split: result.splits)
qed

text \<open>
  C32: Opening for playback. A source, and a configuration beyond the limits of the protocol, are
  refused with \<open>UnsupportedConfig\<close> whatever the server would answer. A stream that opens has exactly
  the configuration that \<open>negotiate_output\<close> predicts; a period is a whole number of frames, the server
  is asked for four periods and at most eight, nothing saturates, and the ring of the handle holds
  at least eight periods. When the client library does not panic, opening panics exactly for a configuration within the limits whose
  ring would need more than \<open>isize::MAX\<close> bytes, as a large enough \<open>buffer_capacity_secs\<close> asks for.
\<close>

theorem pulse_open_output_spec:
  "case open_output_concrete R um sv d config of
     Ok s \<Rightarrow>
       pd_role d = Sink \<and> pulse_negotiate_output d config = Ok (po_negotiated s) \<and>
       (let pb = unat (period_frames config) * frame_size (po_format s) (channels config)
        in unat (minimum_request_length (po_attrs s)) = pb \<and> unat (pre_buffering (po_attrs s)) = pb \<and>
           unat (target_length (po_attrs s)) = 4 * pb \<and> unat (max_length (po_attrs s)) = 8 * pb \<and>
           8 * pb \<le> po_capacity s \<and> po_capacity s \<le> um div 2 \<and> po_ring s = new_ring R (po_capacity s)) \<and>
       \<not> ring_refused um d config
   | Err e \<Rightarrow>
       (if pd_role d = Sink \<and> validate_stream_config config = Ok () then True else kind e = ''unsupported-config'') \<and>
       \<not> (pd_role d = Sink \<and> ring_refused um d config)
   | Panic \<Rightarrow> (if replies (sv_create_playback sv) then pd_role d = Sink \<and> ring_refused um d config else True)"
proof (cases "open_output_concrete R um sv d config")
  case (Ok s)
  then have sink: "pd_role d = Sink" and s: "pulse_open_output R um (sv_create_playback sv) d config = Ok s"
    by (auto simp: open_output_concrete_def role_is_output_def split: if_splits)
  note o = open_output_ok [OF s]
  define pb where "pb = unat (period_frames config) * frame_size (po_format s) (channels config)"
  have ch: "unat (channels config) \<le> 32" using o validate_ok_iff [of config] by simp
  have period: "unat (period_bytes (period_frames config) (channels config) (po_format s)) = pb"
    using unat_period_bytes [OF ch, of "period_frames config"] unat_period_frames [of config] by (simp add: pb_def)
  have "pb \<le> 65536 * 128"
    unfolding pb_def using unat_period_frames [of config] frame_size_le [OF ch] by (intro mult_le_mono) auto
  then have times: "unat (saturating_mul (period_bytes (period_frames config) (channels config) (po_format s)) n)
      = pb * unat n" if "unat n \<le> 8" for n
    using unat_periods [OF _ that] by (simp add: period)
  have fits: "0 < po_capacity s" "po_capacity s \<le> um div 2" using o by (simp_all add: ring_fits_def)
  moreover have "min (8 * pb) um \<le> po_capacity s"
    using o ring_capacity_ge [of config "po_format s" um] by (simp add: pb_def algebra_simps)
  ultimately have "8 * pb \<le> po_capacity s" by linarith
  moreover have "\<not> ring_refused um d config" using o by (simp add: ring_refused_def)
  ultimately show ?thesis
    using Ok o sink fits
    by (simp add: pulse_negotiate_output_def playback_buffer_attrs_def Let_def period times
        PLAYBACK_MAX_PERIODS_def PLAYBACK_TARGET_PERIODS_def flip: pb_def)
next
  case (Err e)
  have no: "\<not> (pd_role d = Sink \<and> ring_refused um d config)"
    using Err by (auto simp: open_output_concrete_def role_is_output_def ring_refused_def pulse_open_output_def heap_rb_bytes
        Let_def split: result.splits if_splits)
  have "kind e = ''unsupported-config''" if "\<not> (pd_role d = Sink \<and> validate_stream_config config = Ok ())"
    using Err validate_err [of config] that
    by (auto simp: open_output_concrete_def role_is_output_def pulse_open_output_def split: if_splits)
  with Err no show ?thesis by auto
next
  case Panic
  then have sink: "pd_role d = Sink" and "pulse_open_output R um (sv_create_playback sv) d config = Panic"
    by (auto simp: open_output_concrete_def role_is_output_def split: if_splits)
  with Panic opens_panic(1) [of "sv_create_playback sv" R um d config] show ?thesis by simp
qed

end
