(* ===== verification/Pulse_Wakeup.thy ===== *)
theory Pulse_Wakeup
  imports Pulse_Runs
begin

text \<open>
  The playback handle and the reactor run on two threads. This theory takes the calls of theory
  \<open>Pulse_Stream\<close> apart into the steps that are atomic in \<open>crates/oxisound-pulse/src/linux/stream.rs\<close> and
  interleaves them: no wake-up is lost, and a discard can swallow audio that is written after it.
\<close>

subsection \<open>The two threads\<close>

text \<open>
  The reactor between polls, in a poll for \<open>n\<close> bytes before the first look at the ring, after it has
  found nothing, after it has stored its waker, and parked because the poll answered \<open>Pending\<close>. The
  handle between calls, after it changed the shared state and before it takes the waker, and between
  the two halves of a discard. \<open>sy_wake\<close> says that the reactor has been woken and will poll again.
\<close>

datatype reactor_pc = Serving | Looking nat | Missed nat | Registered nat | Parked

datatype handle_pc = Quiet | Changed | Snapped nat

record 'r sys =
  sy_stream :: "'r pulse_output"
  sy_reactor :: reactor_pc
  sy_handle :: handle_pc
  sy_wake :: bool

datatype wk_label = PollStart nat | Request nat | Served "byte list" | NothingYet | Register | NothingStill
  | Push "byte list" | Wake | Nudge | Snapshot | StoreDiscard

inductive wk_step :: "('r, byte) ring_ops \<Rightarrow> nat \<Rightarrow> wk_label \<Rightarrow> 'r sys \<Rightarrow> 'r sys \<Rightarrow> bool"
  for R :: "('r, byte) ring_ops" and w :: nat
where
  poll_start: "sy_reactor s = Serving \<or> (sy_reactor s = Parked \<and> sy_wake s) \<Longrightarrow> 0 < n \<Longrightarrow>
    wk_step R w (PollStart n) s
      (s\<lparr>sy_stream := take_discard R (sy_stream s), sy_reactor := Looking n, sy_wake := False\<rparr>)"
| request: "sy_reactor s = Parked \<Longrightarrow> 0 < n \<Longrightarrow>
    wk_step R w (Request n) s (s\<lparr>sy_stream := take_discard R (sy_stream s), sy_reactor := Looking n\<rparr>)"
| hit: "sy_reactor s = Looking n \<Longrightarrow> serve R n (sy_stream s) = (Some bytes, t) \<Longrightarrow>
    wk_step R w (Served bytes) s (s\<lparr>sy_stream := t, sy_reactor := Serving\<rparr>)"
| miss: "sy_reactor s = Looking n \<Longrightarrow> serve R n (sy_stream s) = (None, t) \<Longrightarrow>
    wk_step R w NothingYet s (s\<lparr>sy_stream := t, sy_reactor := Missed n\<rparr>)"
| register: "sy_reactor s = Missed n \<Longrightarrow>
    wk_step R w Register s (s\<lparr>sy_stream := store_waker w (sy_stream s), sy_reactor := Registered n\<rparr>)"
| late_hit: "sy_reactor s = Registered n \<Longrightarrow> serve R n (sy_stream s) = (Some bytes, t) \<Longrightarrow>
    wk_step R w (Served bytes) s (s\<lparr>sy_stream := t\<lparr>po_waker := None\<rparr>, sy_reactor := Serving\<rparr>)"
| late_miss: "sy_reactor s = Registered n \<Longrightarrow> serve R n (sy_stream s) = (None, t) \<Longrightarrow>
    wk_step R w NothingStill s (s\<lparr>sy_stream := note_starved t, sy_reactor := Parked\<rparr>)"
| push: "sy_handle s = Quiet \<Longrightarrow> bytes \<noteq> [] \<Longrightarrow> push_slice R bytes (po_ring (sy_stream s)) = (length bytes, r) \<Longrightarrow>
    wk_step R w (Push bytes) s (s\<lparr>sy_stream := (sy_stream s)\<lparr>po_ring := r\<rparr>, sy_handle := Changed\<rparr>)"
| wake: "sy_handle s = Changed \<Longrightarrow>
    wk_step R w Wake s (s\<lparr>sy_stream := wake_reactor (sy_stream s), sy_handle := Quiet,
      sy_wake := sy_wake s \<or> po_waker (sy_stream s) \<noteq> None\<rparr>)"
| nudge: "sy_handle s = Quiet \<Longrightarrow>
    wk_step R w Nudge s (s\<lparr>sy_stream := wake_reactor (sy_stream s),
      sy_wake := sy_wake s \<or> po_waker (sy_stream s) \<noteq> None\<rparr>)"
| snapshot: "sy_handle s = Quiet \<Longrightarrow>
    wk_step R w Snapshot s (s\<lparr>sy_handle := Snapped (occupied_len R (po_ring (sy_stream s)))\<rparr>)"
| store_discard: "sy_handle s = Snapped k \<Longrightarrow>
    wk_step R w StoreDiscard s (s\<lparr>sy_stream := (sy_stream s)\<lparr>po_discard := k\<rparr>, sy_handle := Changed\<rparr>)"

inductive_cases wk_stepE: "wk_step R w l s t"

inductive wk_run :: "('r, byte) ring_ops \<Rightarrow> nat \<Rightarrow> 'r sys \<Rightarrow> wk_label list \<Rightarrow> 'r sys \<Rightarrow> bool"
  for R :: "('r, byte) ring_ops" and w :: nat and s0 :: "'r sys"
where
  run_start: "wk_run R w s0 [] s0"
| run_step: "wk_run R w s0 ls s \<Longrightarrow> wk_step R w l s t \<Longrightarrow> wk_run R w s0 (ls @ [l]) t"

definition between_calls :: "'r pulse_output \<Rightarrow> 'r sys" where
  "between_calls s = \<lparr>sy_stream = s, sy_reactor = Serving, sy_handle = Quiet, sy_wake = False\<rparr>"

subsection \<open>The steps are the calls\<close>

text \<open>A poll that the handle does not interrupt does what \<open>poll_read\<close> does.\<close>

lemma wk_run_append: "wk_run R w s ls t \<Longrightarrow> wk_run R w t ls' u \<Longrightarrow> wk_run R w s (ls @ ls') u"
  by (rotate_tac 1, induction rule: wk_run.induct) (auto intro: run_step simp flip: append_assoc)

lemma wk_run_Cons: "wk_step R w l s t \<Longrightarrow> wk_run R w t ls u \<Longrightarrow> wk_run R w s (l # ls) u"
  using wk_run_append [of R w s "[l]" t ls u] run_step [OF run_start, of R w l s t] by simp

lemma poll_read_steps:
  assumes "poll_read R w n s = (p, t)" and "0 < n"
  shows "\<exists>ls. wk_run R w (between_calls s) ls
    ((between_calls t)\<lparr>sy_reactor := (case p of Pending \<Rightarrow> Parked | Ready _ \<Rightarrow> Serving)\<rparr>)"
proof -
  define s0 where "s0 = take_discard R s"
  obtain r1 s1 where s1: "serve R n s0 = (r1, s1)" by (cases "serve R n s0")
  obtain r2 s2 where s2: "serve R n (store_waker w s1) = (r2, s2)" by (cases "serve R n (store_waker w s1)")
  have st: "wk_step R w (PollStart n) (between_calls s) ((between_calls s0)\<lparr>sy_reactor := Looking n\<rparr>)"
    using poll_start [of "between_calls s" n R w] assms(2) by (simp add: between_calls_def s0_def)
  show ?thesis
  proof (cases r1)
    case (Some bytes)
    then have h: "wk_step R w (Served bytes) ((between_calls s0)\<lparr>sy_reactor := Looking n\<rparr>) (between_calls s1)"
      using hit [of "(between_calls s0)\<lparr>sy_reactor := Looking n\<rparr>" n R bytes s1 w] s1 by (simp add: between_calls_def)
    have "wk_run R w (between_calls s) [PollStart n, Served bytes] (between_calls s1)"
      by (rule wk_run_Cons [OF st wk_run_Cons [OF h run_start]])
    moreover have "p = Ready bytes \<and> t = s1"
      using assms(1) s1 Some by (simp add: poll_read_def s0_def)
    ultimately show ?thesis by (auto simp: between_calls_def)
  next
    case None
    have m: "wk_step R w NothingYet ((between_calls s0)\<lparr>sy_reactor := Looking n\<rparr>) ((between_calls s1)\<lparr>sy_reactor := Missed n\<rparr>)"
      using miss [of "(between_calls s0)\<lparr>sy_reactor := Looking n\<rparr>" n R s1 w] s1 None by (simp add: between_calls_def)
    have g: "wk_step R w Register ((between_calls s1)\<lparr>sy_reactor := Missed n\<rparr>)
        ((between_calls (store_waker w s1))\<lparr>sy_reactor := Registered n\<rparr>)"
      using register [of "(between_calls s1)\<lparr>sy_reactor := Missed n\<rparr>" n R w] by (simp add: between_calls_def)
    show ?thesis
    proof (cases r2)
      case r2: (Some bytes)
      have h: "wk_step R w (Served bytes) ((between_calls (store_waker w s1))\<lparr>sy_reactor := Registered n\<rparr>)
          (between_calls (s2\<lparr>po_waker := None\<rparr>))"
        using late_hit [of "(between_calls (store_waker w s1))\<lparr>sy_reactor := Registered n\<rparr>" n R bytes s2 w] s2 r2
        by (simp add: between_calls_def)
      have "wk_run R w (between_calls s) [PollStart n, NothingYet, Register, Served bytes]
          (between_calls (s2\<lparr>po_waker := None\<rparr>))"
        by (rule wk_run_Cons [OF st wk_run_Cons [OF m wk_run_Cons [OF g wk_run_Cons [OF h run_start]]]])
      moreover have "p = Ready bytes \<and> t = s2\<lparr>po_waker := None\<rparr>"
        using assms(1) s1 s2 None r2 by (simp add: poll_read_def s0_def)
      ultimately show ?thesis by (auto simp: between_calls_def)
    next
      case r2: None
      have h: "wk_step R w NothingStill ((between_calls (store_waker w s1))\<lparr>sy_reactor := Registered n\<rparr>)
          ((between_calls (note_starved s2))\<lparr>sy_reactor := Parked\<rparr>)"
        using late_miss [of "(between_calls (store_waker w s1))\<lparr>sy_reactor := Registered n\<rparr>" n R s2 w] s2 r2
        by (simp add: between_calls_def)
      have "wk_run R w (between_calls s) [PollStart n, NothingYet, Register, NothingStill]
          ((between_calls (note_starved s2))\<lparr>sy_reactor := Parked\<rparr>)"
        by (rule wk_run_Cons [OF st wk_run_Cons [OF m wk_run_Cons [OF g wk_run_Cons [OF h run_start]]]])
      moreover have "p = Pending \<and> t = note_starved s2"
        using assms(1) s1 s2 None r2 by (simp add: poll_read_def s0_def)
      ultimately show ?thesis by auto
    qed
  qed
qed

subsection \<open>No lost wake-up\<close>

definition no_lost_wake :: "('r \<Rightarrow> byte list) \<Rightarrow> 'r sys \<Rightarrow> bool" where
  "no_lost_wake contents s \<longleftrightarrow>
     (case sy_reactor s of
        Registered _ \<Rightarrow> po_waker (sy_stream s) \<noteq> None \<or> sy_wake s
      | Parked \<Rightarrow>
          (po_waker (sy_stream s) \<noteq> None \<or> sy_wake s) \<and>
          (contents (po_ring (sy_stream s)) = [] \<or> sy_wake s \<or> sy_handle s = Changed)
      | _ \<Rightarrow> True) \<and>
     (case sy_reactor s of Looking n \<Rightarrow> 0 < n | Missed n \<Rightarrow> 0 < n | Registered n \<Rightarrow> 0 < n | _ \<Rightarrow> True)"

lemma store_waker_waker [simp]: "po_waker (store_waker w s) = Some w"
  by (simp add: store_waker_def)

lemma wake_reactor_waker [simp]: "po_waker (wake_reactor s) = None"
  by (simp add: wake_reactor_def split: option.splits)

lemma note_starved_waker [simp]: "po_waker (note_starved s) = po_waker s"
  by (simp add: note_starved_def)

lemma serve_waker: "serve R n s = (r, t) \<Longrightarrow> po_waker t = po_waker s"
  by (auto simp: serve_def split: prod.splits if_splits)

lemma serve_None_empty:
  assumes "ring R contents cap" and "serve R n s = (None, t)" and "0 < n"
  shows "contents (po_ring t) = []"
  using serve_spec [OF assms(1,2)] assms(3) by (auto split: if_splits)

lemma no_lost_wake_step:
  assumes R: "ring R contents cap" and st: "wk_step R w l s t" and inv: "no_lost_wake contents s"
  shows "no_lost_wake contents t"
  using st inv
proof cases
  case (late_miss n u)
  from late_miss inv have "0 < n" by (simp add: no_lost_wake_def)
  with late_miss inv serve_None_empty [OF R, of n "sy_stream s" u] serve_waker [of R n "sy_stream s" None u]
  show ?thesis by (simp add: no_lost_wake_def)
next
  case (miss n u)
  with inv show ?thesis by (simp add: no_lost_wake_def)
qed (auto simp: no_lost_wake_def split: reactor_pc.splits)

lemma no_lost_wake_run:
  assumes R: "ring R contents cap" and "wk_run R w (between_calls s) ls t"
  shows "no_lost_wake contents t"
  using assms(2)
proof (induction rule: wk_run.induct)
  case run_start
  show ?case by (simp add: no_lost_wake_def between_calls_def)
next
  case (run_step ls s l t)
  from no_lost_wake_step [OF R run_step.hyps(2) run_step.IH] show ?case .
qed

subsection \<open>Properties\<close>

text \<open>
  C9: No wake-up is lost. However polls, writes, flushes and discards interleave, when the reactor is
  parked and bytes are queued, then it has been woken already, or the handle is about to take the
  waker, which is there, and taking it wakes the reactor.
\<close>

theorem pulse_no_lost_wakeup:
  assumes "ring R contents cap" and "wk_run R w (between_calls s) ls t"
    and "sy_reactor t = Parked" and "contents (po_ring (sy_stream t)) \<noteq> []"
  shows "if sy_wake t then True
    else \<exists>u. wk_step R w Wake t u \<and> sy_wake u \<and> sy_reactor u = Parked \<and> po_ring (sy_stream u) = po_ring (sy_stream t)"
proof (cases "sy_wake t")
  case False
  with no_lost_wake_run [OF assms(1,2)] assms(3,4)
  have "po_waker (sy_stream t) \<noteq> None" and changed: "sy_handle t = Changed"
    by (auto simp: no_lost_wake_def)
  then show ?thesis
    using False assms(3) wake [OF changed, of R w] by (intro if_not_P [THEN iffD2] exI) (auto simp: wake [OF changed])
qed simp

text \<open>Runs on the concrete queue, one step at a time.\<close>

lemmas run_rules = wk_run_Cons [OF poll_start] wk_run_Cons [OF miss] wk_run_Cons [OF register]
  wk_run_Cons [OF late_miss] wk_run_Cons [OF push] wk_run_Cons [OF hit] wk_run_Cons [OF wake]
  wk_run_Cons [OF snapshot] wk_run_Cons [OF store_discard]

lemmas run_defs = between_calls_def take_discard_def serve_def fifo_def store_waker_def note_starved_def
  wake_reactor_def playing_def

lemma parked_run:
  "\<exists>t. wk_run fifo 7 (between_calls playing) [PollStart 4, NothingYet, Register, NothingStill, Push [1]] t \<and>
     sy_reactor t = Parked \<and> po_ring (sy_stream t) = ([1], 16) \<and> \<not> sy_wake t"
  apply (intro exI conjI)
     apply (rule run_rules(1), simp add: run_defs, simp)
     apply (rule run_rules(2), simp add: run_defs, simp add: run_defs)
     apply (rule run_rules(3), simp)
     apply (rule run_rules(4), simp, simp add: run_defs)
     apply (rule run_rules(5), simp add: run_defs, simp, simp add: run_defs)
     apply (rule run_start)
    apply (simp_all add: run_defs)
  done

theorem pulse_no_lost_wakeup_witness:
  "\<exists>t u. wk_run fifo 7 (between_calls playing) [PollStart 4, NothingYet, Register, NothingStill, Push [1]] t \<and>
     wk_step fifo 7 Wake t u \<and> sy_wake u"
proof -
  obtain t where t: "wk_run fifo 7 (between_calls playing) [PollStart 4, NothingYet, Register, NothingStill, Push [1]] t"
    "sy_reactor t = Parked" "po_ring (sy_stream t) = ([1], 16)" "\<not> sy_wake t"
    using parked_run by blast
  from t(3) have "fst (po_ring (sy_stream t)) \<noteq> []" by simp
  from pulse_no_lost_wakeup [OF fifo_ring t(1,2) this] t(1,4) show ?thesis by auto
qed

text \<open>
  C26: A discard can swallow audio that is written after it. The handle counts the queued bytes, the
  reactor, in the middle of a poll, takes one of them, the handle stores its count and wakes the
  reactor, so that \<open>discard_buffered\<close> has done its part; a byte written now is dropped by the next
  poll. The comment on \<open>discard_bytes\<close> says that this cannot happen.
\<close>

theorem pulse_discard_swallows_later_write:
  "\<exists>t. wk_run fifo 7 (between_calls (playing\<lparr>po_ring := ([1, 2], 16)\<rparr>))
      [PollStart 1, Snapshot, Served [1], StoreDiscard, Wake, Push [9], Wake, PollStart 4] t \<and>
    sy_handle t = Quiet \<and> po_ring (sy_stream t) = ([], 16) \<and> po_bytes_sent (sy_stream t) = 1"
  apply (intro exI conjI)
     apply (rule run_rules(1), simp add: run_defs, simp)
     apply (rule run_rules(8), simp add: run_defs)
     apply (rule run_rules(6), simp, simp add: run_defs)
     apply (rule run_rules(9), simp)
     apply (rule run_rules(7), simp)
     apply (rule run_rules(5), simp, simp, simp add: run_defs)
     apply (rule run_rules(7), simp)
     apply (rule run_rules(1), simp, simp)
     apply (rule run_start)
    apply (simp_all add: run_defs)
  done

end
