(* ===== verification/Cpal_Pump.thy ===== *)
theory Cpal_Pump
  imports Cpal_Stream Ieee_Ops
begin

text \<open>
  The drift-corrected pump of a duplex stream (\<open>crates/oxisound-cpal/src/streams.rs\<close>): it estimates how
  much faster one clock runs than the other, and moves the captured frames to the output queue
  through a linear interpolation. The estimate, the step and the phase are \<open>f64\<close> values, which are finite, the samples
  \<open>f32\<close> patterns. Positions in the buffers are at most twice the number of queued samples, so their
  computation does not overflow; the addition that can is checked.
\<close>

definition DRIFT_EMA_ALPHA :: rat where "DRIFT_EMA_ALPHA = fl64 (1 / 20)"
definition DRIFT_CLAMP_MIN :: rat where "DRIFT_CLAMP_MIN = 1 / 2"
definition DRIFT_CLAMP_MAX :: rat where "DRIFT_CLAMP_MAX = 2"

definition drift_ratio :: "'r cpal_duplex \<Rightarrow> rat option" where
  "drift_ratio s =
     (if cd_in_frames s = 0 then None
      else Some (fl64 (fl64 (of_nat (unat (cd_out_frames s))) / fl64 (of_nat (unat (cd_in_frames s))))))"

definition clamp_ratio :: "rat \<Rightarrow> rat" where
  "clamp_ratio x =
     (if x < DRIFT_CLAMP_MIN then DRIFT_CLAMP_MIN else if DRIFT_CLAMP_MAX < x then DRIFT_CLAMP_MAX else x)"

definition smooth :: "rat \<Rightarrow> rat \<Rightarrow> rat" where
  "smooth ema x = fl64 (fl64 (fl64 (1 - DRIFT_EMA_ALPHA) * ema) + fl64 (DRIFT_EMA_ALPHA * x))"

definition update_drift :: "'r cpal_duplex \<Rightarrow> 'r cpal_duplex" where
  "update_drift s =
     (case drift_ratio s of
        Some raw \<Rightarrow> s\<lparr>cd_drift_ema := smooth (cd_drift_ema s) (clamp_ratio raw)\<rparr>
      | None \<Rightarrow> s)"

subsection \<open>Interpolation\<close>

definition floor_usize :: "nat \<Rightarrow> rat \<Rightarrow> nat" where
  "floor_usize um x = to_usize um (Finite (of_int \<lfloor>x\<rfloor>))"

definition sample_or_0 :: "f32 list \<Rightarrow> nat \<Rightarrow> f32" where
  "sample_or_0 buf i = (case get buf i of Some x \<Rightarrow> x | None \<Rightarrow> 0)"

definition lerp :: "f32 \<Rightarrow> f32 \<Rightarrow> rat \<Rightarrow> f32" where
  "lerp s0 s1 fr = bits_of (add32 (val32 s0) (mul32 (sub32 (val32 s1) (val32 s0)) (Finite fr)))"

definition out_frame :: "nat \<Rightarrow> nat \<Rightarrow> nat \<Rightarrow> f32 list \<Rightarrow> nat \<Rightarrow> rat \<Rightarrow> f32 list" where
  "out_frame um in_ch out_ch in_buf actual_in cur =
     (let idx0 = floor_usize um cur; fr = fl32 (fl64 (cur - of_int \<lfloor>cur\<rfloor>));
          idx1 = min (idx0 + 1) (actual_in - 1)
      in map (\<lambda>out_c. let in_c = min out_c (in_ch - 1)
              in lerp (sample_or_0 in_buf (idx0 * in_ch + in_c)) (sample_or_0 in_buf (idx1 * in_ch + in_c)) fr)
          [0..<out_ch])"

fun interpolate :: "nat \<Rightarrow> nat \<Rightarrow> nat \<Rightarrow> f32 list \<Rightarrow> nat \<Rightarrow> rat \<Rightarrow> nat \<Rightarrow> rat \<Rightarrow> f32 list" where
  "interpolate um in_ch out_ch in_buf actual_in step 0 cur = []"
| "interpolate um in_ch out_ch in_buf actual_in step (Suc n) cur =
     out_frame um in_ch out_ch in_buf actual_in cur @
     interpolate um in_ch out_ch in_buf actual_in step n (fl64 (cur + step))"

subsection \<open>The pump\<close>

text \<open>How many frames the queued input gives, and the phase behind \<open>n\<close> of them.\<close>

definition frames_from_input :: "nat \<Rightarrow> nat \<Rightarrow> rat \<Rightarrow> rat \<Rightarrow> nat" where
  "frames_from_input um in_available phase step =
     floor_usize um (fl64 (fl64 (fl64 (of_nat in_available) - phase) / step))"

definition final_phase :: "rat \<Rightarrow> nat \<Rightarrow> rat \<Rightarrow> rat" where
  "final_phase phase n step = fl64 (phase + fl64 (fl64 (of_nat n) * step))"

definition pump_resampled :: "('r, f32) ring_ops \<Rightarrow> nat \<Rightarrow> 'r cpal_duplex
    \<Rightarrow> (nat, oxi_error) result \<times> 'r cpal_duplex" where
  "pump_resampled R um s =
     (let s = update_drift s;
          in_ch = unat (cd_in_channels s); out_ch = unat (cd_out_channels s);
          step = fl64 (1 / cd_drift_ema s);
          in_available = occupied_len R (cd_in_ring s) div in_ch;
          out_capacity = vacant_len R (cd_out_ring s) div out_ch;
          phase = cd_phase s;
          out_frames = min (frames_from_input um in_available phase step) out_capacity;
          final = final_phase phase out_frames step
      in if in_ch = 0 \<or> out_ch = 0 then (Ok 0, s)
         else if step \<le> 0 then (Ok 0, s)
         else if in_available = 0 \<or> out_capacity = 0 then (Ok 0, s)
         else if out_frames = 0 then (Ok 0, s)
         else case uadd um (floor_usize um final) 1 of
           Ok wanted \<Rightarrow>
             (let in_needed = min wanted in_available;
                  (popped, in_ring) = pop_slice R (in_needed * in_ch) (cd_in_ring s);
                  actual_in = length popped div in_ch;
                  in_buf = popped @ replicate (in_needed * in_ch - length popped) 0;
                  out_buf = interpolate um in_ch out_ch in_buf actual_in step out_frames phase;
                  (pushed, out_ring) = push_slice R out_buf (cd_out_ring s)
              in (Ok (pushed div out_ch),
                  s\<lparr>cd_in_ring := in_ring, cd_out_ring := out_ring,
                    cd_phase := fl64 (final - of_int \<lfloor>final\<rfloor>)\<rparr>))
         | Err e \<Rightarrow> (Err e, s)
         | Panic \<Rightarrow> (Panic, s))"

subsection \<open>The estimate\<close>

lemma fl64_dyadic:
  assumes "\<bar>m\<bar> < 2 ^ 53" and "n \<le> 1000"
  shows "fl64 (of_int m / 2 ^ n) = of_int m / 2 ^ n"
proof -
  have "fl64 (of_int m * 2 powi (- int n)) = of_int m * 2 powi (- int n)"
    using assms by (intro fl_exact) (simp_all add: emin_def)
  then show ?thesis by (simp add: power_int_minus divide_inverse)
qed

lemma fl64_dyadic_big:
  assumes "\<bar>m\<bar> < 2 ^ 53"
  shows "fl64 (of_int m * 2 ^ n) = of_int m * 2 ^ n"
proof -
  have "fl64 (of_int m * 2 powi (int n)) = of_int m * 2 powi (int n)"
    using assms by (intro fl_exact) (simp_all add: emin_def)
  then show ?thesis by simp
qed

lemma alpha_bounds: "1 / 32 \<le> DRIFT_EMA_ALPHA" "DRIFT_EMA_ALPHA \<le> 1 / 16"
  using fl_mono [of "1 / 32" "1 / 20" 52 11] fl_mono [of "1 / 20" "1 / 16" 52 11]
    fl64_dyadic [of 1 5] fl64_dyadic [of 1 4]
  by (simp_all add: DRIFT_EMA_ALPHA_def)

lemma one_minus_alpha: "15 / 16 \<le> fl64 (1 - DRIFT_EMA_ALPHA)" "fl64 (1 - DRIFT_EMA_ALPHA) \<le> 31 / 32"
  using fl_mono [of "15 / 16" "1 - DRIFT_EMA_ALPHA" 52 11] fl_mono [of "1 - DRIFT_EMA_ALPHA" "31 / 32" 52 11]
    alpha_bounds fl64_dyadic [of 15 4] fl64_dyadic [of 31 5]
  by simp_all

lemma clamp_ratio_bounds: "1 / 2 \<le> clamp_ratio x" "clamp_ratio x \<le> 2"
  by (simp_all add: clamp_ratio_def DRIFT_CLAMP_MIN_def DRIFT_CLAMP_MAX_def)

lemma smooth_bounds:
  assumes "1 / 4 \<le> ema" and "ema \<le> 4" and "1 / 2 \<le> x" and "x \<le> 2"
  shows "1 / 4 \<le> smooth ema x" and "smooth ema x \<le> 4"
proof -
  let ?a = "DRIFT_EMA_ALPHA" and ?b = "fl64 (1 - DRIFT_EMA_ALPHA)"
  have "15 / 16 * (1 / 4) \<le> ?b * ema" "1 / 32 * (1 / 2) \<le> ?a * x"
    using one_minus_alpha alpha_bounds assms by (intro mult_mono; simp)+
  then have "fl64 (15 / 64) \<le> fl64 (?b * ema)" "fl64 (1 / 64) \<le> fl64 (?a * x)" by (intro fl_mono; simp)+
  then have "fl64 (1 / 4) \<le> smooth ema x"
    unfolding smooth_def using fl64_dyadic [of 15 6] fl64_dyadic [of 1 6] by (intro fl_mono) simp
  then show "1 / 4 \<le> smooth ema x" using fl64_dyadic [of 1 2] by simp
  have "?b * ema \<le> 31 / 32 * 4" "?a * x \<le> 1 / 16 * 2"
    using one_minus_alpha alpha_bounds assms by (intro mult_mono; simp)+
  then have "fl64 (?b * ema) \<le> fl64 (31 / 8)" "fl64 (?a * x) \<le> fl64 (1 / 8)" by (intro fl_mono; simp)+
  then have "smooth ema x \<le> fl64 4"
    unfolding smooth_def using fl64_dyadic [of 31 3] fl64_dyadic [of 1 3] by (intro fl_mono) simp
  then show "smooth ema x \<le> 4" using fl64_dyadic [of 4 0] by simp
qed

text \<open>The fractional part of a number is exact.\<close>

lemma fract_exact:
  assumes "0 \<le> q"
  shows "fl64 (fl64 q - of_int \<lfloor>fl64 q\<rfloor>) = fl64 q - of_int \<lfloor>fl64 q\<rfloor>"
proof (cases "\<lfloor>fl64 q\<rfloor> = 0")
  case False
  have "0 \<le> fl64 q" by (rule fl_nonneg [OF assms])
  with False have ge1: "1 \<le> fl64 q" by linarith
  then have pos: "0 < q" using assms by (cases "q = 0") auto
  from fl_mag_significand [OF this, of 52 11] obtain d m where
    dm: "m \<le> 2 ^ (52 + 1)" "fl_mag 52 11 q = of_nat m * 2 powi (emin 11 + int d - int 52)"
    by blast
  then have m: "m \<le> 2 ^ 53" "fl64 q = of_nat m * 2 powi (emin 11 + int d - 52)"
    using pos by (simp_all add: fl_def)
  define k where "k = emin 11 + int d - 52"
  show ?thesis
  proof (cases "0 \<le> k")
    case True
    then have "fl64 q = of_int (int m * 2 ^ nat k)" using m(2) by (simp add: k_def power_int_def)
    then have "fl64 q - of_int \<lfloor>fl64 q\<rfloor> = 0" by (simp only: floor_of_int)
    then show ?thesis by (simp only: fl_0)
  next
    case neg: False
    define j where "j = nat (- k)"
    have low: "emin 11 - 52 \<le> k" by (simp add: k_def)
    have jk: "k = - int j" using neg by (simp add: j_def)
    have "(2 :: rat) powi k = 1 / 2 ^ j" unfolding jk by (simp add: power_int_minus divide_inverse)
    then have j: "fl64 q = of_nat m / 2 ^ j" using m(2) unfolding k_def [symmetric] by simp
    have fl: "\<lfloor>fl64 q\<rfloor> = int (m div 2 ^ j)"
      unfolding j using floor_divide_of_nat_eq [of m "2 ^ j", where 'a = rat] by simp
    have "1 * 2 ^ j \<le> of_nat m / 2 ^ j * (2 ^ j :: rat)" using ge1 unfolding j by (intro mult_right_mono) simp_all
    then have "of_nat (2 ^ j) \<le> (of_nat m :: rat)" by simp
    then have "2 ^ j \<le> m" by (simp only: of_nat_le_iff)
    then have "2 ^ j \<le> (2 :: nat) ^ 53" using m(1) by (rule le_trans)
    moreover have "m mod 2 ^ j < 2 ^ j" by simp
    ultimately have r: "m mod 2 ^ j < 2 ^ 53" by (rule order.strict_trans2 [rotated])
    have "(of_nat m :: rat) = of_nat (m div 2 ^ j * 2 ^ j + m mod 2 ^ j)" by (simp only: div_mult_mod_eq)
    then have "(of_nat m :: rat) = of_nat (m div 2 ^ j) * 2 ^ j + of_nat (m mod 2 ^ j)" by (simp only: of_nat_add of_nat_mult of_nat_power of_nat_numeral)
    then have "fl64 q = of_nat (m div 2 ^ j) + of_nat (m mod 2 ^ j) / 2 ^ j"
      unfolding j by (simp only: add_divide_distrib nonzero_mult_div_cancel_right power_not_zero zero_neq_numeral not_False_eq_True)
    then have "fl64 q - of_int \<lfloor>fl64 q\<rfloor> = of_nat (m mod 2 ^ j) / 2 ^ j"
      unfolding fl by simp
    then have e: "fl64 q - of_int \<lfloor>fl64 q\<rfloor> = of_int (int (m mod 2 ^ j)) * 2 powi k"
      by (simp add: jk power_int_minus divide_inverse)
    have "\<bar>int (m mod 2 ^ j)\<bar> < 2 ^ (52 + 1)" using r by simp
    from fl_exact [OF this, of 11 k] low show ?thesis unfolding e by (simp only: of_nat_numeral)
  qed
qed (simp only: of_int_0 diff_zero fl_idem)

lemma fl_pos_eq:
  "0 < q \<Longrightarrow> ulp_exp mb eb q = u \<Longrightarrow> round_even (q / 2 powi u) = n \<Longrightarrow> fl mb eb q = of_int n * 2 powi u"
  by (simp add: fl_def fl_mag_def Let_def)

text \<open>With equal clocks the estimate stays at one.\<close>

lemma fl64_near_1:
  assumes "\<bar>e\<bar> \<le> 1 / 2 ^ 54"
  shows "fl64 (1 + e) = 1"
proof -
  have below: "fl64 (1 - 1 / 2 ^ 54) = 1"
  proof -
    let ?x = "1 - 1 / 2 ^ 54 :: rat"
    note b = ilog2_bounds [of ?x]
    have "2 powi (ilog2 ?x) < (2 :: rat) powi 0" using b by simp
    moreover have "(2 :: rat) powi (-1) < 2 powi (ilog2 ?x + 1)" using b by (simp add: power_int_minus)
    ultimately have "ilog2 ?x = -1" unfolding powi_less_iff by linarith
    then have u: "ulp_exp 52 11 ?x = -53" by (simp add: ulp_exp_def emin_def)
    have q: "?x / 2 powi (-53) = 9007199254740991 + 1 / 2" by (simp add: power_int_minus)
    have "\<lfloor>9007199254740991 + 1 / 2 :: rat\<rfloor> = 9007199254740991" by (simp add: floor_eq_iff)
    then have "round_even (?x / 2 powi (-53)) = 9007199254740992" unfolding q by (simp add: round_even_def)
    then show ?thesis using fl_pos_eq [OF _ u] by (simp add: power_int_minus)
  qed
  have above: "fl64 (1 + 1 / 2 ^ 54) = 1"
  proof -
    let ?x = "1 + 1 / 2 ^ 54 :: rat"
    note b = ilog2_bounds [of ?x]
    have "2 powi (ilog2 ?x) < (2 :: rat) powi 1" using b by simp
    moreover have "(2 :: rat) powi 0 < 2 powi (ilog2 ?x + 1)" using b by simp
    ultimately have "ilog2 ?x = 0" unfolding powi_less_iff by linarith
    then have u: "ulp_exp 52 11 ?x = -52" by (simp add: ulp_exp_def emin_def)
    have q: "?x / 2 powi (-52) = 4503599627370496 + 1 / 4" by (simp add: power_int_minus)
    have "\<lfloor>4503599627370496 + 1 / 4 :: rat\<rfloor> = 4503599627370496" by (simp add: floor_eq_iff)
    then have "round_even (?x / 2 powi (-52)) = 4503599627370496" unfolding q by (simp add: round_even_def)
    then show ?thesis using fl_pos_eq [OF _ u] by (simp add: power_int_minus)
  qed
  have "fl64 (1 - 1 / 2 ^ 54) \<le> fl64 (1 + e)" "fl64 (1 + e) \<le> fl64 (1 + 1 / 2 ^ 54)"
    using assms by (intro fl_mono; simp add: abs_le_iff; linarith)+
  then show ?thesis unfolding below above by simp
qed

lemma smooth_1: "smooth 1 1 = 1"
proof -
  let ?a = "DRIFT_EMA_ALPHA" and ?b = "fl64 (1 - DRIFT_EMA_ALPHA)"
  have "\<bar>1 - ?a\<bar> < 2 powi 0" using alpha_bounds by simp
  from fl_error [OF this, of 11 52] have "\<bar>?b - (1 - ?a)\<bar> \<le> 1 / 2 ^ 54"
    by (simp add: emin_def power_int_minus)
  then have "fl64 (1 + (?b - (1 - ?a))) = 1" by (rule fl64_near_1)
  moreover have "fl64 ?a = ?a" by (simp add: DRIFT_EMA_ALPHA_def)
  ultimately show ?thesis by (simp add: smooth_def)
qed

subsection \<open>What is moved\<close>

definition pump_ok :: "'r cpal_duplex \<Rightarrow> bool" where
  "pump_ok s \<longleftrightarrow> 1 / 4 \<le> cd_drift_ema s \<and> cd_drift_ema s \<le> 4 \<and> 0 \<le> cd_phase s \<and> cd_phase s < 1"

lemma update_drift_simps [simp]:
  "cd_in_ring (update_drift s) = cd_in_ring s" "cd_out_ring (update_drift s) = cd_out_ring s"
  "cd_in_channels (update_drift s) = cd_in_channels s" "cd_out_channels (update_drift s) = cd_out_channels s"
  "cd_phase (update_drift s) = cd_phase s"
  by (auto simp: update_drift_def split: option.splits)

lemma update_drift_ok: "pump_ok s \<Longrightarrow> pump_ok (update_drift s)"
  using smooth_bounds clamp_ratio_bounds by (auto simp: pump_ok_def update_drift_def split: option.splits)

lemma step_bounds:
  assumes "1 / 4 \<le> ema" and "ema \<le> 4"
  shows "1 / 4 \<le> fl64 (1 / ema)" and "fl64 (1 / ema) \<le> 4"
proof -
  have "1 / 4 \<le> 1 / ema" "1 / ema \<le> 4" using assms by (simp_all add: field_simps)
  then have "fl64 (1 / 4) \<le> fl64 (1 / ema)" "fl64 (1 / ema) \<le> fl64 4" by (intro fl_mono; simp)+
  then show "1 / 4 \<le> fl64 (1 / ema)" "fl64 (1 / ema) \<le> 4"
    using fl64_dyadic [of 1 2] fl64_dyadic [of 4 0] by simp_all
qed

lemma length_interpolate [simp]:
  "length (interpolate um in_ch out_ch buf actual_in step n cur) = n * out_ch"
  by (induction n arbitrary: cur) (simp_all add: out_frame_def Let_def)

lemma final_phase_bounds:
  assumes "0 \<le> phase" and "phase < 1" and "0 \<le> step" and "step \<le> 4" and "n \<le> 2 ^ 61"
  shows "0 \<le> final_phase phase n step" and "final_phase phase n step \<le> 3 * 2 ^ 62"
proof -
  have "fl64 (of_nat n) \<le> fl64 (2 ^ 61)"
    using of_nat_mono [OF assms(5), where 'a = rat] by (intro fl_mono) simp
  then have n: "fl64 (of_nat n) \<le> 2 ^ 61" using fl64_dyadic_big [of 1 61] by simp
  then have "fl64 (of_nat n) * step \<le> 2 ^ 61 * 4" using assms(3,4) by (intro mult_mono) simp_all
  then have "fl64 (fl64 (of_nat n) * step) \<le> fl64 (2 ^ 63)" by (intro fl_mono) simp
  then have "phase + fl64 (fl64 (of_nat n) * step) \<le> 3 * 2 ^ 62" using fl64_dyadic_big [of 1 63] assms(2) by simp
  then have "final_phase phase n step \<le> fl64 (3 * 2 ^ 62)" unfolding final_phase_def by (rule fl_mono)
  then show "final_phase phase n step \<le> 3 * 2 ^ 62" using fl64_dyadic_big [of 3 62] by simp
  have "0 \<le> fl64 (of_nat n) * step" using assms(3) by (intro mult_nonneg_nonneg fl_nonneg) simp_all
  then show "0 \<le> final_phase phase n step"
    unfolding final_phase_def using assms(1) fl_nonneg by (intro fl_nonneg add_nonneg_nonneg) simp_all
qed

lemma floor_usize_le: "0 \<le> x \<Longrightarrow> x \<le> of_nat n \<Longrightarrow> floor_usize um x \<le> n"
proof -
  assume x: "0 \<le> x" "x \<le> of_nat n"
  have "\<lfloor>x\<rfloor> \<le> int n" using floor_mono [OF x(2)] by simp
  with x(1) show ?thesis by (simp add: floor_usize_def to_usize_def)
qed

lemma floor_usize_nat: "n \<le> um \<Longrightarrow> floor_usize um (of_nat n) = n"
  by (simp add: floor_usize_def to_usize_def trunc_def)

lemma final_phase_fract:
  assumes "0 \<le> phase" and "0 \<le> step"
  shows "0 \<le> fl64 (final_phase phase n step - of_int \<lfloor>final_phase phase n step\<rfloor>)"
    and "fl64 (final_phase phase n step - of_int \<lfloor>final_phase phase n step\<rfloor>) < 1"
proof -
  let ?q = "phase + fl64 (fl64 (of_nat n) * step)"
  have "0 \<le> fl64 (of_nat n) * step" using assms(2) by (intro mult_nonneg_nonneg fl_nonneg) simp_all
  then have q: "0 \<le> ?q" using assms(1) fl_nonneg by (intro add_nonneg_nonneg) simp_all
  show "0 \<le> fl64 (final_phase phase n step - of_int \<lfloor>final_phase phase n step\<rfloor>)"
    "fl64 (final_phase phase n step - of_int \<lfloor>final_phase phase n step\<rfloor>) < 1"
    unfolding final_phase_def fract_exact [OF q] by linarith+
qed

text \<open>What the pump does when it moves frames.\<close>

lemma pump_cases:
  assumes "ring R contents cap" and "pump_ok s" and "cap (cd_out_ring s) \<le> 2 ^ 61"
  defines "t \<equiv> update_drift s"
  defines "ic \<equiv> unat (cd_in_channels s)" and "oc \<equiv> unat (cd_out_channels s)" and "step \<equiv> fl64 (1 / cd_drift_ema t)"
  defines "avail \<equiv> length (contents (cd_in_ring s)) div ic"
    and "room \<equiv> (cap (cd_out_ring s) - length (contents (cd_out_ring s))) div oc"
  defines "n \<equiv> min (frames_from_input usize_max_64 avail (cd_phase s) step) room"
  defines "final \<equiv> final_phase (cd_phase s) n step"
  defines "needed \<equiv> min (floor_usize usize_max_64 final + 1) avail"
  shows "(ic = 0 \<or> oc = 0 \<or> avail = 0 \<or> n = 0) \<and> pump_resampled R usize_max_64 s = (Ok 0, t) \<or>
    ic \<noteq> 0 \<and> oc \<noteq> 0 \<and> avail \<noteq> 0 \<and> n \<noteq> 0 \<and>
    (\<exists>in_ring out_ring. pump_resampled R usize_max_64 s = (Ok n,
        t\<lparr>cd_in_ring := in_ring, cd_out_ring := out_ring, cd_phase := fl64 (final - of_int \<lfloor>final\<rfloor>)\<rparr>) \<and>
      contents in_ring = drop (needed * ic) (contents (cd_in_ring s)) \<and> cap in_ring = cap (cd_in_ring s) \<and>
      contents out_ring = contents (cd_out_ring s) @ interpolate usize_max_64 ic oc
        (take (needed * ic) (contents (cd_in_ring s))) needed step n (cd_phase s) \<and>
      cap out_ring = cap (cd_out_ring s))"
proof -
  note R = assms(1)
  have ok: "pump_ok t" unfolding t_def by (rule update_drift_ok [OF assms(2)])
  then have step: "1 / 4 \<le> step" "step \<le> 4" unfolding step_def pump_ok_def using step_bounds by blast+
  have t: "cd_in_channels t = cd_in_channels s" "cd_out_channels t = cd_out_channels s" "cd_in_ring t = cd_in_ring s"
    "cd_out_ring t = cd_out_ring s" "cd_phase t = cd_phase s"
    by (simp_all add: t_def)
  have occ: "occupied_len R (cd_in_ring s) = length (contents (cd_in_ring s))"
    and vac: "vacant_len R (cd_out_ring s) = cap (cd_out_ring s) - length (contents (cd_out_ring s))"
    using ring.occupied_spec [OF R] ring.vacant_spec [OF R] by simp_all
  have pump: "pump_resampled R usize_max_64 s =
      (if ic = 0 \<or> oc = 0 then (Ok 0, t) else if step \<le> 0 then (Ok 0, t)
       else if avail = 0 \<or> room = 0 then (Ok 0, t) else if n = 0 then (Ok 0, t)
       else case uadd usize_max_64 (floor_usize usize_max_64 final) 1 of
           Ok wanted \<Rightarrow>
             (case pop_slice R (min wanted avail * ic) (cd_in_ring s) of (popped, in_ring) \<Rightarrow>
              case push_slice R (interpolate usize_max_64 ic oc
                  (popped @ replicate (min wanted avail * ic - length popped) 0) (length popped div ic) step n (cd_phase s))
                (cd_out_ring s) of (pushed, out_ring) \<Rightarrow>
              (Ok (pushed div oc), t\<lparr>cd_in_ring := in_ring, cd_out_ring := out_ring,
                    cd_phase := fl64 (final - of_int \<lfloor>final\<rfloor>)\<rparr>))
         | Err e \<Rightarrow> (Err e, t)
         | Panic \<Rightarrow> (Panic, t))"
    unfolding pump_resampled_def Let_def t_def [symmetric] t occ vac ic_def [symmetric] oc_def [symmetric]
      step_def [symmetric] avail_def [symmetric] room_def [symmetric] n_def [symmetric] final_def [symmetric] ..
  show ?thesis
  proof (cases "ic = 0 \<or> oc = 0 \<or> avail = 0 \<or> n = 0")
    case True
    moreover have "room = 0 \<Longrightarrow> n = 0" by (simp add: n_def)
    ultimately show ?thesis unfolding pump using step(1) by (auto simp del: of_nat_numeral)
  next
    case False
    then have room: "room \<noteq> 0" by (auto simp: n_def)
    have "n \<le> room" by (simp add: n_def)
    then have fits: "n * oc \<le> cap (cd_out_ring s) - length (contents (cd_out_ring s))"
      unfolding room_def using False by (simp add: less_eq_div_iff_mult_less_eq)
    have "n \<le> n * oc" using False by simp
    with fits assms(3) have "n \<le> 2 ^ 61" by linarith
    then have fin: "0 \<le> final" "final \<le> 3 * 2 ^ 62"
      unfolding final_def using final_phase_bounds [of "cd_phase s" step n] assms(2) step by (simp_all add: pump_ok_def)
    then have "floor_usize usize_max_64 final \<le> 3 * 2 ^ 62" by (intro floor_usize_le) simp_all
    then have wanted: "uadd usize_max_64 (floor_usize usize_max_64 final) 1 =
        (Ok (floor_usize usize_max_64 final + 1) :: (nat, oxi_error) result)"
      by (simp add: uadd_def)
    obtain popped in_ring where pop: "pop_slice R (needed * ic) (cd_in_ring s) = (popped, in_ring)" by fastforce
    have le: "needed * ic \<le> length (contents (cd_in_ring s))"
    proof -
      have "needed * ic \<le> avail * ic" by (simp add: needed_def)
      also have "\<dots> \<le> length (contents (cd_in_ring s))" by (simp add: avail_def)
      finally show ?thesis .
    qed
    have popped: "popped = take (needed * ic) (contents (cd_in_ring s))"
      "contents in_ring = drop (needed * ic) (contents (cd_in_ring s))" "cap in_ring = cap (cd_in_ring s)"
      using ring.pop_slice_spec [OF R, of "needed * ic" "cd_in_ring s"] pop by simp_all
    have len: "length popped = needed * ic" using le popped(1) by simp
    define out_buf where "out_buf = interpolate usize_max_64 ic oc popped needed step n (cd_phase s)"
    have out_len: "length out_buf = n * oc" by (simp add: out_buf_def)
    obtain pushed out_ring where push: "push_slice R out_buf (cd_out_ring s) = (pushed, out_ring)" by fastforce
    have pushed: "pushed = n * oc" "contents out_ring = contents (cd_out_ring s) @ out_buf" "cap out_ring = cap (cd_out_ring s)"
      using ring.push_slice_spec [OF R, of out_buf "cd_out_ring s"] push fits out_len by simp_all
    have ic: "ic \<noteq> 0" "oc \<noteq> 0" using False by simp_all
    have "pump_resampled R usize_max_64 s = (Ok n, t\<lparr>cd_in_ring := in_ring, cd_out_ring := out_ring,
        cd_phase := fl64 (final - of_int \<lfloor>final\<rfloor>)\<rparr>)"
      unfolding pump wanted result.case needed_def [symmetric] pop prod.case len
      using False room step(1) push pushed(1) ic by (simp add: out_buf_def)
    moreover have "contents out_ring = contents (cd_out_ring s) @ interpolate usize_max_64 ic oc
        (take (needed * ic) (contents (cd_in_ring s))) needed step n (cd_phase s)"
      using pushed(2) unfolding out_buf_def popped(1) .
    ultimately show ?thesis using False popped(2,3) pushed(3)
      by (intro disjI2 conjI exI [where x = in_ring] exI [where x = out_ring]) simp_all
  qed
qed

subsection \<open>Equal clocks\<close>

text \<open>Samples between -1 and 1, as audio has them.\<close>

definition in_range :: "f32 \<Rightarrow> bool" where
  "in_range x \<longleftrightarrow> (case val32 x of Finite q \<Rightarrow> \<bar>q\<bar> \<le> 1 | _ \<Rightarrow> False)"

lemma fl32_unpack_mag:
  assumes "n < 255 * 2 ^ 23"
  shows "fl32 (unpack_mag 23 8 n) = unpack_mag 23 8 n"
proof (cases "n div 2 ^ 23 = 0")
  case True
  then have "\<bar>int n\<bar> < 2 ^ (23 + 1)" by (simp add: div_eq_0_iff)
  from fl_exact [OF this, of 8 "emin 8 - int 23"] True show ?thesis by (simp add: unpack_mag_def)
next
  case False
  have "n mod 2 ^ 23 < (2 :: nat) ^ 23" by simp
  then have m: "\<bar>int (2 ^ 23 + n mod 2 ^ 23)\<bar> < 2 ^ (23 + 1)" by simp
  have "emin 8 - int 23 \<le> emin 8 + int (n div 2 ^ 23) - 1 - int 23" using False by simp
  from fl_exact [OF m this] False show ?thesis by (simp add: unpack_mag_def)
qed

lemma fl32_val32: "val32 w = Finite q \<Longrightarrow> fl32 q = q"
proof -
  assume v: "val32 w = Finite q"
  define mag where "mag = unat w mod 2 ^ (23 + 8)"
  have "mag < 256 * 2 ^ 23" unfolding mag_def by (rule less_le_trans [OF mod_less_divisor]) simp_all
  then have "mag div 2 ^ 23 < 256" by (simp add: less_mult_imp_div_less)
  moreover have "mag div 2 ^ 23 \<noteq> 255" using v by (auto simp: val32_def unpack_def mag_def Let_def split: if_splits)
  ultimately have "mag div 2 ^ 23 < 255" by simp
  then have small: "mag < 255 * 2 ^ 23" by (simp add: div_less_iff_less_mult)
  have "q = unpack_mag 23 8 mag \<or> q = - unpack_mag 23 8 mag"
    using v by (auto simp: val32_def unpack_def mag_def Let_def split: if_splits)
  then show ?thesis using fl32_unpack_mag [OF small] by (auto simp: fl_minus)
qed

lemma lerp_0:
  assumes "in_range x" and "in_range y"
  shows "val32 (lerp x y 0) = val32 x"
proof -
  obtain p q where x: "val32 x = Finite p" "\<bar>p\<bar> \<le> 1" and y: "val32 y = Finite q" "\<bar>q\<bar> \<le> 1"
    using assms by (auto simp: in_range_def split: fval.splits)
  have big: "(2 :: rat) \<le> 2 ^ 127" by simp
  have "\<bar>q - p\<bar> \<le> 2" using x y by linarith
  then have "round32 (q - p) = Finite (fl32 (q - p))" using big by (intro round32_small) linarith
  then have "lerp x y 0 = bits_of (round32 p)" by (simp add: lerp_def x y sub32_def)
  also have "round32 p = Finite p" using round32_small [of p] fl32_val32 [OF x(1)] x(2) big by simp
  finally have "lerp x y 0 = bits32 p" by simp
  moreover have "\<bar>p\<bar> < 2" using x(2) by linarith
  ultimately show ?thesis using val32_bits32 [of p] fl32_val32 [OF x(1)] x(1) by simp
qed

lemma out_frame_exact:
  assumes "i < n" and "n \<le> um" and "length buf = n * ch" and "list_all in_range buf" and "0 < ch"
  shows "map val32 (out_frame um ch ch buf n (of_nat i)) = map val32 (take ch (drop (i * ch) buf))"
proof -
  have "n * ch \<le> length buf" using assms(3) by simp
  have pos: "j * ch + c < length buf" if "j < n" "c < ch" for j c
  proof -
    have "j * ch + c < Suc j * ch" using that by simp
    also have "\<dots> \<le> n * ch" using that by (intro mult_right_mono) simp_all
    finally show ?thesis by (simp add: assms(3))
  qed
  have s: "val32 (lerp (sample_or_0 buf (i * ch + c)) (sample_or_0 buf (min (i + 1) (n - 1) * ch + c)) 0) = val32 (buf ! (i * ch + c))"
    if "c < ch" for c
  proof -
    have "min (i + 1) (n - 1) < n" using assms(1) by simp
    note p = pos [OF assms(1) that] pos [OF this that]
    have g: "sample_or_0 buf k = buf ! k" if "k < length buf" for k
      using that by (simp add: sample_or_0_def get_def)
    show ?thesis unfolding g [OF p(1)] g [OF p(2)]
      using assms(4) p by (intro lerp_0) (simp_all add: list_all_length)
  qed
  have "length (take ch (drop (i * ch) buf)) = ch"
  proof -
    have "i * ch + ch \<le> n * ch" using assms(1) by (metis Suc_leI add.commute mult_Suc mult_le_mono1)
    then show ?thesis using assms(3) by simp
  qed
  then show ?thesis
    using s assms(1,2,5) pos [OF assms(1)]
    by (intro nth_equalityI) (simp_all add: out_frame_def Let_def floor_usize_nat add.commute)
qed

lemma interpolate_exact:
  assumes "n \<le> um" and "length buf = n * ch" and "list_all in_range buf" and "0 < ch" and "n \<le> 2 ^ 52" and "i + k \<le> n"
  shows "map val32 (interpolate um ch ch buf n 1 k (of_nat i)) = map val32 (take (k * ch) (drop (i * ch) buf))"
  using assms(6)
proof (induction k arbitrary: i)
  case (Suc k)
  have i: "i < n" using Suc.prems by simp
  have "fl64 (of_nat i + 1) = of_nat (Suc i)"
    using fl_of_nat [of "Suc i" 52 11] i assms(5) by (simp add: emin_def add.commute)
  then have "map val32 (interpolate um ch ch buf n 1 (Suc k) (of_nat i)) =
      map val32 (take ch (drop (i * ch) buf)) @ map val32 (take (k * ch) (drop (Suc i * ch) buf))"
    using out_frame_exact [OF i assms(1-4)] Suc.IH [of "Suc i"] Suc.prems by simp
  also have "\<dots> = map val32 (take (Suc k * ch) (drop (i * ch) buf))"
    by (simp add: take_add add.commute flip: map_append)
  finally show ?case .
qed simp

subsection \<open>Properties\<close>

text \<open>
  C23: The pump is safe in every state that can arise. It never fails and never panics, it takes whole frames
  from the front of the input queue, appends exactly as many frames as it returns to the output queue, never
  more than there is room for, and leaves the estimate between 1/4 and 4 and the phase below one, so that the same holds
  for the next call.
\<close>

theorem pump_bounds:
  assumes "ring R contents cap" and "pump_ok s" and "cap (cd_out_ring s) \<le> 2 ^ 61"
    and "length (contents (cd_out_ring s)) \<le> cap (cd_out_ring s)"
  shows "case pump_resampled R usize_max_64 s of (r, s') \<Rightarrow>
    pump_ok s' \<and> length (contents (cd_out_ring s')) \<le> cap (cd_out_ring s') \<and> cap (cd_out_ring s') = cap (cd_out_ring s) \<and>
    (case r of
       Ok n \<Rightarrow> (\<exists>k out. contents (cd_in_ring s') = drop (k * unat (cd_in_channels s)) (contents (cd_in_ring s)) \<and>
         k * unat (cd_in_channels s) \<le> length (contents (cd_in_ring s)) \<and>
         contents (cd_out_ring s') = contents (cd_out_ring s) @ out \<and> length out = n * unat (cd_out_channels s))
     | _ \<Rightarrow> False)"
proof -
  define t where "t = update_drift s"
  define ic oc step where "ic = unat (cd_in_channels s)" and "oc = unat (cd_out_channels s)" and "step = fl64 (1 / cd_drift_ema t)"
  define avail where "avail = length (contents (cd_in_ring s)) div ic"
  define room where "room = (cap (cd_out_ring s) - length (contents (cd_out_ring s))) div oc"
  define n where "n = min (frames_from_input usize_max_64 avail (cd_phase s) step) room"
  define final where "final = final_phase (cd_phase s) n step"
  define needed where "needed = min (floor_usize usize_max_64 final + 1) avail"
  note cases = pump_cases [OF assms(1-3), folded t_def, folded ic_def oc_def step_def, folded avail_def room_def,
      folded n_def, folded final_def, folded needed_def]
  have ok: "pump_ok t" unfolding t_def by (rule update_drift_ok [OF assms(2)])
  from cases show ?thesis
  proof
    assume "(ic = 0 \<or> oc = 0 \<or> avail = 0 \<or> n = 0) \<and> pump_resampled R usize_max_64 s = (Ok 0, t)"
    with ok assms(4) show ?thesis by (auto simp: t_def intro: exI [of _ 0])
  next
    assume moved: "ic \<noteq> 0 \<and> oc \<noteq> 0 \<and> avail \<noteq> 0 \<and> n \<noteq> 0 \<and>
      (\<exists>in_ring out_ring. pump_resampled R usize_max_64 s = (Ok n,
          t\<lparr>cd_in_ring := in_ring, cd_out_ring := out_ring, cd_phase := fl64 (final - of_int \<lfloor>final\<rfloor>)\<rparr>) \<and>
        contents in_ring = drop (needed * ic) (contents (cd_in_ring s)) \<and> cap in_ring = cap (cd_in_ring s) \<and>
        contents out_ring = contents (cd_out_ring s) @ interpolate usize_max_64 ic oc
          (take (needed * ic) (contents (cd_in_ring s))) needed step n (cd_phase s) \<and>
        cap out_ring = cap (cd_out_ring s))"
    have "n * oc \<le> room * oc" by (simp add: n_def)
    also have "\<dots> \<le> cap (cd_out_ring s) - length (contents (cd_out_ring s))" by (simp add: room_def)
    finally have fits: "length (contents (cd_out_ring s)) + n * oc \<le> cap (cd_out_ring s)" using assms(4) by simp
    have "needed * ic \<le> avail * ic" by (simp add: needed_def)
    also have "\<dots> \<le> length (contents (cd_in_ring s))" by (simp add: avail_def)
    finally have le: "needed * ic \<le> length (contents (cd_in_ring s))" .
    have "0 \<le> step" unfolding step_def using ok step_bounds(1) [of "cd_drift_ema t"] by (simp add: pump_ok_def)
    then have "0 \<le> fl64 (final - of_int \<lfloor>final\<rfloor>)" "fl64 (final - of_int \<lfloor>final\<rfloor>) < 1"
      unfolding final_def using final_phase_fract [of "cd_phase s" step n] assms(2) by (simp_all add: pump_ok_def)
    with moved ok fits le show ?thesis
      by (auto simp: pump_ok_def ic_def oc_def intro!: exI [of _ needed])
  qed
qed

text \<open>
  C24: With equal clocks the pump copies. When as many frames were played as were captured and nothing was ever
  corrected, the frames it moves come out with their samples unchanged, for samples between -1 and 1. But it
  takes one frame more from the input than it moves, unless it moves all of them: when the output has less room
  than the input has frames, a captured frame is lost.
\<close>

theorem pump_equal_clocks:
  assumes "ring R contents cap" and "cap (cd_out_ring s) \<le> 2 ^ 52" and "length (contents (cd_in_ring s)) \<le> 2 ^ 52"
    and "cd_drift_ema s = 1" and "cd_phase s = 0" and "cd_in_frames s = cd_out_frames s"
    and "cd_in_channels s = ch" and "cd_out_channels s = ch" and "ch \<noteq> 0"
    and "list_all in_range (contents (cd_in_ring s))"
  shows "case pump_resampled R usize_max_64 s of (r, s') \<Rightarrow>
    (let avail = length (contents (cd_in_ring s)) div unat ch;
         n = min avail ((cap (cd_out_ring s) - length (contents (cd_out_ring s))) div unat ch)
     in r = Ok n \<and> cd_drift_ema s' = 1 \<and> cd_phase s' = 0 \<and>
        (\<exists>out. contents (cd_out_ring s') = contents (cd_out_ring s) @ out \<and>
           map val32 out = map val32 (take (n * unat ch) (contents (cd_in_ring s)))) \<and>
        contents (cd_in_ring s') = drop ((if n = 0 then 0 else min (n + 1) avail) * unat ch) (contents (cd_in_ring s)))"
proof -
  define t where "t = update_drift s"
  have ema: "cd_drift_ema t = 1"
  proof (cases "cd_in_frames s = 0")
    case False
    then have "1 \<le> unat (cd_out_frames s)" using assms(6) by (simp add: unat_gt_0 Suc_le_eq)
    then have "of_nat 1 \<le> (of_nat (unat (cd_out_frames s)) :: rat)" by (simp only: of_nat_le_iff)
    then have "fl64 1 \<le> fl64 (of_nat (unat (cd_out_frames s)))" by (intro fl_mono) simp
    then have "fl64 (of_nat (unat (cd_out_frames s))) \<noteq> 0" using fl64_dyadic [of 1 0] by simp
    then have "drift_ratio s = Some 1" using False assms(6) fl64_dyadic [of 1 0] by (simp add: drift_ratio_def)
    then show ?thesis using assms(4) smooth_1
      by (simp add: t_def update_drift_def clamp_ratio_def DRIFT_CLAMP_MIN_def DRIFT_CLAMP_MAX_def)
  qed (use assms(4) in \<open>simp add: t_def update_drift_def drift_ratio_def\<close>)
  define c where "c = unat ch"
  have c: "0 < c" using assms(9) by (simp add: c_def unat_gt_0)
  have one: "fl64 1 = 1" using fl64_dyadic [of 1 0] by simp
  define avail where "avail = length (contents (cd_in_ring s)) div c"
  define room where "room = (cap (cd_out_ring s) - length (contents (cd_out_ring s))) div c"
  have "avail \<le> length (contents (cd_in_ring s))" by (simp add: avail_def)
  then have avail: "avail \<le> 2 ^ 52" using assms(3) by simp
  then have fa: "fl64 (of_nat avail) = of_nat avail" by (intro fl_of_nat) (simp_all add: emin_def)
  have ff: "frames_from_input usize_max_64 avail 0 1 = avail"
    using avail floor_usize_nat [of avail usize_max_64] by (simp add: frames_from_input_def fa)
  define n where "n = min avail room"
  have n: "n \<le> 2 ^ 52" using avail by (simp add: n_def)
  then have fn: "final_phase 0 n 1 = of_nat n" using fl_of_nat [of n 52 11] by (simp add: final_phase_def emin_def)
  have fl: "floor_usize usize_max_64 (of_nat n) = n" using n by (intro floor_usize_nat) simp
  define needed where "needed = min (n + 1) avail"
  have ok: "pump_ok s" using assms(4,5) by (simp add: pump_ok_def)
  have "cap (cd_out_ring s) \<le> 2 ^ 61" using assms(2) by simp
  note cases = pump_cases [OF assms(1) ok this, folded t_def, unfolded ema assms(5,7,8) div_by_1 one, folded c_def,
      folded avail_def room_def, unfolded ff, folded n_def, unfolded fn fl, folded needed_def]
  from cases show ?thesis
  proof
    assume "(c = 0 \<or> c = 0 \<or> avail = 0 \<or> n = 0) \<and> pump_resampled R usize_max_64 s = (Ok 0, t)"
    then have "n = 0" "pump_resampled R usize_max_64 s = (Ok 0, t)" using c by (auto simp: n_def)
    with ema assms(5) show ?thesis
      unfolding Let_def c_def [symmetric] avail_def [symmetric] room_def [symmetric] n_def [symmetric] by (simp add: t_def)
  next
    assume moved: "c \<noteq> 0 \<and> c \<noteq> 0 \<and> avail \<noteq> 0 \<and> n \<noteq> 0 \<and>
      (\<exists>in_ring out_ring. pump_resampled R usize_max_64 s = (Ok n,
          t\<lparr>cd_in_ring := in_ring, cd_out_ring := out_ring, cd_phase := fl64 (of_nat n - of_int \<lfloor>of_nat n :: rat\<rfloor>)\<rparr>) \<and>
        contents in_ring = drop (needed * c) (contents (cd_in_ring s)) \<and> cap in_ring = cap (cd_in_ring s) \<and>
        contents out_ring = contents (cd_out_ring s) @ interpolate usize_max_64 c c
          (take (needed * c) (contents (cd_in_ring s))) needed 1 n 0 \<and>
        cap out_ring = cap (cd_out_ring s))"
    have nn: "n \<le> needed" by (simp add: needed_def n_def)
    have "needed * c \<le> avail * c" by (simp add: needed_def)
    also have "\<dots> \<le> length (contents (cd_in_ring s))" by (simp add: avail_def)
    finally have le: "needed * c \<le> length (contents (cd_in_ring s))" .
    let ?buf = "take (needed * c) (contents (cd_in_ring s))"
    have "list_all in_range ?buf" using assms(10) by (auto simp: list_all_iff dest: in_set_takeD)
    then have "map val32 (interpolate usize_max_64 c c ?buf needed 1 n (of_nat 0)) = map val32 (take (n * c) (drop (0 * c) ?buf))"
      using le c nn avail by (intro interpolate_exact) (simp_all add: needed_def)
    moreover have "n * c \<le> needed * c" using nn by simp
    ultimately have "map val32 (interpolate usize_max_64 c c ?buf needed 1 n 0) = map val32 (take (n * c) (contents (cd_in_ring s)))"
      by (simp add: min_absorb1)
    with moved ema show ?thesis
      unfolding Let_def c_def [symmetric] avail_def [symmetric] room_def [symmetric] n_def [symmetric]
      by (auto simp: needed_def)
  qed
qed

text \<open>Three captured mono frames and room for two.\<close>

definition two_slots :: "f32 fifo cpal_duplex" where
  "two_slots = \<lparr>cd_in_ring = ([0x3F000000, 0, 0x3F000000], 8), cd_out_ring = ([], 2), cd_in_channels = 1,
     cd_out_channels = 1, cd_out_disconnected = False, cd_in_disconnected = False, cd_in_frames = 96,
     cd_out_frames = 96, cd_drift_ema = 1, cd_phase = 0\<rparr>"

theorem pump_bounds_witness:
  "case pump_resampled fifo usize_max_64 two_slots of (r, s') \<Rightarrow> pump_ok s' \<and> is_ok r \<and> length (fst (cd_out_ring s')) \<le> 2"
proof -
  obtain r s' where run: "pump_resampled fifo usize_max_64 two_slots = (r, s')" by fastforce
  have "pump_ok two_slots" "snd (cd_out_ring two_slots) = 2" "fst (cd_out_ring two_slots) = []"
    by (simp_all add: two_slots_def pump_ok_def)
  then show ?thesis using pump_bounds [OF fifo_ring, of two_slots] unfolding run prod.case by (cases r) simp_all
qed

theorem pump_equal_clocks_witness:
  "\<exists>s'. pump_resampled fifo usize_max_64 two_slots = (Ok 2, s') \<and> length (fst (cd_out_ring s')) = 2 \<and> fst (cd_in_ring s') = []"
proof -
  have "val32 0x3F000000 = Finite (1 / 2)" "val32 0 = Finite 0"
    by (simp_all add: val32_def unpack_def unpack_mag_def emin_def Let_def power_int_minus)
  then have "list_all in_range (fst (cd_in_ring two_slots))" by (simp add: two_slots_def in_range_def)
  from pump_equal_clocks [OF fifo_ring _ _ _ _ _ refl _ _ this] show ?thesis
    by (auto simp: two_slots_def Let_def dest: arg_cong [where f = length])
qed

end
