(* ===== verification/Facade_Tones.thy ===== *)
theory Facade_Tones
  imports Core_Types Ieee_Ops
begin

text \<open>
  The test signals of \<open>crates/oxisound/src/lib.rs\<close>. Durations, frequencies and beats per minute are
  bit patterns of \<open>f32\<close>, so they can be negative, infinite or NaN. The sine is an argument. A buffer is
  a list of \<open>f32\<close> patterns; its allocation panics beyond \<open>isize::MAX\<close> bytes.
\<close>

definition alloc_f32 :: "nat \<Rightarrow> nat \<Rightarrow> (unit, 'e) result" where
  "alloc_f32 um n = (if 4 * n \<le> um div 2 then Ok () else Panic)"

lemma alloc_f32_eq_Ok [simp]: "alloc_f32 um n = Ok u \<longleftrightarrow> 4 * n \<le> um div 2"
  by (simp add: alloc_f32_def)

lemma alloc_f32_eq_Panic [simp]: "alloc_f32 um n = Panic \<longleftrightarrow> um div 2 < 4 * n"
  by (auto simp: alloc_f32_def)

definition total_frames :: "nat \<Rightarrow> f32 \<Rightarrow> stream_config \<Rightarrow> nat" where
  "total_frames um secs config = to_usize um (mul32 (of_uint (unat (sample_rate config))) (val32 secs))"

text \<open>The buffer of a generator: one sample per frame, repeated for every channel.\<close>

fun frames :: "nat \<Rightarrow> (nat \<Rightarrow> f32) \<Rightarrow> nat \<Rightarrow> f32 list" where
  "frames ch sample 0 = []"
| "frames ch sample (Suc n) = frames ch sample n @ replicate ch (sample n)"

definition generate :: "nat \<Rightarrow> f32 \<Rightarrow> stream_config \<Rightarrow> (nat \<Rightarrow> f32) \<Rightarrow> (f32 list, unit) result" where
  "generate um secs config sample =
     (let ch = unat (channels config); n = total_frames um secs config in
      and_then (umul um n ch) (\<lambda>total_samples.
      and_then (alloc_f32 um total_samples) (\<lambda>_. Ok (frames ch sample n))))"

definition PI32 :: "32 word" where "PI32 = 0x40490FDB"

definition two_pi :: fval where "two_pi = mul32 (Finite 2) (val32 PI32)"

definition sine_test_tone :: "nat \<Rightarrow> (fval \<Rightarrow> f32) \<Rightarrow> f32 \<Rightarrow> f32 \<Rightarrow> stream_config \<Rightarrow> (f32 list, unit) result" where
  "sine_test_tone um sinf freq secs config =
     (let rate = bits32 (fl32 (of_nat (unat (sample_rate config)))) in
      generate um secs config (\<lambda>i. sinf (div32 (mul32 (mul32 two_pi (val32 freq)) (of_uint i)) rate)))"

definition chirp_test_tone :: "nat \<Rightarrow> (fval \<Rightarrow> f32) \<Rightarrow> f32 \<Rightarrow> f32 \<Rightarrow> f32 \<Rightarrow> stream_config
    \<Rightarrow> (f32 list, unit) result" where
  "chirp_test_tone um sinf f_start f_end secs config =
     (let rate = bits32 (fl32 (of_nat (unat (sample_rate config)))) in
      generate um secs config (\<lambda>i.
        let t = div32 (of_uint i) rate;
            sweep = mul32 (mul32 (sub32 (val32 f_end) (val32 f_start)) t) t;
            phase = mul32 two_pi (add32 (mul32 (val32 f_start) t) (div32 sweep (bits_of (mul32 (Finite 2) (val32 secs)))))
        in sinf phase))"

text \<open>The state of the generator of noise, and its samples.\<close>

definition xorshift :: "32 word \<Rightarrow> 32 word" where
  "xorshift s = (let s = s XOR push_bit 13 s; s = s XOR drop_bit 17 s in s XOR push_bit 5 s)"

definition noise_sample :: "32 word \<Rightarrow> f32" where
  "noise_sample s = bits32 (fl32 (fl32 (fl32 (fl32 (of_nat (unat s)) / fl32 (of_nat (unat (- 1 :: 32 word)))) * 2) - 1))"

definition white_noise_test :: "nat \<Rightarrow> f32 \<Rightarrow> stream_config \<Rightarrow> (f32 list, unit) result" where
  "white_noise_test um secs config =
     generate um secs config (\<lambda>i. noise_sample ((xorshift ^^ Suc i) 2463534242))"

definition silence :: "nat \<Rightarrow> f32 \<Rightarrow> stream_config \<Rightarrow> (f32 list, unit) result" where
  "silence um secs config =
     and_then (umul um (total_frames um secs config) (unat (channels config))) (\<lambda>n.
     and_then (alloc_f32 um n) (\<lambda>_. Ok (replicate n 0)))"

subsection \<open>Clicks\<close>

text \<open>\<open>for ch in 0..channels { buf[base + ch] = amp }\<close> under the test of the code.\<close>

definition write_frame :: "nat \<Rightarrow> rat \<Rightarrow> nat \<Rightarrow> f32 list \<Rightarrow> (f32 list, unit) result" where
  "write_frame ch amp frame buf =
     (let b = frame * ch in
      if b < length buf then
        (if b + ch \<le> length buf then Ok (take b buf @ replicate ch (bits32 amp) @ drop (b + ch) buf) else Panic)
      else Ok buf)"

fun phase :: "nat \<Rightarrow> (nat \<Rightarrow> rat) \<Rightarrow> nat \<Rightarrow> nat \<Rightarrow> f32 list \<Rightarrow> (f32 list, unit) result" where
  "phase ch amp start 0 buf = Ok buf"
| "phase ch amp start (Suc n) buf =
     and_then (phase ch amp start n buf) (\<lambda>buf. write_frame ch (amp n) (start + n) buf)"

definition attack_amp :: "nat \<Rightarrow> nat \<Rightarrow> rat" where
  "attack_amp attack i = fl32 (fl32 (of_nat i) / fl32 (of_nat attack))"

definition decay_amp :: "nat \<Rightarrow> nat \<Rightarrow> rat" where
  "decay_amp decay i = fl32 (1 - fl32 (fl32 (of_nat i) / fl32 (of_nat decay)))"

definition write_click :: "nat \<Rightarrow> nat \<Rightarrow> nat \<Rightarrow> nat \<Rightarrow> nat \<Rightarrow> nat \<Rightarrow> f32 list \<Rightarrow> (f32 list, unit) result" where
  "write_click um ch len attack decay beat buf =
     and_then (phase ch (attack_amp attack) beat (min attack (len - beat)) buf) (\<lambda>buf.
     and_then (uadd um beat attack) (\<lambda>start.
     phase ch (decay_amp decay) start (min decay (len - start)) buf))"

text \<open>The loop over the beats may run for ever, so it is a partial function.\<close>

partial_function (option) click_loop :: "nat \<Rightarrow> nat \<Rightarrow> nat \<Rightarrow> nat \<Rightarrow> nat \<Rightarrow> nat \<Rightarrow> nat \<Rightarrow> f32 list
    \<Rightarrow> (f32 list, unit) result option" where
  "click_loop um ch len attack decay interval beat buf =
     (if beat < len then
        (case and_then (write_click um ch len attack decay beat buf)
            (\<lambda>buf. map_ok (\<lambda>next. (next, buf)) (uadd um beat interval)) of
           Ok (next, buf) \<Rightarrow> click_loop um ch len attack decay interval next buf
         | Err e \<Rightarrow> Some (Err e)
         | Panic \<Rightarrow> Some Panic)
      else Some (Ok buf))"

definition beat_interval :: "nat \<Rightarrow> f32 \<Rightarrow> stream_config \<Rightarrow> nat" where
  "beat_interval um bpm config =
     to_usize um (div32 (mul32 (of_uint (unat (sample_rate config))) (Finite 60)) bpm)"

definition ms_frames :: "nat \<Rightarrow> rat \<Rightarrow> stream_config \<Rightarrow> nat" where
  "ms_frames um secs config = to_usize um (mul32 (of_uint (unat (sample_rate config))) (Finite (fl32 secs)))"

definition click_track :: "nat \<Rightarrow> f32 \<Rightarrow> f32 \<Rightarrow> stream_config \<Rightarrow> (f32 list, unit) result option" where
  "click_track um bpm secs config =
     (let len = total_frames um secs config; ch = unat (channels config) in
      case and_then (umul um len ch) (\<lambda>n. map_ok (\<lambda>_. replicate n 0) (alloc_f32 um n)) of
        Ok buf \<Rightarrow> click_loop um ch len (ms_frames um (1 / 1000) config) (ms_frames um (5 / 1000) config)
            (beat_interval um bpm config) 0 buf
      | Err e \<Rightarrow> Some (Err e)
      | Panic \<Rightarrow> Some Panic)"


subsection \<open>Lengths\<close>

lemma length_frames [simp]: "length (frames ch sample n) = n * ch"
  by (induction n) simp_all

lemma frames_0 [simp]: "frames 0 sample n = []"
  by (induction n) simp_all

lemma nth_frames: "c < ch \<Longrightarrow> f < n \<Longrightarrow> frames ch sample n ! (f * ch + c) = sample f"
proof (induction n)
  case (Suc n)
  have "f * ch + c < Suc f * ch" using Suc.prems by simp
  also have "Suc f * ch \<le> n * ch" if "f < n" using that by (intro mult_le_mono1) simp
  finally have "f < n \<Longrightarrow> f * ch + c < n * ch" by simp
  with Suc show ?case by (cases "f = n") (simp_all add: nth_append)
qed simp

lemma set_frames: "set (frames ch sample n) \<subseteq> sample ` {..<n}"
  by (induction n) (auto simp: set_replicate_conv_if)

lemma generate_cases:
  "generate um secs config sample =
     (let n = total_frames um secs config * unat (channels config)
      in if n \<le> um \<and> 4 * n \<le> um div 2 then Ok (frames (unat (channels config)) sample (total_frames um secs config)) else Panic)"
  by (auto simp: generate_def Let_def umul_def alloc_f32_def)

subsection \<open>Noise\<close>

lemma xorshift_zero: "xorshift s = 0 \<Longrightarrow> s = 0"
proof -
  have left: "x XOR push_bit n x = 0 \<Longrightarrow> 0 < n \<Longrightarrow> x = 0" for x :: "32 word" and n
  proof (rule bit_word_eqI)
    fix k
    assume z: "x XOR push_bit n x = 0" "0 < n" and "k < LENGTH(32)"
    have "\<not> bit x k" for k
    proof (induction k rule: less_induct)
      case (less k)
      have "bit (x XOR push_bit n x) k = False" using z by simp
      then show ?case using less [of "k - n"] z(2)
        by (cases "k < LENGTH(32)") (auto simp: bit_xor_iff bit_push_bit_iff dest: bit_imp_le_length)
    qed
    then show "bit x k = bit 0 k" by simp
  qed
  have right: "x XOR drop_bit n x = 0 \<Longrightarrow> 0 < n \<Longrightarrow> x = 0" for x :: "32 word" and n
  proof (rule bit_word_eqI)
    fix k
    assume z: "x XOR drop_bit n x = 0" "0 < n" and "k < LENGTH(32)"
    have "\<not> bit x (32 - j)" if "j \<le> 32" for j using that
    proof (induction j rule: less_induct)
      case (less j)
      have "bit (x XOR drop_bit n x) (32 - j) = False" using z by simp
      moreover have "\<not> bit x (32 - j + n)"
      proof (cases "n \<le> j")
        case True
        then have "32 - j + n = 32 - (j - n)" using less.prems by simp
        with less.IH [of "j - n"] z(2) True less.prems show ?thesis by simp
      next
        case False
        with less.prems have "32 \<le> 32 - j + n" by simp
        then show ?thesis using bit_imp_le_length [of x "32 - j + n"] by auto
      qed
      ultimately show ?case by (simp add: bit_xor_iff bit_drop_bit_eq add.commute)
    qed
    from this [of "32 - k"] show "bit x k = bit 0 k" using \<open>k < LENGTH(32)\<close> by simp
  qed
  show "xorshift s = 0 \<Longrightarrow> s = 0"
    unfolding xorshift_def Let_def by (blast dest: left right intro: zero_less_numeral)
qed

lemma noise_state: "(xorshift ^^ i) 2463534242 \<noteq> 0"
  by (induction i) (auto dest: xorshift_zero)

lemma fl32_unit: "0 \<le> q \<Longrightarrow> q \<le> of_nat (2 ^ k) \<Longrightarrow> k \<le> 23 \<Longrightarrow> 0 \<le> fl32 q \<and> fl32 q \<le> of_nat (2 ^ k)"
  using fl_mono [of q "of_nat (2 ^ k)" 23 8] fl_of_nat [of "2 ^ k" 23 8] power_increasing [of k 23 "2 :: nat"]
  by (simp add: fl_nonneg emin_def)

lemma val32_unit: "0 \<le> q \<Longrightarrow> q \<le> 1 \<Longrightarrow> val32 (bits32 q) = Finite (fl32 q)"
  by (rule val32_bits32) simp

lemma noise_range: "case val32 (noise_sample s) of Finite v \<Rightarrow> - 1 \<le> v \<and> v \<le> 1 | _ \<Rightarrow> False"
proof -
  define m where "m = fl32 (of_nat (unat (- 1 :: 32 word)))"
  define x y where "x = fl32 (fl32 (of_nat (unat s)) / m)" and "y = fl32 (x * 2)"
  have "unat s \<le> unat (- 1 :: 32 word)" by (simp flip: word_le_nat_alt)
  then have le: "fl32 (of_nat (unat s)) \<le> m" unfolding m_def by (intro fl_mono) (simp only: of_nat_le_iff)
  have "fl32 (of_nat 1) \<le> m" unfolding m_def by (intro fl_mono) (simp add: unsigned_minus_1_eq_mask mask_eq_exp_minus_1)
  then have "0 < m" using fl_of_nat [of 1 23 8] by (simp add: emin_def)
  with le have "0 \<le> fl32 (of_nat (unat s)) / m" "fl32 (of_nat (unat s)) / m \<le> 1"
    by (simp_all add: fl_nonneg)
  then have x: "0 \<le> x" "x \<le> 1" using fl32_unit [of "fl32 (of_nat (unat s)) / m" 0] by (simp_all add: x_def)
  then have y: "0 \<le> y" "y \<le> 2" using fl32_unit [of "x * 2" 1] by (simp_all add: y_def)
  have "fl32 1 = 1" using fl_of_nat [of 1 23 8] by (simp add: emin_def)
  then have "- 1 \<le> fl32 (y - 1)" "fl32 (y - 1) \<le> 1"
    using y fl_mono [of "- 1" "y - 1" 23 8] fl_mono [of "y - 1" 1 23 8] by (simp_all add: fl_minus)
  moreover have "noise_sample s = bits32 (fl32 (y - 1))"
    by (simp only: noise_sample_def x_def y_def m_def)
  ultimately show ?thesis by (simp add: val32_bits32)
qed

subsection \<open>Clicks\<close>

text \<open>The amplitude of a frame at a distance from the last beat.\<close>

definition click_amp :: "nat \<Rightarrow> nat \<Rightarrow> nat \<Rightarrow> rat" where
  "click_amp attack decay i =
     (if i < attack then attack_amp attack i else if i < attack + decay then decay_amp decay (i - attack) else 0)"

definition holds :: "f32 list \<Rightarrow> nat \<Rightarrow> nat \<Rightarrow> (nat \<Rightarrow> rat) \<Rightarrow> bool" where
  "holds buf ch len g \<longleftrightarrow> buf = frames ch (\<lambda>f. bits32 (g f)) len"

lemma frames_cong: "(\<And>f. f < n \<Longrightarrow> s f = s' f) \<Longrightarrow> frames ch s n = frames ch s' n"
  by (induction n) simp_all

lemma frames_add: "frames ch s (m + n) = frames ch s m @ frames ch (\<lambda>i. s (m + i)) n"
  by (induction n) simp_all

lemma write_frame_holds:
  assumes "holds buf ch len g" and "frame < len"
  shows "\<exists>buf'. write_frame ch a frame buf = Ok buf' \<and> holds buf' ch len (g(frame := a))"
proof -
  obtain r where len: "len = Suc frame + r" using assms(2) by (metis less_iff_Suc_add add_Suc)
  define s where "s g = (\<lambda>f. bits32 (g f :: rat))" for g :: "nat \<Rightarrow> rat"
  have split: "frames ch (s h) len = frames ch (s h) frame @ replicate ch (s h frame) @ frames ch (\<lambda>i. s h (Suc frame + i)) r" for h
    unfolding len frames_add by simp
  have buf: "buf = frames ch (s g) frame @ replicate ch (s g frame) @ frames ch (\<lambda>i. s g (Suc frame + i)) r"
    using assms(1) split [of g] by (simp add: holds_def s_def)
  have new: "frames ch (s (g(frame := a))) len = frames ch (s g) frame @ replicate ch (bits32 a) @ frames ch (\<lambda>i. s g (Suc frame + i)) r"
    unfolding split by (simp add: s_def cong: frames_cong)
  show ?thesis
  proof (cases "ch = 0")
    case True
    then show ?thesis using assms(1) new by (simp add: holds_def write_frame_def s_def Let_def)
  next
    case False
    have "write_frame ch a frame buf = Ok (frames ch (s g) frame @ replicate ch (bits32 a) @ frames ch (\<lambda>i. s g (Suc frame + i)) r)"
      using False by (simp add: write_frame_def Let_def buf)
    with new show ?thesis by (simp add: holds_def s_def)
  qed
qed

lemma holds_cong: "holds buf ch len g \<Longrightarrow> (\<And>f. f < len \<Longrightarrow> g f = h f) \<Longrightarrow> holds buf ch len h"
  by (auto simp: holds_def intro: frames_cong)

lemma phase_holds:
  "holds buf ch len g \<Longrightarrow> n = 0 \<or> start + n \<le> len \<Longrightarrow>
   \<exists>buf'. phase ch amp start n buf = Ok buf' \<and>
     holds buf' ch len (\<lambda>f. if start \<le> f \<and> f < start + n then amp (f - start) else g f)"
proof (induction n)
  case 0
  then show ?case by (auto intro: holds_cong)
next
  case (Suc n)
  then obtain b where b: "phase ch amp start n buf = Ok b"
    "holds b ch len (\<lambda>f. if start \<le> f \<and> f < start + n then amp (f - start) else g f)" by auto
  from write_frame_holds [OF b(2), of "start + n" "amp n"] Suc.prems obtain b' where
    b': "write_frame ch (amp n) (start + n) b = Ok b'"
    "holds b' ch len ((\<lambda>f. if start \<le> f \<and> f < start + n then amp (f - start) else g f)(start + n := amp n))" by auto
  have "holds b' ch len (\<lambda>f. if start \<le> f \<and> f < start + Suc n then amp (f - start) else g f)"
    by (rule holds_cong [OF b'(2)]) (auto simp: less_Suc_eq)
  with b b' show ?case by simp
qed

lemma write_click_holds:
  assumes "holds buf ch len g" and "beat < len"
  shows "case write_click um ch len attack decay beat buf of
      Ok buf' \<Rightarrow> beat + attack \<le> um \<and>
        holds buf' ch len (\<lambda>f. if beat \<le> f \<and> f < beat + attack + decay then click_amp attack decay (f - beat) else g f)
    | Err _ \<Rightarrow> False | Panic \<Rightarrow> um < beat + attack"
proof -
  have fits: "beat + min attack (len - beat) \<le> len" using assms(2) by arith
  have fits': "min decay (len - (beat + attack)) = 0 \<or> beat + attack + min decay (len - (beat + attack)) \<le> len"
    by arith
  obtain b where b: "phase ch (attack_amp attack) beat (min attack (len - beat)) buf = Ok b"
    "holds b ch len (\<lambda>f. if beat \<le> f \<and> f < beat + min attack (len - beat) then attack_amp attack (f - beat) else g f)"
    using phase_holds [OF assms(1), of "min attack (len - beat)" beat "attack_amp attack"] fits by auto
  obtain b' where b': "phase ch (decay_amp decay) (beat + attack) (min decay (len - (beat + attack))) b = Ok b'"
    "holds b' ch len (\<lambda>f. if beat + attack \<le> f \<and> f < beat + attack + min decay (len - (beat + attack))
       then decay_amp decay (f - (beat + attack))
       else if beat \<le> f \<and> f < beat + min attack (len - beat) then attack_amp attack (f - beat) else g f)"
    using phase_holds [OF b(2), of "min decay (len - (beat + attack))" "beat + attack" "decay_amp decay"] fits' by auto
  have "holds b' ch len (\<lambda>f. if beat \<le> f \<and> f < beat + attack + decay then click_amp attack decay (f - beat) else g f)"
    by (rule holds_cong [OF b'(2)]) (auto simp: click_amp_def)
  then show ?thesis
    by (auto simp: write_click_def b b' uadd_def)
qed

text \<open>The amplitudes after the first \<open>k\<close> beats.\<close>

definition after_beats :: "nat \<Rightarrow> nat \<Rightarrow> nat \<Rightarrow> nat \<Rightarrow> nat \<Rightarrow> rat" where
  "after_beats attack decay interval k f =
     (if k = 0 then 0 else click_amp attack decay (f - min (f div interval) (k - 1) * interval))"

lemma after_beats_Suc:
  assumes "0 < interval"
  shows "after_beats attack decay interval (Suc k) f =
    (if k * interval \<le> f \<and> f < k * interval + attack + decay then click_amp attack decay (f - k * interval)
     else after_beats attack decay interval k f)"
proof (cases "k * interval \<le> f")
  case True
  then have "k \<le> f div interval" using assms by (simp add: less_eq_div_iff_mult_less_eq)
  then have m: "min (f div interval) k = k" "min (f div interval) (k - 1) = k - 1" by simp_all
  have far: "click_amp attack decay i = 0" if "attack + decay \<le> i" for i
    using that by (simp add: click_amp_def)
  have "f - k * interval \<le> f - (k - 1) * interval" by (intro diff_le_mono2 mult_le_mono1) simp
  with True m far show ?thesis by (auto simp: after_beats_def)
next
  case False
  then have "f div interval < k" by (simp add: less_mult_imp_div_less not_le)
  then have "min (f div interval) k = f div interval" "min (f div interval) (k - 1) = f div interval" "k \<noteq> 0" by simp_all
  with False show ?thesis by (simp add: after_beats_def)
qed

lemma after_all_beats:
  assumes "0 < interval" and "len \<le> k * interval" and "f < len"
  shows "after_beats attack decay interval k f = click_amp attack decay (f mod interval)"
proof -
  have "f div interval < k" using assms by (intro less_mult_imp_div_less) simp
  then have "min (f div interval) (k - 1) = f div interval" "k \<noteq> 0" by simp_all
  then show ?thesis by (simp add: after_beats_def minus_div_mult_eq_mod)
qed

text \<open>The start of the last click, and whether the loop gets past it.\<close>

definition last_beat :: "nat \<Rightarrow> nat \<Rightarrow> nat" where
  "last_beat len interval = (len - 1) div interval * interval"

definition beats_fit :: "nat \<Rightarrow> nat \<Rightarrow> nat \<Rightarrow> nat \<Rightarrow> bool" where
  "beats_fit um len attack interval \<longleftrightarrow> (if len = 0 then True else last_beat len interval + max attack interval \<le> um)"

lemma beat_le_last:
  assumes "0 < interval" and "k * interval < len"
  shows "k * interval \<le> last_beat len interval"
proof -
  have "k * interval \<le> len - 1" using assms(2) by simp
  then have "k \<le> (len - 1) div interval" using assms(1) by (simp add: less_eq_div_iff_mult_less_eq)
  then show ?thesis unfolding last_beat_def by (rule mult_le_mono1)
qed

lemma last_beat_less: "0 < len \<Longrightarrow> last_beat len interval < len"
  using div_times_less_eq_dividend [of "len - 1" interval] unfolding last_beat_def by linarith

lemma last_beat_unique:
  assumes "0 < interval" and "k * interval < len" and "len \<le> Suc k * interval"
  shows "last_beat len interval = k * interval"
proof -
  have "(len - 1) div interval < Suc k" using assms by (intro less_mult_imp_div_less) simp
  moreover have "k \<le> (len - 1) div interval" using assms by (simp add: less_eq_div_iff_mult_less_eq)
  ultimately have "(len - 1) div interval = k" by simp
  then show ?thesis by (simp add: last_beat_def)
qed

lemma click_loop_holds:
  assumes "0 < interval"
  shows "holds buf ch len (after_beats attack decay interval k) \<Longrightarrow>
    case click_loop um ch len attack decay interval (k * interval) buf of
      None \<Rightarrow> False
    | Some (Ok buf') \<Rightarrow> holds buf' ch len (\<lambda>f. click_amp attack decay (f mod interval)) \<and>
        (if k * interval < len then beats_fit um len attack interval else True)
    | Some (Err _) \<Rightarrow> False
    | Some Panic \<Rightarrow> \<not> beats_fit um len attack interval"
proof (induction "len - k * interval" arbitrary: k buf rule: less_induct)
  case less
  show ?case
  proof (cases "k * interval < len")
    case False
    then have "holds buf ch len (\<lambda>f. click_amp attack decay (f mod interval))"
      using after_all_beats [OF assms, of len k] by (intro holds_cong [OF less.prems]) simp
    with False show ?thesis by (simp add: click_loop.simps)
  next
    case True
    note w = write_click_holds [OF less.prems True, where um = um and attack = attack and decay = decay]
    note last = beat_le_last [OF assms True]
    note loop = click_loop.simps [of um ch len attack decay interval "k * interval"]
    show ?thesis
    proof (cases "write_click um ch len attack decay (k * interval) buf")
      case (Ok b)
      with w have b: "holds b ch len (after_beats attack decay interval (Suc k))" and a: "k * interval + attack \<le> um"
        by (auto intro: holds_cong simp: after_beats_Suc [OF assms])
      show ?thesis
      proof (cases "k * interval + interval \<le> um")
        case fits: True
        have "len - Suc k * interval < len - k * interval" using True assms by simp
        note rest = less.hyps [OF this b]
        have "beats_fit um len attack interval" if "\<not> Suc k * interval < len"
          using last_beat_unique [OF assms True] that a fits by (simp add: beats_fit_def max_def)
        with rest show ?thesis
          using True Ok fits by (simp add: loop uadd_def add.commute split: option.splits result.splits if_splits)
      next
        case fits: False
        with last True have "\<not> beats_fit um len attack interval" by (auto simp: beats_fit_def)
        with True fits show ?thesis by (simp add: loop Ok uadd_def)
      qed
    next
      case (Err e)
      with w show ?thesis by simp
    next
      case Panic
      with w last True have "\<not> beats_fit um len attack interval" by (auto simp: beats_fit_def)
      with Panic True show ?thesis by (simp add: loop)
    qed
  qed
qed

text \<open>Without an interval the loop never ends (or overflows before).\<close>

lemma click_loop_stuck:
  assumes "click_loop um ch len attack decay interval beat buf = Some r"
  shows "interval = 0 \<longrightarrow> beat < len \<longrightarrow> (\<exists>g. holds buf ch len g) \<longrightarrow> r = Panic \<and> um < beat + attack"
proof (rule click_loop.raw_induct [OF _ assms, where P = "\<lambda>um ch len attack decay interval beat buf r.
    interval = 0 \<longrightarrow> beat < len \<longrightarrow> (\<exists>g. holds buf ch len g) \<longrightarrow> r = Panic \<and> um < beat + attack"], goal_cases)
  case (1 f um ch len attack decay interval beat buf r)
  show ?case
  proof (intro impI, elim exE)
    fix g
    assume i: "interval = 0" and b: "beat < len" and h: "holds buf ch len g"
    note w = write_click_holds [OF h b, where um = um and attack = attack and decay = decay]
    show "r = Panic \<and> um < beat + attack"
    proof (cases "write_click um ch len attack decay beat buf")
      case (Ok buf')
      with w have h': "\<exists>g. holds buf' ch len g" by auto
      show ?thesis
      proof (cases "beat \<le> um")
        case True
        with 1(2) Ok i b have "f um ch len attack decay interval beat buf' = Some r" by (simp add: uadd_def)
        from 1(1) [OF this] i b h' show ?thesis by blast
      next
        case False
        with 1(2) Ok i b show ?thesis by (auto simp: uadd_def)
      qed
    next
      case (Err e)
      with w show ?thesis by simp
    next
      case Panic
      with w 1(2) b show ?thesis by simp
    qed
  qed
qed

lemma ms_frames_le: "ms_frames um (1 / 1000) config \<le> 2 ^ 23"
proof -
  have exact: "fl32 (of_int 1 * 2 powi k) = of_int 1 * 2 powi k" if "- 126 \<le> k" for k
    using that by (intro fl_exact) (simp_all add: emin_def)
  have "unat (sample_rate config) \<le> 2 ^ 32"
    using unsigned_less [of "sample_rate config", where 'a = nat] by (simp add: less_imp_le)
  then have "rat_of_nat (unat (sample_rate config)) \<le> of_nat (2 ^ 32)" by (simp only: of_nat_le_iff)
  then have "fl32 (of_nat (unat (sample_rate config))) \<le> fl32 (2 powi 32)" by (intro fl_mono) simp
  then have r: "fl32 (of_nat (unat (sample_rate config))) \<le> 2 ^ 32" using exact [of 32] by simp
  have "fl32 (1 / 1000) \<le> fl32 (2 powi -9)" by (intro fl_mono) simp
  then have "fl32 (1 / 1000) \<le> 1 / 512" using exact [of "-9"] by simp
  with r have p: "fl32 (of_nat (unat (sample_rate config))) * fl32 (1 / 1000) \<le> 2 ^ 32 * (1 / 512)"
    by (intro mult_mono) (simp_all add: fl_nonneg)
  moreover have nn: "0 \<le> fl32 (of_nat (unat (sample_rate config))) * fl32 (1 / 1000)" by (simp add: fl_nonneg)
  moreover have "fl32 (2 ^ 23) = 2 ^ 23" using exact [of 23] by simp
  ultimately have "fl32 (fl32 (of_nat (unat (sample_rate config))) * fl32 (1 / 1000)) \<le> 2 ^ 23"
    using fl_mono [of "fl32 (of_nat (unat (sample_rate config))) * fl32 (1 / 1000)" "2 ^ 23" 23 8] by simp
  then have "trunc (fl32 (fl32 (of_nat (unat (sample_rate config))) * fl32 (1 / 1000))) \<le> 2 ^ 23"
    using fl_nonneg [OF nn, of 23 8] by (simp add: trunc_def floor_le_iff)
  then show ?thesis
    using p nn by (simp add: ms_frames_def to_usize_def of_uint_def round32_small)
qed

text \<open>With a channel and a \<open>usize\<close> of 32 bits a buffer that can be allocated is short enough.\<close>

lemma click_overflow:
  assumes "\<not> beats_fit um len attack interval" and "interval \<le> um" and "4 * (len * ch) \<le> um div 2"
    and "attack \<le> 2 ^ 23"
  shows "ch = 0 \<or> um < 2 ^ 32 - 1"
proof (cases "ch = 0")
  case False
  then have "len \<le> len * ch" by simp
  with assms(3) have len: "8 * len \<le> um" by linarith
  have "0 < len" "um < last_beat len interval + max attack interval"
    using assms(1) by (auto simp: beats_fit_def split: if_splits)
  moreover have "last_beat len interval = 0" if "len \<le> interval"
    using that \<open>0 < len\<close> by (simp add: last_beat_def)
  moreover have "last_beat len interval < len" using \<open>0 < len\<close> by (rule last_beat_less)
  ultimately have "um < 2 ^ 32 - 1"
    using assms(2,4) len by (cases "len \<le> interval"; cases "attack \<le> interval") auto
  then show ?thesis by simp
qed simp

text \<open>The tempos that leave no interval: NaN, an infinity, a negative number.\<close>

lemma beat_interval_zero:
  assumes "val32 bpm = NotANumber \<or> val32 bpm = Infinite s \<or> negative (val32 bpm)"
  shows "beat_interval um bpm config = 0"
proof -
  define r where "r = fl32 (of_nat (unat (sample_rate config)))"
  obtain v where v: "mul32 (of_uint (unat (sample_rate config))) (Finite 60) = v" "v = Infinite False \<or> (\<exists>q. v = Finite q \<and> 0 \<le> q)"
    using fl_nonneg [of "r * 60" 23 8] fl_nonneg [of "of_nat (unat (sample_rate config))" 23 8]
    by (auto simp: of_uint_def round32_def Let_def r_def not_less)
  have neg: "to_usize um (round32 (p / q)) = 0" if "0 \<le> p" "q < 0" for p q
  proof -
    have "p / q \<le> 0" using that by (simp add: divide_nonneg_neg)
    then have "fl32 (p / q) \<le> 0" using fl_mono [of "p / q" 0 23 8] by simp
    then show ?thesis by (cases "fl32 (p / q) = 0") (auto simp: round32_def to_usize_def trunc_def Let_def min_le_iff_disj)
  qed
  have bit: "bit bpm 31" if "val32 bpm = Finite q" "q < 0" for q
  proof (rule ccontr)
    assume "\<not> bit bpm 31"
    then have "\<not> bit (unat bpm) 31" by (simp add: bit_unsigned_iff)
    then have "even (unat bpm div 2 ^ 31)" by (simp add: bit_iff_odd [of "unat bpm"])
    with that show False
      using unpack_mag_nonneg [of 23 8] by (auto simp: val32_def unpack_def Let_def not_less [symmetric] split: if_splits)
  qed
  show ?thesis
    using assms v neg bit
    by (auto simp: beat_interval_def div32_def negative_def to_usize_def split: fval.splits)
qed

text \<open>Noise has the length of the others, and its samples lie between \<open>-1\<close> and \<open>1\<close>.\<close>

lemma white_noise_range:
  "case white_noise_test um secs config of
     Ok buf \<Rightarrow> length buf = total_frames um secs config * unat (channels config) \<and>
       list_all (\<lambda>s. case val32 s of Finite v \<Rightarrow> - 1 \<le> v \<and> v \<le> 1 | _ \<Rightarrow> False) buf
   | Err _ \<Rightarrow> False
   | Panic \<Rightarrow> um div 2 < 4 * (total_frames um secs config * unat (channels config))"
proof -
  have "list_all (\<lambda>s. case val32 s of Finite v \<Rightarrow> - 1 \<le> v \<and> v \<le> 1 | _ \<Rightarrow> False)
      (frames ch (\<lambda>i. noise_sample (g i)) n)" for ch n and g :: "nat \<Rightarrow> 32 word"
    using set_frames [of ch "\<lambda>i. noise_sample (g i)" n] noise_range by (fastforce simp: list_all_iff)
  then show ?thesis
    by (auto simp: white_noise_test_def generate_cases Let_def)
qed

subsection \<open>Properties\<close>

text \<open>
  C40: The click track, on every outcome. It panics at once exactly when the buffer needs more than
  \<open>isize::MAX\<close> bytes. Otherwise it never returns exactly when the interval between the beats rounds to no frames (as it does for a tempo
  that is negative, NaN or infinite) and there are frames; it panics exactly when \<open>usize\<close> cannot hold the last
  beat plus its attack or plus the interval, which takes a stream without channels or a \<open>usize\<close> below 32 bits; and else it
  returns a buffer with a click at every multiple of the interval: a linear attack and then a linear decay (the
  documentation says exponential), cut off by the next click.
\<close>

theorem click_track_spec:
  "let len = total_frames um secs config; ch = unat (channels config); interval = beat_interval um bpm config;
       attack = ms_frames um (1 / 1000) config; decay = ms_frames um (5 / 1000) config;
       allocates = (4 * (len * ch) \<le> um div 2)
   in case click_track um bpm secs config of
        None \<Rightarrow> allocates \<and> interval = 0 \<and> 0 < len
      | Some (Ok buf) \<Rightarrow> allocates \<and> beats_fit um len attack interval \<and> (if interval = 0 then len = 0 else True) \<and>
          buf = frames ch (\<lambda>f. bits32 (click_amp attack decay (f mod interval))) len
      | Some (Err _) \<Rightarrow> False
      | Some Panic \<Rightarrow>
          (if allocates then 0 < interval \<and> \<not> beats_fit um len attack interval \<and> (ch = 0 \<or> um < 2 ^ 32 - 1) else True)"
proof -
  define len ch interval attack decay where len: "len = total_frames um secs config" and ch: "ch = unat (channels config)"
    and interval: "interval = beat_interval um bpm config"
    and attack: "attack = ms_frames um (1 / 1000) config" and decay: "decay = ms_frames um (5 / 1000) config"
  note names = len ch interval attack decay
  have le: "interval \<le> um" "attack \<le> um" by (simp_all add: names beat_interval_def ms_frames_def to_usize_le)
  show ?thesis
  proof (cases "4 * (len * ch) \<le> um div 2")
    case False
    then show ?thesis by (auto simp: click_track_def Let_def umul_def alloc_f32_def names)
  next
    case True
    define loop where "loop = click_loop um ch len attack decay interval 0 (replicate (len * ch) 0)"
    have loop: "click_track um bpm secs config = loop"
      using True by (auto simp: click_track_def Let_def umul_def alloc_f32_def loop_def names)
    have "replicate (len * ch) 0 = frames ch (\<lambda>f. bits32 0) len"
      by (induction len) (simp_all add: bits32_def pack_def pack_mag_def replicate_add add.commute [of ch])
    then have start: "holds (replicate (len * ch) 0) ch len (after_beats attack decay interval 0)"
      by (simp add: holds_def after_beats_def)
    have small: "ch = 0 \<or> um < 2 ^ 32 - 1" if "\<not> beats_fit um len attack interval"
      using click_overflow [OF that le(1) True] ms_frames_le [of um config] by (simp add: attack)
    have "case loop of
        None \<Rightarrow> interval = 0 \<and> 0 < len
      | Some (Ok buf) \<Rightarrow> beats_fit um len attack interval \<and> (if interval = 0 then len = 0 else True) \<and>
          buf = frames ch (\<lambda>f. bits32 (click_amp attack decay (f mod interval))) len
      | Some (Err _) \<Rightarrow> False
      | Some Panic \<Rightarrow> 0 < interval \<and> \<not> beats_fit um len attack interval"
    proof (cases "0 < interval")
      case pos: True
      from click_loop_holds [OF pos start, of um] pos show ?thesis
        by (auto simp: loop_def holds_def beats_fit_def split: option.splits result.splits if_splits)
    next
      case zero: False
      show ?thesis
      proof (cases loop)
        case (Some r)
        show ?thesis
        proof (cases "0 < len")
          case True
          with click_loop_stuck [OF Some [unfolded loop_def]] zero start le show ?thesis by auto
        qed (use Some zero in \<open>auto simp: loop_def click_loop.simps beats_fit_def\<close>)
      next
        case None
        have "0 < len"
        proof (rule ccontr)
          assume "\<not> 0 < len"
          with None show False by (simp add: loop_def click_loop.simps)
        qed
        with None zero show ?thesis by simp
      qed
    qed
    with True small show ?thesis
      unfolding Let_def loop names [symmetric] by (auto split: option.splits result.splits if_splits)
  qed
qed

end
