(* ===== verification/Smf_Timing.thy ===== *)
theory Smf_Timing
  imports Smf_Types Core_Types Ieee_Order
begin

text \<open>
  The tempo map of a MIDI file (\<open>crates/oxisound-smf/src/timing.rs\<close>). Tick positions are
  \<open>u64\<close> values; their additions panic on overflow. The seconds are \<open>f64\<close> values that never
  overflow, so they are rational numbers, and every operation on them is rounded by \<open>fl64\<close>.
\<close>

record tempo_entry =
  te_tick :: nat
  te_tempo_us :: "32 word"

record tempo_map =
  tm_entries :: "tempo_entry list"
  tm_ticks_per_beat :: "16 word"

abbreviation u64_max :: nat where "u64_max \<equiv> 2 ^ 64 - 1"

text \<open>The loop that adds up the delta times of a track; the player has the same one.\<close>

fun absolute_ticks :: "nat \<Rightarrow> track_event list \<Rightarrow> ((nat \<times> smf_event) list, oxi_error) result" where
  "absolute_ticks abs_tick [] = Ok []"
| "absolute_ticks abs_tick (e # es) =
     and_then (uadd u64_max abs_tick (unat (delta_ticks e))) (\<lambda>abs_tick.
     map_ok (Cons (abs_tick, ev e)) (absolute_ticks abs_tick es))"

fun tempos_of :: "(nat \<times> smf_event) list \<Rightarrow> (nat \<times> 32 word) list" where
  "tempos_of [] = []"
| "tempos_of ((t, Tempo us) # es) = (t, us) # tempos_of es"
| "tempos_of (_ # es) = tempos_of es"

fun collect_tempos :: "smf_track list \<Rightarrow> ((nat \<times> 32 word) list, oxi_error) result" where
  "collect_tempos [] = Ok []"
| "collect_tempos (tr # trs) =
     and_then (absolute_ticks 0 (track_events tr)) (\<lambda>es.
     map_ok (append (tempos_of es)) (collect_tempos trs))"

text \<open>\<open>dedup_by\<close> with the closure of the code: of equal ticks the first entry stays, with the later tempo.\<close>

fun dedup_tempos :: "(nat \<times> 32 word) list \<Rightarrow> (nat \<times> 32 word) list" where
  "dedup_tempos ((t, us) # (t', us') # xs) =
     (if t' = t then dedup_tempos ((t, us') # xs) else (t, us) # dedup_tempos ((t', us') # xs))"
| "dedup_tempos xs = xs"

definition tempo_entries :: "(nat \<times> 32 word) list \<Rightarrow> tempo_entry list" where
  "tempo_entries raw =
     (if (case raw of [] \<Rightarrow> True | (pos, _) # _ \<Rightarrow> pos \<noteq> 0) then [\<lparr>te_tick = 0, te_tempo_us = 500000\<rparr>] else [])
     @ map (\<lambda>(pos, us). \<lparr>te_tick = pos, te_tempo_us = us\<rparr>) raw"

definition from_file :: "smf_file \<Rightarrow> (tempo_map, oxi_error) result" where
  "from_file file =
     (case file_division file of
        Smpte _ _ \<Rightarrow> Ok \<lparr>tm_entries = [], tm_ticks_per_beat = 0\<rparr>
      | TicksPerBeat t \<Rightarrow>
          map_ok (\<lambda>raw. \<lparr>tm_entries = tempo_entries (dedup_tempos (sort_key fst raw)), tm_ticks_per_beat = t\<rparr>)
            (collect_tempos (file_tracks file)))"

definition ticks_to_seconds :: "nat \<Rightarrow> 32 word \<Rightarrow> 16 word \<Rightarrow> rat" where
  "ticks_to_seconds ticks tempo_us ticks_per_beat =
     (if ticks_per_beat = 0 then 0
      else fl64 (fl64 (fl64 (of_nat ticks) * of_nat (unat tempo_us))
                 / fl64 (of_nat (unat ticks_per_beat) * 1000000)))"

text \<open>The subtractions are of \<open>u64\<close> values and panic below zero.\<close>

definition usub :: "nat \<Rightarrow> nat \<Rightarrow> (nat, oxi_error) result" where
  "usub a b = (if b \<le> a then Ok (a - b) else Panic)"

fun walk_segments :: "16 word \<Rightarrow> nat \<Rightarrow> tempo_entry list \<Rightarrow> rat \<Rightarrow> nat \<Rightarrow> 32 word
    \<Rightarrow> (rat \<times> nat \<times> 32 word, oxi_error) result" where
  "walk_segments tpb pos [] secs prev us = Ok (secs, prev, us)"
| "walk_segments tpb pos (e # es) secs prev us =
     (if pos \<le> te_tick e then Ok (secs, prev, us)
      else and_then (usub (te_tick e) prev) (\<lambda>span.
        walk_segments tpb pos es (fl64 (secs + ticks_to_seconds span us tpb)) (te_tick e) (te_tempo_us e)))"

definition tick_to_secs :: "tempo_map \<Rightarrow> nat \<Rightarrow> (rat, oxi_error) result" where
  "tick_to_secs m pos =
     (if tm_ticks_per_beat m = 0 \<or> tm_entries m = [] then Ok 0
      else and_then (walk_segments (tm_ticks_per_beat m) pos (tm_entries m) 0 0 500000) (\<lambda>(secs, prev, us).
        and_then (usub pos prev) (\<lambda>span.
        Ok (fl64 (secs + ticks_to_seconds span us (tm_ticks_per_beat m))))))"

subsection \<open>The entries\<close>

text \<open>A map as \<open>from_file\<close> builds it: the first entry is at tick 0 and the ticks increase.\<close>

fun ascending :: "tempo_entry list \<Rightarrow> bool" where
  "ascending (d # e # es) \<longleftrightarrow> te_tick d < te_tick e \<and> ascending (e # es)"
| "ascending es \<longleftrightarrow> True"

definition map_ok_for :: "tempo_map \<Rightarrow> bool" where
  "map_ok_for m \<longleftrightarrow> tm_ticks_per_beat m = 0 \<or> tm_entries m = [] \<or>
     te_tick (hd (tm_entries m)) = 0 \<and> ascending (tm_entries m)"

lemma dedup_hd: "xs \<noteq> [] \<Longrightarrow> dedup_tempos xs \<noteq> [] \<and> fst (hd (dedup_tempos xs)) = fst (hd xs)"
  by (induction xs rule: dedup_tempos.induct) auto

lemma dedup_strict: "sorted (map fst xs) \<Longrightarrow> sorted_wrt (<) (map fst (dedup_tempos xs))"
proof (induction xs rule: dedup_tempos.induct)
  case (1 t us t' us' xs)
  show ?case
  proof (cases "t' = t")
    case True
    with 1 show ?thesis by simp
  next
    case False
    with 1 have s: "sorted_wrt (<) (map fst (dedup_tempos ((t', us') # xs)))" "t < t'" by auto
    obtain a b ys where ys: "dedup_tempos ((t', us') # xs) = (a, b) # ys" and "a = t'"
      using dedup_hd [of "(t', us') # xs"] by (cases "dedup_tempos ((t', us') # xs)") auto
    with s False show ?thesis by (auto intro: less_trans)
  qed
qed auto

lemma ascending_map:
  "ascending (map (\<lambda>(t, us). \<lparr>te_tick = t, te_tempo_us = us\<rparr>) raw) \<longleftrightarrow> sorted_wrt (<) (map fst raw)"
proof (induction raw)
  case (Cons a raw)
  then show ?case by (cases a; cases raw) (auto intro: less_trans)
qed simp

lemma tempo_entries_ok:
  assumes "sorted_wrt (<) (map fst raw)"
  shows "te_tick (hd (tempo_entries raw)) = 0 \<and> ascending (tempo_entries raw)"
proof (cases raw)
  case (Cons a xs)
  with assms ascending_map [of raw] show ?thesis by (cases a) (auto simp: tempo_entries_def)
qed (simp add: tempo_entries_def)

lemma from_file_ok: "from_file file = Ok m \<Longrightarrow> map_ok_for m"
  using tempo_entries_ok [OF dedup_strict [OF sorted_sort_key]]
  by (auto simp: from_file_def map_ok_for_def split: division.splits)

subsection \<open>Seconds grow with ticks\<close>

lemma seconds_nonneg [simp]: "0 \<le> ticks_to_seconds n us tpb"
  by (simp add: ticks_to_seconds_def fl_nonneg)

lemma seconds_mono: "m \<le> n \<Longrightarrow> ticks_to_seconds m us tpb \<le> ticks_to_seconds n us tpb"
  by (auto simp: ticks_to_seconds_def intro!: fl_mono divide_right_mono mult_right_mono fl_nonneg)

lemma seconds_fl [simp]: "fl64 (ticks_to_seconds n us tpb) = ticks_to_seconds n us tpb"
  by (simp add: ticks_to_seconds_def fl_idem fl_nonneg)

text \<open>The time at a pos when the walk starts from a segment: what the loop and the last step compute.\<close>

fun secs_from :: "16 word \<Rightarrow> nat \<Rightarrow> tempo_entry list \<Rightarrow> rat \<Rightarrow> nat \<Rightarrow> 32 word \<Rightarrow> rat" where
  "secs_from tpb pos [] secs prev us = fl64 (secs + ticks_to_seconds (pos - prev) us tpb)"
| "secs_from tpb pos (e # es) secs prev us =
     (if pos \<le> te_tick e then fl64 (secs + ticks_to_seconds (pos - prev) us tpb)
      else secs_from tpb pos es (fl64 (secs + ticks_to_seconds (te_tick e - prev) us tpb)) (te_tick e) (te_tempo_us e))"

definition starts_after :: "nat \<Rightarrow> tempo_entry list \<Rightarrow> bool" where
  "starts_after prev es \<longleftrightarrow> ascending es \<and> (case es of [] \<Rightarrow> True | e # _ \<Rightarrow> prev \<le> te_tick e)"

lemma starts_after_Cons [simp]:
  "starts_after prev (e # es) \<longleftrightarrow> prev \<le> te_tick e \<and> ascending (e # es)"
  by (auto simp: starts_after_def)

lemma starts_after_Nil [simp]: "starts_after prev []"
  by (simp add: starts_after_def)

lemma starts_after_next: "ascending (e # es) \<Longrightarrow> starts_after (te_tick e) es"
  by (cases es) auto

lemma walk_is_secs_from:
  "starts_after prev es \<Longrightarrow> prev \<le> pos \<Longrightarrow>
   and_then (walk_segments tpb pos es secs prev us) (\<lambda>(secs, prev, us).
     and_then (usub pos prev) (\<lambda>span. Ok (fl64 (secs + ticks_to_seconds span us tpb))))
   = Ok (secs_from tpb pos es secs prev us)"
proof (induction tpb pos es secs prev us rule: secs_from.induct)
  case (2 tpb pos e es secs prev us)
  then show ?case
    using starts_after_next [of e es] by (auto simp: usub_def)
qed (simp add: usub_def)

definition secs_at :: "tempo_map \<Rightarrow> nat \<Rightarrow> rat" where
  "secs_at m pos = (if tm_ticks_per_beat m = 0 \<or> tm_entries m = [] then 0
     else secs_from (tm_ticks_per_beat m) pos (tm_entries m) 0 0 500000)"

lemma map_ok_starts:
  assumes "map_ok_for m" and "tm_ticks_per_beat m \<noteq> 0" and "tm_entries m \<noteq> []"
  shows "starts_after 0 (tm_entries m)"
  using assms by (cases "tm_entries m") (auto simp: map_ok_for_def)

lemma tick_to_secs_alt:
  assumes "map_ok_for m"
  shows "tick_to_secs m pos = Ok (secs_at m pos)"
proof (cases "tm_ticks_per_beat m = 0 \<or> tm_entries m = []")
  case False
  with assms map_ok_starts have "starts_after 0 (tm_entries m)" by simp
  from walk_is_secs_from [OF this, where pos = pos and us = 500000 and secs = 0] False show ?thesis
    by (simp add: tick_to_secs_def secs_at_def)
qed (auto simp: tick_to_secs_def secs_at_def)

lemma secs_from_ge:
  assumes "fl64 secs = secs"
  shows "secs \<le> secs_from tpb pos es secs prev us"
  using assms
proof (induction tpb pos es secs prev us rule: secs_from.induct)
  case (1 tpb pos secs prev us)
  have "fl64 secs \<le> fl64 (secs + ticks_to_seconds (pos - prev) us tpb)" by (intro fl_mono) simp
  with 1 show ?case by simp
next
  case (2 tpb pos e es secs prev us)
  have le: "secs \<le> fl64 (secs + ticks_to_seconds k us tpb)" for k
    using fl_mono [of secs "secs + ticks_to_seconds k us tpb" 52 11] 2(2) by simp
  show ?case
  proof (cases "pos \<le> te_tick e")
    case True
    with le [of "pos - prev"] show ?thesis by simp
  next
    case False
    with 2(1) [OF False] le [of "te_tick e - prev"] show ?thesis by simp
  qed
qed

lemma secs_from_mono:
  assumes "a \<le> b" and "starts_after prev es" and "fl64 secs = secs"
  shows "secs_from tpb a es secs prev us \<le> secs_from tpb b es secs prev us"
  using assms
proof (induction tpb b es secs prev us rule: secs_from.induct)
  case (1 tpb b secs prev us)
  then show ?case by (auto intro!: fl_mono seconds_mono)
next
  case (2 tpb b e es secs prev us)
  define next_secs where "next_secs = fl64 (secs + ticks_to_seconds (te_tick e - prev) us tpb)"
  consider "b \<le> te_tick e" | "a \<le> te_tick e" "te_tick e < b" | "te_tick e < a"
    by linarith
  then show ?case
  proof cases
    case 1
    with 2(2) show ?thesis by (auto intro!: fl_mono seconds_mono)
  next
    case 2
    have "fl64 (secs + ticks_to_seconds (a - prev) us tpb) \<le> next_secs"
      unfolding next_secs_def using 2 by (intro fl_mono add_left_mono seconds_mono) simp
    also have "\<dots> \<le> secs_from tpb b es next_secs (te_tick e) (te_tempo_us e)"
      by (intro secs_from_ge) (simp add: next_secs_def)
    finally show ?thesis using 2 by (simp add: next_secs_def)
  next
    case 3
    with 2 starts_after_next [of e es] show ?thesis by (simp add: next_secs_def)
  qed
qed

lemma secs_at_mono: "map_ok_for m \<Longrightarrow> a \<le> b \<Longrightarrow> secs_at m a \<le> secs_at m b"
  using map_ok_starts by (simp add: secs_at_def secs_from_mono)

lemma secs_at_nonneg: "0 \<le> secs_at m pos"
  using secs_from_ge [of 0] by (simp add: secs_at_def)

end
