(* ===== verification/Ieee_Approx.thy ===== *)
theory Ieee_Approx
  imports Ieee_Order
begin

text \<open>
  How far a result is from the exact one after a number of roundings, for computations with non-negative numbers.
\<close>

subsection \<open>Approximations\<close>

text \<open>
  \<open>approx n x y\<close>: \<open>x\<close> is \<open>y\<close> after at most \<open>n\<close> roundings on the way, none of them to a subnormal number.
\<close>

abbreviation unit_roundoff :: rat where "unit_roundoff \<equiv> 1 / 2 ^ 53"

definition normal :: "rat \<Rightarrow> bool" where
  "normal x \<longleftrightarrow> x = 0 \<or> 1 / 2 ^ 100 \<le> x"

definition approx :: "nat \<Rightarrow> rat \<Rightarrow> rat \<Rightarrow> bool" where
  "approx n x y \<longleftrightarrow> 0 \<le> y \<and> normal x \<and>
     y * (1 - unit_roundoff) ^ n \<le> x \<and> x \<le> y * (1 + unit_roundoff) ^ n"

lemma emin_64: "emin 11 = -1022"
  by (simp add: emin_def)

lemma small_powi: "(2 :: rat) powi -1022 \<le> 1 / 2 ^ 100"
proof -
  have "(2 :: rat) powi -1022 \<le> 2 powi -100" by (rule powi_mono) simp
  then show ?thesis by (simp add: power_int_minus_left)
qed

lemma normal_fl:
  assumes "normal x"
  shows "normal (fl64 x)"
proof (cases "x = 0")
  case False
  with assms have "1 / 2 ^ 100 \<le> x" by (simp add: normal_def)
  then have "fl64 (1 / 2 ^ 100) \<le> fl64 x" by (rule fl_mono)
  moreover have "fl64 (of_int 1 * 2 powi -100) = of_int 1 * 2 powi -100"
    by (rule fl_exact) (simp_all add: emin_64)
  then have "fl64 (1 / 2 ^ 100) = 1 / 2 ^ 100" by (simp add: power_int_minus_left)
  ultimately show ?thesis by (simp add: normal_def)
qed (simp add: normal_def)

lemma approx_fl:
  assumes "approx n x y"
  shows "approx (Suc n) (fl64 x) y"
proof (cases "x = 0")
  case True
  with assms have "y * (1 - unit_roundoff) ^ n \<le> 0" "0 \<le> y" by (auto simp: approx_def)
  moreover have "(0 :: rat) < (1 - unit_roundoff) ^ n" by (intro zero_less_power) simp
  ultimately have "y = 0" unfolding mult_le_0_iff by linarith
  with True show ?thesis by (simp add: approx_def normal_def)
next
  case False
  with assms have big: "1 / 2 ^ 100 \<le> x" and y: "0 \<le> y"
    and lo: "y * (1 - unit_roundoff) ^ n \<le> x" and hi: "x \<le> y * (1 + unit_roundoff) ^ n"
    by (auto simp: approx_def normal_def)
  have nrm: "2 powi emin 11 \<le> x" using big small_powi by (simp add: emin_64)
  have "y * (1 - unit_roundoff) ^ n * (1 - unit_roundoff) \<le> x * (1 - unit_roundoff)"
    using lo by (intro mult_right_mono) simp_all
  moreover have "x * (1 + unit_roundoff) \<le> y * (1 + unit_roundoff) ^ n * (1 + unit_roundoff)"
    using hi by (intro mult_right_mono) simp_all
  ultimately show ?thesis
    using fl_relative [OF nrm, of 52] normal_fl [of x] big y
    by (auto simp: approx_def normal_def power_Suc2 mult.assoc simp del: power_Suc)
qed

lemma approx_mono:
  assumes "approx m x y" and "m \<le> n"
  shows "approx n x y"
proof -
  have "(1 - unit_roundoff) ^ n \<le> (1 - unit_roundoff) ^ m"
    using assms(2) by (intro power_decreasing) simp_all
  moreover have "(1 + unit_roundoff) ^ m \<le> (1 + unit_roundoff) ^ n"
    using assms(2) by (intro power_increasing) simp_all
  ultimately have "y * (1 - unit_roundoff) ^ n \<le> y * (1 - unit_roundoff) ^ m"
    "y * (1 + unit_roundoff) ^ m \<le> y * (1 + unit_roundoff) ^ n"
    using assms(1) by (auto simp: approx_def intro: mult_left_mono)
  with assms(1) show ?thesis by (auto simp: approx_def)
qed

lemma approx_add:
  assumes "approx n x y" and "approx n u v"
  shows "approx n (x + u) (y + v)"
  using assms by (auto simp: approx_def normal_def distrib_right)

lemma approx_exact: "normal y \<Longrightarrow> 0 \<le> y \<Longrightarrow> approx 0 y y"
  by (simp add: approx_def)

lemma approx_times:
  assumes "approx n x y" and "0 \<le> c" and "normal (x * c)"
  shows "approx n (x * c) (y * c)"
proof -
  have "y * (1 - unit_roundoff) ^ n * c \<le> x * c" "x * c \<le> y * (1 + unit_roundoff) ^ n * c"
    using assms by (auto simp: approx_def intro: mult_right_mono)
  with assms show ?thesis by (simp add: approx_def mult_ac)
qed


lemma normal_of_nat [simp]: "normal (of_nat n)"
  by (cases n) (auto simp: normal_def intro: order_trans [of _ 1])

lemma fl64_1 [simp]: "fl64 1 = 1"
  using fl_of_nat [of 1 52 11] by (simp add: emin_64)

subsection \<open>Quotients\<close>

lemma pow_inverse_bound: "(1 - unit_roundoff) ^ n * (1 + unit_roundoff) ^ n \<le> 1"
proof -
  have "(1 - unit_roundoff) * (1 + unit_roundoff) \<le> (1 :: rat)" by simp
  then have "((1 - unit_roundoff) * (1 + unit_roundoff)) ^ n \<le> 1" by (intro power_le_one) simp_all
  then show ?thesis by (simp only: power_mult_distrib)
qed

lemma inverse_roundoff: "1 \<le> (1 - unit_roundoff) ^ n * (1 + unit_roundoff) ^ (2 * n)"
proof -
  have "1 \<le> (1 - unit_roundoff) * (1 + unit_roundoff) ^ 2" by (simp add: power2_eq_square)
  then have "1 \<le> ((1 - unit_roundoff) * (1 + unit_roundoff) ^ 2) ^ n" by (rule one_le_power)
  then show ?thesis by (simp only: power_mult_distrib power_mult)
qed

lemma quotient_bounds:
  fixes d u v :: rat
  assumes "y * d \<le> x" and "x \<le> y * u" and "0 < y" and "0 < d" and "0 \<le> c"
    and "v * u \<le> 1" and "1 \<le> d * w" and "0 \<le> v" and "0 \<le> w"
  shows "c / y * v \<le> c / x" and "c / x \<le> c / y * w"
proof -
  have x: "0 < x" using assms(1,3,4) by (meson less_le_trans mult_pos_pos)
  have "x * v \<le> y * u * v" using assms by (intro mult_right_mono)
  also have "\<dots> = y * (v * u)" by (simp add: mult_ac)
  also have "\<dots> \<le> y * 1" using assms by (intro mult_left_mono) simp_all
  finally have "c * (x * v) \<le> c * y" using assms(5) by (simp add: mult_left_mono)
  then show "c / y * v \<le> c / x" using x assms(3) by (simp add: field_simps)
  have "y * 1 \<le> y * (d * w)" using assms by (intro mult_left_mono) simp_all
  also have "\<dots> = y * d * w" by (simp add: mult_ac)
  also have "\<dots> \<le> x * w" using assms by (intro mult_right_mono)
  finally have "c * y \<le> c * (x * w)" using assms(5) by (simp add: mult_left_mono)
  then show "c / x \<le> c / y * w" using x assms(3) by (simp add: field_simps)
qed

text \<open>A quotient by an approximation counts each of its roundings twice.\<close>

lemma approx_quotient:
  assumes "approx n x y" and "0 < y" and "0 \<le> c" and "normal (c / x)"
  shows "approx (2 * n) (c / x) (c / y)"
proof -
  have "(1 - unit_roundoff) ^ (2 * n) * (1 + unit_roundoff) ^ n \<le> (1 - unit_roundoff) ^ n * (1 + unit_roundoff) ^ n"
    by (intro mult_right_mono power_decreasing) simp_all
  also note pow_inverse_bound
  finally have v: "(1 - unit_roundoff) ^ (2 * n) * (1 + unit_roundoff) ^ n \<le> 1" .
  have d: "0 < (1 - unit_roundoff) ^ n" by (intro zero_less_power) simp
  have lo: "y * (1 - unit_roundoff) ^ n \<le> x" and hi: "x \<le> y * (1 + unit_roundoff) ^ n"
    using assms(1) unfolding approx_def by blast+
  from quotient_bounds [OF lo hi assms(2) d assms(3) v inverse_roundoff] assms(2-4)
  show ?thesis unfolding approx_def by (intro conjI) simp_all
qed

end
