(* ===== verification/Smf_Accuracy.thy ===== *)
theory Smf_Accuracy
  imports Smf_Timing Ieee_Approx
begin

text \<open>
  The seconds of the tempo map against the exact sum of the durations of the ticks, and the tempo in
  force at a tick against the tempo events of the file.
\<close>

subsection \<open>The duration of a len\<close>

definition exact_seconds :: "nat \<Rightarrow> 16 word \<Rightarrow> rat" where
  "exact_seconds us tpb = of_nat us / (of_nat (unat tpb) * 1000000)"

lemma normal_ge_1: "x = 0 \<or> 1 / 2 ^ 36 \<le> x \<Longrightarrow> normal x"
  by (auto simp: normal_def intro: order_trans [of _ "1 / 2 ^ 36"])

lemma ticks_product: "fl64 (of_nat m) * of_nat n = 0 \<or> 1 \<le> fl64 (of_nat m) * of_nat n"
proof (cases "m = 0 \<or> n = 0")
  case False
  then have "1 \<le> fl64 (of_nat m)" "(1 :: rat) \<le> of_nat n"
    using fl_mono [of 1 "of_nat m" 52 11] by auto
  then have "1 * 1 \<le> fl64 (of_nat m) * of_nat n" by (intro mult_mono) simp_all
  then show ?thesis by simp
qed auto

lemma approx_seconds:
  assumes "tpb \<noteq> 0"
  shows "approx 3 (ticks_to_seconds ticks us tpb) (exact_seconds (ticks * unat us) tpb)"
proof -
  define c p where "c = (of_nat (unat tpb) * 1000000 :: rat)" and "p = fl64 (of_nat ticks) * of_nat (unat us)"
  have t: "0 < unat tpb" "unat tpb < 2 ^ 16"
    using assms unsigned_less [of tpb, where 'a = nat] by (simp_all add: unat_gt_0)
  have "fl64 (of_nat (unat tpb * 1000000)) = of_nat (unat tpb * 1000000)"
    using t by (intro fl_of_nat) (simp_all add: emin_64)
  then have flc: "fl64 c = c" by (simp add: c_def)
  have "rat_of_nat (unat tpb) < of_nat (2 ^ 16)" using t(2) by (simp only: of_nat_less_iff)
  moreover have "rat_of_nat 1 \<le> of_nat (unat tpb)" using t(1) by (simp only: of_nat_le_iff)
  ultimately have c: "0 < c" "c \<le> 2 ^ 36" by (simp_all add: c_def)
  have p: "p = 0 \<or> 1 \<le> p" unfolding p_def by (rule ticks_product)
  then have x: "fl64 p = 0 \<or> 1 \<le> fl64 p" using fl_mono [of 1 p 52 11] by auto
  then have small: "fl64 p * (1 / c) = 0 \<or> 1 / 2 ^ 36 \<le> fl64 p * (1 / c)"
    using c frac_le [of "fl64 p" 1 c "2 ^ 36"] by auto
  have "approx 1 (fl64 (of_nat ticks)) (of_nat ticks)"
    using approx_fl [OF approx_exact [of "of_nat ticks"]] by simp
  then have "approx 1 p (of_nat ticks * of_nat (unat us))"
    unfolding p_def using p by (intro approx_times normal_ge_1) (auto simp: p_def)
  then have "approx (Suc 1) (fl64 p) (of_nat ticks * of_nat (unat us))" by (rule approx_fl)
  then have "approx (Suc 1) (fl64 p * (1 / c)) (of_nat ticks * of_nat (unat us) * (1 / c))"
    using small c by (intro approx_times normal_ge_1) simp_all
  then have "approx (Suc (Suc 1)) (fl64 (fl64 p * (1 / c))) (of_nat ticks * of_nat (unat us) * (1 / c))"
    by (rule approx_fl)
  moreover have "ticks_to_seconds ticks us tpb = fl64 (fl64 p * (1 / c))"
    using assms flc by (simp add: ticks_to_seconds_def p_def c_def)
  moreover have "exact_seconds (ticks * unat us) tpb = of_nat ticks * of_nat (unat us) * (1 / c)"
    by (simp add: exact_seconds_def c_def)
  ultimately show ?thesis by (simp add: eval_nat_numeral)
qed

subsection \<open>The sum over the ticks\<close>

text \<open>The tempo of the last entry that is not after a tick.\<close>

fun tempo_at :: "tempo_entry list \<Rightarrow> 32 word \<Rightarrow> nat \<Rightarrow> 32 word" where
  "tempo_at [] us k = us"
| "tempo_at (e # es) us k = (if te_tick e \<le> k then tempo_at es (te_tempo_us e) k else us)"

lemma approx_segment:
  assumes "tpb \<noteq> 0" and "approx n secs (exact_seconds d tpb)" and "3 \<le> n"
  shows "approx (Suc n) (fl64 (secs + ticks_to_seconds len us tpb)) (exact_seconds (d + len * unat us) tpb)"
proof -
  have "exact_seconds d tpb + exact_seconds (len * unat us) tpb = exact_seconds (d + len * unat us) tpb"
    by (simp add: exact_seconds_def add_divide_distrib)
  then show ?thesis
    using approx_fl [OF approx_add [OF assms(2) approx_mono [OF approx_seconds [OF assms(1), of len us] assms(3)]]] by simp
qed

lemma sum_const_tempo:
  assumes "\<And>k. k \<in> {prev..<pos} \<Longrightarrow> f k = us"
  shows "(\<Sum>k = prev..<pos. unat (f k)) = (pos - prev) * unat us"
  using assms by simp

lemma tempo_at_before:
  "starts_after p es \<Longrightarrow> (case es of [] \<Rightarrow> True | e # _ \<Rightarrow> k < te_tick e) \<Longrightarrow> tempo_at es us k = us"
  by (cases es) auto

lemma approx_secs_from:
  assumes "tpb \<noteq> 0" and "starts_after prev es" and "prev \<le> pos"
    and "approx n secs (exact_seconds d tpb)" and "3 \<le> n"
  shows "approx (Suc n + length es) (secs_from tpb pos es secs prev us)
    (exact_seconds (d + (\<Sum>k = prev..<pos. unat (tempo_at es us k))) tpb)"
  using assms
proof (induction tpb pos es secs prev us arbitrary: d n rule: secs_from.induct)
  case (1 tpb pos secs prev us)
  from approx_segment [OF 1(1,4,5), of "pos - prev" us] show ?case by simp
next
  case (2 tpb pos e es secs prev us)
  show ?case
  proof (cases "pos \<le> te_tick e")
    case True
    then have "(\<Sum>k = prev..<pos. unat (tempo_at (e # es) us k)) = (pos - prev) * unat us"
      by (intro sum_const_tempo) auto
    moreover have "Suc n \<le> Suc n + length (e # es)" by simp
    ultimately show ?thesis
      using approx_mono [OF approx_segment [OF 2(2,5,6), of "pos - prev" us]] True by simp
  next
    case False
    define next_d where "next_d = d + (te_tick e - prev) * unat us"
    have "(\<Sum>k = prev..<pos. unat (tempo_at (e # es) us k)) =
        (\<Sum>k = prev..<te_tick e. unat (tempo_at (e # es) us k)) + (\<Sum>k = te_tick e..<pos. unat (tempo_at (e # es) us k))"
      using False 2(3) by (intro sum.atLeastLessThan_concat [symmetric]) auto
    also have "(\<Sum>k = prev..<te_tick e. unat (tempo_at (e # es) us k)) = (te_tick e - prev) * unat us"
      by (intro sum_const_tempo) auto
    also have "(\<Sum>k = te_tick e..<pos. unat (tempo_at (e # es) us k)) = (\<Sum>k = te_tick e..<pos. unat (tempo_at es (te_tempo_us e) k))"
      by (intro sum.cong) auto
    finally have "d + (\<Sum>k = prev..<pos. unat (tempo_at (e # es) us k)) =
        next_d + (\<Sum>k = te_tick e..<pos. unat (tempo_at es (te_tempo_us e) k))"
      by (simp add: next_d_def)
    moreover have "approx (Suc (Suc n) + length es)
        (secs_from tpb pos es (fl64 (secs + ticks_to_seconds (te_tick e - prev) us tpb)) (te_tick e) (te_tempo_us e))
        (exact_seconds (next_d + (\<Sum>k = te_tick e..<pos. unat (tempo_at es (te_tempo_us e) k))) tpb)"
    proof (rule 2(1) [OF False 2(2)])
      show "starts_after (te_tick e) es" using 2(3) starts_after_next [of e es] by simp
      show "te_tick e \<le> pos" using False by simp
      show "approx (Suc n) (fl64 (secs + ticks_to_seconds (te_tick e - prev) us tpb)) (exact_seconds next_d tpb)"
        unfolding next_d_def by (rule approx_segment [OF 2(2,5,6)])
    qed (use 2(6) in simp)
    ultimately show ?thesis using False by simp
  qed
qed

subsection \<open>The tempo events of the file\<close>

text \<open>
  The tempo event in force at a tick: of the events at or before it, the one with the largest
  position, and of several at one position the last in the order of the file.
\<close>

fun latest :: "nat \<Rightarrow> (nat \<times> 32 word) list \<Rightarrow> (nat \<times> 32 word) option" where
  "latest k [] = None"
| "latest k (x # xs) =
     (if k < fst x then latest k xs
      else case latest k xs of None \<Rightarrow> Some x | Some y \<Rightarrow> if fst y < fst x then Some x else Some y)"

definition tempo_in_force :: "(nat \<times> 32 word) list \<Rightarrow> nat \<Rightarrow> 32 word" where
  "tempo_in_force raw k = (case latest k raw of None \<Rightarrow> 500000 | Some (_, us) \<Rightarrow> us)"

lemma latest_le: "latest k xs = Some y \<Longrightarrow> fst y \<le> k \<and> y \<in> set xs"
  by (induction xs arbitrary: y) (auto split: if_splits option.splits)

lemma latest_None: "latest k xs = None \<longleftrightarrow> list_all (\<lambda>x. k < fst x) xs"
  by (induction xs) (auto split: option.splits)

lemma latest_insort:
  "latest k (insort_key fst x xs) = latest k (x # xs)"
proof (induction xs)
  case (Cons a xs)
  then show ?case
    by (auto split: option.splits)
qed simp

lemma latest_sort: "latest k (sort_key fst xs) = latest k xs"
  by (induction xs) (simp_all add: latest_insort)

lemma latest_dedup: "sorted (map fst xs) \<Longrightarrow> latest k (dedup_tempos xs) = latest k xs"
proof (induction xs rule: dedup_tempos.induct)
  case (1 t us t' us' xs)
  then show ?case
    by (auto split: option.splits dest: latest_le)
qed auto


lemma tempo_at_latest:
  assumes "sorted_wrt (<) (map fst raw)"
  shows "tempo_at (map (\<lambda>(t, us). \<lparr>te_tick = t, te_tempo_us = us\<rparr>) raw) us k =
    (case latest k raw of None \<Rightarrow> us | Some (_, v) \<Rightarrow> v)"
  using assms
proof (induction raw arbitrary: us)
  case (Cons x xs)
  show ?case
  proof (cases "latest k xs")
    case None
    with Cons show ?thesis by (cases x) auto
  next
    case (Some y)
    with latest_le [OF Some] Cons show ?thesis by (cases x; cases y) auto
  qed
qed simp

lemma tempo_at_entries:
  assumes "sorted_wrt (<) (map fst raw)"
  shows "tempo_at (tempo_entries raw) 500000 k = tempo_in_force raw k"
  using tempo_at_latest [OF assms, of 500000 k]
  by (simp add: tempo_entries_def tempo_in_force_def)

lemma from_file_tempo:
  assumes "collect_tempos (file_tracks file) = Ok raw"
    and "file_division file = TicksPerBeat tpb" and "from_file file = Ok m"
  shows "tempo_at (tm_entries m) 500000 k = tempo_in_force raw k" and "tm_ticks_per_beat m = tpb"
    and "tm_entries m \<noteq> []" and "length (tm_entries m) \<le> Suc (length raw)"
proof -
  define raw' where "raw' = dedup_tempos (sort_key fst raw)"
  have m: "m = \<lparr>tm_entries = tempo_entries raw', tm_ticks_per_beat = tpb\<rparr>"
    using assms by (simp add: from_file_def raw'_def)
  have "tempo_in_force raw' k = tempo_in_force raw k"
    by (simp add: tempo_in_force_def raw'_def latest_dedup latest_sort)
  then show "tempo_at (tm_entries m) 500000 k = tempo_in_force raw k"
    using tempo_at_entries [OF dedup_strict [OF sorted_sort_key], of raw k] by (simp add: m raw'_def)
  show "tm_ticks_per_beat m = tpb" by (simp add: m)
  show "tm_entries m \<noteq> []" by (cases raw') (auto simp: m tempo_entries_def)
  have "length (dedup_tempos xs) \<le> length xs" for xs
    by (induction xs rule: dedup_tempos.induct) auto
  from this [of "sort_key fst raw"] show "length (tm_entries m) \<le> Suc (length raw)"
    by (simp add: m raw'_def tempo_entries_def)
qed

subsection \<open>Properties\<close>

text \<open>
  C13: The tempo map is accurate. For a file that counts ticks per beat, the time that
  \<open>tick_to_secs\<close> gives for any position is the sum of the durations of the ticks before it, each with
  the tempo in force at it, up to a relative error of half a unit in the last place per operation:
  at most five of them and one more for each tempo event. It does not panic.
\<close>

theorem tempo_map_accuracy:
  assumes "collect_tempos (file_tracks file) = Ok raw"
    and "file_division file = TicksPerBeat tpb" and "tpb \<noteq> 0" and "from_file file = Ok m"
  shows "case tick_to_secs m pos of
      Ok t \<Rightarrow>
        (let exact = of_nat (\<Sum>k<pos. unat (tempo_in_force raw k)) / (of_nat (unat tpb) * 1000000)
         in exact * (1 - 1 / 2 ^ 53) ^ (length raw + 5) \<le> t \<and> t \<le> exact * (1 + 1 / 2 ^ 53) ^ (length raw + 5))
    | _ \<Rightarrow> False"
proof -
  note f = from_file_tempo [OF assms(1,2,4)]
  have ok: "map_ok_for m" by (rule from_file_ok [OF assms(4)])
  have start: "starts_after 0 (tm_entries m)"
    using map_ok_starts [OF ok] f(2,3) assms(3) by simp
  have "approx 3 0 (exact_seconds 0 tpb)" by (simp add: approx_def exact_seconds_def normal_def)
  from approx_secs_from [OF assms(3) start _ this, of pos 500000]
  have "approx (4 + length (tm_entries m)) (secs_from tpb pos (tm_entries m) 0 0 500000)
      (exact_seconds (\<Sum>k<pos. unat (tempo_in_force raw k)) tpb)"
    by (simp add: f(1) atLeast0LessThan)
  then have "approx (length raw + 5) (secs_from tpb pos (tm_entries m) 0 0 500000)
      (exact_seconds (\<Sum>k<pos. unat (tempo_in_force raw k)) tpb)"
    by (rule approx_mono) (use f(4) in simp)
  moreover have "tick_to_secs m pos = Ok (secs_from tpb pos (tm_entries m) 0 0 500000)"
    using tick_to_secs_alt [OF ok, of pos] f(2,3) assms(3) by (simp add: secs_at_def)
  ultimately show ?thesis
    unfolding approx_def exact_seconds_def by (simp only: result.case Let_def)
qed

definition two_tempos :: smf_file where
  "two_tempos = \<lparr>file_format = SingleTrack, file_division = TicksPerBeat 480,
     file_tracks = [\<lparr>track_name = None, track_events =
       [\<lparr>delta_ticks = 480, ev = Tempo 1000000\<rparr>, \<lparr>delta_ticks = 0, ev = EndOfTrack\<rparr>]\<rparr>]\<rparr>"

theorem tempo_map_accuracy_witness:
  "\<exists>m t. from_file two_tempos = Ok m \<and> tick_to_secs m 960 = Ok t \<and>
     3 / 2 * (1 - 1 / 2 ^ 53) ^ 6 \<le> t \<and> t \<le> 3 / 2 * (1 + 1 / 2 ^ 53) ^ 6"
proof -
  have raw: "collect_tempos (file_tracks two_tempos) = Ok [(480, 1000000)]"
    by (simp add: two_tempos_def uadd_def)
  then obtain m where m: "from_file two_tempos = Ok m"
    by (auto simp: from_file_def two_tempos_def)
  have "(\<Sum>k<960. unat (tempo_in_force [(480, 1000000)] k)) = 720000000"
  proof -
    have "(\<Sum>k<960. unat (tempo_in_force [(480, 1000000)] k)) =
        (\<Sum>k = 0..<480. unat (tempo_in_force [(480, 1000000)] k)) + (\<Sum>k = 480..<960. unat (tempo_in_force [(480, 1000000)] k))"
      by (subst sum.atLeastLessThan_concat) (auto simp: atLeast0LessThan)
    also have "\<dots> = (\<Sum>k = (0 :: nat)..<480. 500000) + (\<Sum>k = (480 :: nat)..<960. 1000000)"
      by (intro arg_cong2 [where f = "(+)"] sum.cong) (auto simp: tempo_in_force_def)
    finally show ?thesis by simp
  qed
  moreover have "case tick_to_secs m 960 of
      Ok t \<Rightarrow>
        (let exact = of_nat (\<Sum>k<960. unat (tempo_in_force [(480, 1000000)] k)) / (of_nat (unat (480 :: 16 word)) * 1000000)
         in exact * (1 - 1 / 2 ^ 53) ^ (length [(480 :: nat, 1000000 :: 32 word)] + 5) \<le> t \<and>
            t \<le> exact * (1 + 1 / 2 ^ 53) ^ (length [(480 :: nat, 1000000 :: 32 word)] + 5))
    | _ \<Rightarrow> False"
    by (rule tempo_map_accuracy [OF raw _ _ m]) (simp_all add: two_tempos_def)
  ultimately show ?thesis
    using m by (auto simp: Let_def split: result.splits)
qed

end
