(* ===== verification/Smf_Player.thy ===== *)
theory Smf_Player
  imports Smf_Accuracy "HOL-Library.Sublist" "HOL-Library.Multiset"
begin

text \<open>
  Playback of a MIDI file (\<open>crates/oxisound-smf/src/player.rs\<close>): the merge of the tracks into one
  list in the order of time, and the loop that sleeps and sends. The output port is an argument.
  What the loop does is a list of actions, the sleeps with their length in seconds.
\<close>

record smf_player =
  sp_events :: "(rat \<times> smf_event) list"

fun timed_events :: "tempo_map \<Rightarrow> nat \<Rightarrow> track_event list \<Rightarrow> ((rat \<times> smf_event) list, oxi_error) result" where
  "timed_events m abs_tick [] = Ok []"
| "timed_events m abs_tick (e # es) =
     and_then (uadd u64_max abs_tick (unat (delta_ticks e))) (\<lambda>abs_tick.
     and_then (tick_to_secs m abs_tick) (\<lambda>t.
     map_ok (Cons (t, ev e)) (timed_events m abs_tick es)))"

fun collect_events :: "tempo_map \<Rightarrow> smf_track list \<Rightarrow> ((rat \<times> smf_event) list, oxi_error) result" where
  "collect_events m [] = Ok []"
| "collect_events m (tr # trs) =
     and_then (timed_events m 0 (track_events tr)) (\<lambda>es.
     map_ok (append es) (collect_events m trs))"

definition player_new :: "smf_file \<Rightarrow> (smf_player, oxi_error) result" where
  "player_new file =
     and_then (from_file file) (\<lambda>m.
     map_ok (\<lambda>es. \<lparr>sp_events = sort_key fst es\<rparr>) (collect_events m (file_tracks file)))"

fun midi_events :: "(rat \<times> smf_event) list \<Rightarrow> (rat \<times> midi_message) list" where
  "midi_events [] = []"
| "midi_events ((t, Midi msg) # es) = (t, msg) # midi_events es"
| "midi_events (_ # es) = midi_events es"

datatype play_action = Slept rat | Sent midi_message

text \<open>\<open>Duration::from_secs_f64\<close> panics when the seconds do not fit in a \<open>u64\<close>.\<close>

fun play_loop :: "(midi_message \<Rightarrow> 's \<Rightarrow> (unit, 'e) result \<times> 's) \<Rightarrow> rat \<Rightarrow> (rat \<times> smf_event) list
    \<Rightarrow> 's \<Rightarrow> (unit, 'e) result \<times> play_action list \<times> 's" where
  "play_loop send last_time [] out = (Ok (), [], out)"
| "play_loop send last_time ((t, event) # es) out =
     (let delay = fl64 (t - last_time);
          slept = (if fl64 (1 / 1000) < delay then [Slept delay] else [])
      in if slept \<noteq> [] \<and> 2 ^ 64 \<le> delay then (Panic, [], out)
         else case (case event of Midi msg \<Rightarrow> map_prod id (Pair [Sent msg]) (send msg out) | _ \<Rightarrow> (Ok (), [], out)) of
           (Ok _, sent, out) \<Rightarrow>
             (case play_loop send t es out of (r, actions, out) \<Rightarrow> (r, slept @ sent @ actions, out))
         | (r, _, out) \<Rightarrow> (r, slept, out))"

definition play :: "(midi_message \<Rightarrow> 's \<Rightarrow> (unit, 'e) result \<times> 's) \<Rightarrow> smf_player \<Rightarrow> 's
    \<Rightarrow> (unit, 'e) result \<times> play_action list \<times> 's" where
  "play send p out = play_loop send 0 (sp_events p) out"

subsection \<open>Stable sorting keeps the order of each track\<close>

lemma insort_filter:
  "sorted (map f xs) \<Longrightarrow> insort_key f x xs = filter (\<lambda>y. f y < f x) xs @ x # filter (\<lambda>y. f x \<le> f y) xs"
proof (induction xs)
  case (Cons a xs)
  show ?case
  proof (cases "f x \<le> f a")
    case True
    with Cons.prems have "\<forall>y \<in> set xs. f x \<le> f y" by auto
    with True show ?thesis by (auto simp: filter_id_conv not_less intro!: filter_False [symmetric])
  qed (use Cons in auto)
qed simp

lemma subseq_insort:
  assumes "subseq xs ys" and "sorted (map f xs)" and "sorted (map f ys)"
  shows "subseq (insort_key f x xs) (insort_key f x ys)"
  unfolding insort_filter [OF assms(2)] insort_filter [OF assms(3)]
  using assms(1) by (intro list_emb_append_mono subseq_filter) (auto intro: subseq_filter)

lemma subseq_insort_right: "subseq xs ys \<Longrightarrow> subseq xs (insort_key f x ys)"
proof -
  have "subseq ys (insort_key f x ys)" by (induction ys) auto
  then show "subseq xs ys \<Longrightarrow> subseq xs (insort_key f x ys)" by (rule subseq_order.trans [rotated])
qed

lemma subseq_sort: "subseq xs ys \<Longrightarrow> subseq (sort_key f xs) (sort_key f ys)"
proof (induction ys arbitrary: xs)
  case (Cons y ys)
  show ?case
  proof (cases xs)
    case (Cons x zs)
    with Cons.prems Cons.IH [of zs] Cons.IH [of xs] show ?thesis
      by (auto simp: subseq_insort subseq_insort_right split: if_splits)
  qed simp
qed (auto dest: list_emb_Nil2)

lemma subseq_sorted:
  "subseq xs ys \<Longrightarrow> sorted (map f xs) \<Longrightarrow> subseq xs (sort_key f ys)"
  using subseq_sort [of xs ys f] by (simp add: sort_key_id_if_sorted)

subsection \<open>The merge\<close>

fun track_length :: "track_event list \<Rightarrow> nat" where
  "track_length [] = 0"
| "track_length (e # es) = unat (delta_ticks e) + track_length es"

lemma timed_events_cases:
  assumes "map_ok_for m"
  shows "case timed_events m a es of
      Ok ts \<Rightarrow> map snd ts = map ev es \<and> sorted (map fst ts) \<and> (\<forall>t \<in> fst ` set ts. secs_at m a \<le> t)
    | Err _ \<Rightarrow> False | Panic \<Rightarrow> u64_max < a + track_length es"
proof (induction es arbitrary: a)
  case (Cons e es)
  show ?case
  proof (cases "a + unat (delta_ticks e) \<le> u64_max")
    case True
    note mono = secs_at_mono [OF assms, of a "a + unat (delta_ticks e)"]
    show ?thesis
      using Cons.IH [of "a + unat (delta_ticks e)"] True mono
      by (auto simp: uadd_def tick_to_secs_alt [OF assms] algebra_simps split: result.splits intro: order_trans)
  qed (auto simp: uadd_def)
qed simp

lemma collect_events_cases:
  assumes "map_ok_for m"
  shows "case collect_events m trs of
      Ok es \<Rightarrow> map snd es = concat (map (\<lambda>tr. map ev (track_events tr)) trs) \<and>
        list_all (\<lambda>tr. case timed_events m 0 (track_events tr) of Ok ts \<Rightarrow> subseq ts es | _ \<Rightarrow> False) trs
    | Err _ \<Rightarrow> False | Panic \<Rightarrow> list_ex (\<lambda>tr. u64_max < track_length (track_events tr)) trs"
proof (induction trs)
  case (Cons tr trs)
  show ?case
    using Cons.IH timed_events_cases [OF assms, where a = 0 and es = "track_events tr"]
    by (auto simp: list_all_iff list_ex_iff split: result.splits intro: list_emb_prefix list_emb_append2)
qed simp


lemma player_new_alt:
  assumes "from_file file = Ok m"
  shows "player_new file = map_ok (\<lambda>es. \<lparr>sp_events = sort_key fst es\<rparr>) (collect_events m (file_tracks file))"
  by (simp add: player_new_def assms)

lemma collect_tempos_panic:
  "case (collect_tempos trs :: (_, oxi_error) result) of
     Ok _ \<Rightarrow> True | Err _ \<Rightarrow> False | Panic \<Rightarrow> list_ex (\<lambda>tr. u64_max < track_length (track_events tr)) trs"
proof (induction trs)
  case (Cons tr trs)
  have "case absolute_ticks a es of Ok _ \<Rightarrow> True | Err _ \<Rightarrow> False | Panic \<Rightarrow> u64_max < a + track_length es" for a es
  proof (induction es arbitrary: a)
    case (Cons e es)
    from Cons [of "a + unat (delta_ticks e)"] show ?case
      by (auto simp: uadd_def algebra_simps split: result.splits)
  qed simp
  from this [of 0 "track_events tr"] Cons show ?case
    by (auto split: result.splits)
qed simp

lemma from_file_cases:
  "case from_file file of
     Ok m \<Rightarrow> map_ok_for m
   | Err _ \<Rightarrow> False | Panic \<Rightarrow> list_ex (\<lambda>tr. u64_max < track_length (track_events tr)) (file_tracks file)"
proof (cases "from_file file")
  case (Ok m)
  then show ?thesis using from_file_ok by simp
qed (use collect_tempos_panic [of "file_tracks file"] in
    \<open>auto simp: from_file_def split: division.splits result.splits elim: map_ok.elims\<close>)

subsection \<open>Playing\<close>

fun sends :: "play_action list \<Rightarrow> midi_message list" where
  "sends [] = []"
| "sends (Sent msg # as) = msg # sends as"
| "sends (Slept _ # as) = sends as"

lemma sends_append [simp]: "sends (as @ bs) = sends as @ sends bs"
  by (induction as rule: sends.induct) auto

text \<open>What any output port has on its wire afterwards.\<close>

context midi_port begin

lemma play_loop_wire:
  "play_loop send l es s = (r, actions, s') \<Longrightarrow> r \<noteq> Panic \<Longrightarrow>
     \<exists>part. wire s' = wire s @ concat (map to_bytes (sends actions)) @ part \<and> (is_ok r \<longrightarrow> part = [])"
proof (induction es arbitrary: l s r actions s')
  case (Cons e es)
  obtain t event where e: "e = (t, event)" by (cases e)
  define slept where "slept = (if fl64 (1 / 1000) < fl64 (t - l) then [Slept (fl64 (t - l))] else [])"
  have slept [simp]: "sends slept = []" by (simp add: slept_def)
  define step where "step = (case event of Midi msg \<Rightarrow> map_prod id (Pair [Sent msg]) (send msg s) | _ \<Rightarrow> (Ok (), [], s))"
  obtain r1 sent1 s1 where step: "step = (r1, sent1, s1)" by (cases step)
  have loop: "play_loop send l (e # es) s =
      (if slept \<noteq> [] \<and> 2 ^ 64 \<le> fl64 (t - l) then (Panic, [], s)
       else case step of
         (Ok _, sent, out) \<Rightarrow> (case play_loop send t es out of (r, actions, out) \<Rightarrow> (r, slept @ sent @ actions, out))
       | (r, _, out) \<Rightarrow> (r, slept, out))"
    unfolding e play_loop.simps Let_def slept_def step_def ..
  show ?case
  proof (cases r1)
    case (Ok u)
    have w: "wire s1 = wire s @ concat (map to_bytes (sends sent1))"
      using step Ok by (cases event) (auto simp: step_def map_prod_def split: prod.splits dest: sent)
    obtain r2 acts2 s2 where rest: "play_loop send t es s1 = (r2, acts2, s2)" by (cases "play_loop send t es s1")
    have "r2 = r" "actions = slept @ sent1 @ acts2" "s2 = s'"
      using Cons.prems loop step Ok rest by (auto split: if_splits)
    with Cons.IH [OF rest] w Cons.prems(2) show ?thesis by auto
  next
    case (Err x)
    then obtain msg where "event = Midi msg" "send msg s = (Err x, s1)"
      using step by (cases event) (auto simp: step_def map_prod_def split: prod.splits)
    note lost = refused [OF this(2)]
    have "r = Err x" "s' = s1" "sends actions = []"
      using Cons.prems loop step Err slept by (auto simp del: slept split: if_splits)
    with lost show ?thesis by auto
  next
    case Panic
    with Cons.prems loop step show ?thesis by (auto split: if_splits)
  qed
qed simp

end

subsection \<open>Properties\<close>

text \<open>
  C12: The player merges the tracks. It fails only by an overflow of the position in a track of more
  than \<open>2^64 - 1\<close> ticks. Its events are those of all tracks, no more and no fewer, in the order of
  their times, and the events of each track stand in it in their order, each with the time that the
  tempo map gives for its position.
\<close>

theorem player_merges_tracks:
  "case player_new file of
     Ok p \<Rightarrow> sorted (map fst (sp_events p)) \<and>
       mset (map snd (sp_events p)) = mset (concat (map (\<lambda>tr. map ev (track_events tr)) (file_tracks file))) \<and>
       (case from_file file of
          Ok m \<Rightarrow> list_all (\<lambda>tr. case timed_events m 0 (track_events tr) of
              Ok es \<Rightarrow> subseq es (sp_events p) \<and> map snd es = map ev (track_events tr) | _ \<Rightarrow> False) (file_tracks file)
        | _ \<Rightarrow> False)
   | Err _ \<Rightarrow> False
   | Panic \<Rightarrow> list_ex (\<lambda>tr. u64_max < track_length (track_events tr)) (file_tracks file)"
proof (cases "from_file file")
  case (Ok m)
  then have m: "map_ok_for m" by (rule from_file_ok)
  show ?thesis
  proof (cases "collect_events m (file_tracks file)")
    case es: (Ok es)
    define p where "p = \<lparr>sp_events = sort_key fst es\<rparr>"
    have p: "player_new file = Ok p" "sp_events p = sort_key fst es"
      using Ok es by (simp_all add: player_new_alt p_def)
    note c = collect_events_cases [OF m, of "file_tracks file", unfolded es result.case]
    have "mset (map snd (sp_events p)) = mset (concat (map (\<lambda>tr. map ev (track_events tr)) (file_tracks file)))"
      using arg_cong [OF conjunct1 [OF c], of mset] by (simp add: p)
    moreover have "list_all (\<lambda>tr. case timed_events m 0 (track_events tr) of
        Ok ts \<Rightarrow> subseq ts (sp_events p) \<and> map snd ts = map ev (track_events tr) | _ \<Rightarrow> False) (file_tracks file)"
      using c timed_events_cases [OF m, where a = 0]
      by (fastforce simp: p list_all_iff split: result.splits intro: subseq_sorted)
    ultimately show ?thesis by (simp add: p(1) Ok) (simp add: p(2))
  qed (use collect_events_cases [OF m, of "file_tracks file"] Ok in \<open>simp_all add: player_new_alt\<close>)
qed (use from_file_cases [of "file"] in \<open>simp_all add: player_new_def\<close>)

text \<open>
  Playing sends the messages of the file in the order of the player. It stops at the first
  error of the port, after all the messages before it; it ends without an error when all are sent.
  Every sleep is longer than a millisecond.
\<close>

lemma play_sends_in_order:
  "case play send p out of (r, actions, out') \<Rightarrow>
     (case r of Ok _ \<Rightarrow> sends actions = map snd (midi_events (sp_events p))
      | Err e \<Rightarrow> (\<exists>msg rest out''. map snd (midi_events (sp_events p)) = sends actions @ msg # rest \<and>
          send msg out'' = (Err e, out'))
      | Panic \<Rightarrow> True) \<and>
     list_all (\<lambda>a. case a of Slept d \<Rightarrow> fl64 (1 / 1000) < d | Sent _ \<Rightarrow> True) actions"
proof -
  have "case play_loop send l es out of (r, actions, out') \<Rightarrow>
     (case r of Ok _ \<Rightarrow> sends actions = map snd (midi_events es)
      | Err e \<Rightarrow> (\<exists>msg rest out''. map snd (midi_events es) = sends actions @ msg # rest \<and>
          send msg out'' = (Err e, out'))
      | Panic \<Rightarrow> True) \<and>
     list_all (\<lambda>a. case a of Slept d \<Rightarrow> fl64 (1 / 1000) < d | Sent _ \<Rightarrow> True) actions" for l es
  proof (induction send l es out rule: play_loop.induct)
    case (2 send l t event es out)
    show ?case
    proof (cases event)
      case (Midi msg)
      obtain r out' where s: "send msg out = (r, out')" by (cases "send msg out")
      show ?thesis
      proof (cases r)
        case (Ok u)
        with 2 [OF refl refl] s Midi show ?thesis
          by (cases "play_loop send t es out'") (auto simp: Let_def split: result.splits intro: exI)
      next
        case (Err e)
        with s Midi show ?thesis by (auto simp: Let_def)
      next
        case Panic
        with s Midi show ?thesis by (auto simp: Let_def)
      qed
    qed (use 2 [OF refl refl] in \<open>cases "play_loop send t es out"; auto simp: Let_def split: result.splits\<close>)+
  qed simp
  then show ?thesis by (simp add: play_def)
qed


subsection \<open>Short delays\<close>

text \<open>A track of \<open>n\<close> notes, one tick apart, where 1000 ticks make a beat of half a second.\<close>

definition note_on :: smf_event where
  "note_on = Midi \<lparr>m_status = 0x90, m_data = [60, 64], m_timestamp_micros = 0\<rparr>"

definition fast_notes :: "nat \<Rightarrow> smf_file" where
  "fast_notes n = \<lparr>file_format = SingleTrack, file_division = TicksPerBeat 1000,
     file_tracks = [\<lparr>track_name = None, track_events = replicate n \<lparr>delta_ticks = 1, ev = note_on\<rparr>\<rparr>]\<rparr>"

definition half_ms :: "nat \<Rightarrow> rat" where
  "half_ms k = ticks_to_seconds k 500000 1000"

definition fast_map :: tempo_map where
  "fast_map = \<lparr>tm_entries = [\<lparr>te_tick = 0, te_tempo_us = 500000\<rparr>], tm_ticks_per_beat = 1000\<rparr>"

lemma fast_map_ok [simp]: "map_ok_for fast_map"
  by (simp add: map_ok_for_def fast_map_def)

lemma half_ms_0 [simp]: "half_ms 0 = 0"
  by (simp add: half_ms_def ticks_to_seconds_def)

lemma fast_secs: "secs_at fast_map k = half_ms k"
  by (cases k) (simp_all add: secs_at_def fast_map_def half_ms_def ticks_to_seconds_def [of 0])

lemma fast_from_file: "from_file (fast_notes n) = Ok fast_map" if "n \<le> 2 ^ 32"
proof -
  have "absolute_ticks a (replicate n \<lparr>delta_ticks = 1, ev = note_on\<rparr>) = Ok (map (\<lambda>i. (a + Suc i, note_on)) [0..<n])"
    if "a + n \<le> u64_max" for a using that
  proof (induction n arbitrary: a)
    case (Suc n)
    then have "absolute_ticks (Suc a) (replicate n \<lparr>delta_ticks = 1, ev = note_on\<rparr>)
        = Ok (map (\<lambda>i. (Suc a + Suc i, note_on)) [0..<n])" by simp
    with Suc.prems show ?case
      by (simp add: uadd_def upt_conv_Cons map_Suc_upt [symmetric] del: upt_Suc)
  qed simp
  from this [of 0] that have "absolute_ticks 0 (replicate n \<lparr>delta_ticks = 1, ev = note_on\<rparr>) = Ok (map (\<lambda>i. (Suc i, note_on)) [0..<n])"
    by simp
  moreover have "tempos_of (map (\<lambda>i. (Suc i, note_on)) is) = []" for "is"
    by (induction "is") (auto simp: note_on_def)
  ultimately show ?thesis
    by (simp add: from_file_def fast_notes_def fast_map_def tempo_entries_def)
qed

lemma fast_timed:
  "a + n \<le> u64_max \<Longrightarrow> timed_events fast_map a (replicate n \<lparr>delta_ticks = 1, ev = note_on\<rparr>)
     = Ok (map (\<lambda>i. (half_ms i, note_on)) [Suc a..<Suc (a + n)])"
proof (induction n arbitrary: a)
  case (Suc n)
  from Suc.IH [of "Suc a"] Suc.prems show ?case
    by (simp add: uadd_def tick_to_secs_alt fast_secs upt_conv_Cons del: upt_Suc)
qed simp

lemma half_ms_bounds:
  "of_nat k / 2000 * (1 - 1 / 2 ^ 53) ^ 3 \<le> half_ms k" "half_ms k \<le> of_nat k / 2000 * (1 + 1 / 2 ^ 53) ^ 3"
  using approx_seconds [of 1000 k 500000]
  by (simp_all add: approx_def half_ms_def exact_seconds_def)

lemma half_ms_step:
  assumes "k \<le> 2 ^ 32"
  shows "half_ms (Suc k) - half_ms k \<le> 1 / 1000"
proof -
  have "rat_of_nat k \<le> of_nat (2 ^ 32)" using assms by (simp only: of_nat_le_iff)
  then have "of_nat k \<le> (2 ^ 32 :: rat)" by simp
  then show ?thesis
    using half_ms_bounds(1) [of k] half_ms_bounds(2) [of "Suc k"]
    by (simp add: field_simps)
qed

text \<open>Events none of which is more than a millisecond after the one before.\<close>

fun close_events :: "rat \<Rightarrow> (rat \<times> smf_event) list \<Rightarrow> bool" where
  "close_events l [] = True"
| "close_events l ((t, e) # es) \<longleftrightarrow> fl64 (t - l) \<le> fl64 (1 / 1000) \<and> close_events t es"

definition silent :: "play_action list \<Rightarrow> bool" where
  "silent = list_all (\<lambda>a. case a of Slept _ \<Rightarrow> False | Sent _ \<Rightarrow> True)"

lemma close_events_silent: "close_events l es \<Longrightarrow> silent (fst (snd (play_loop send l es out)))"
proof (induction send l es out rule: play_loop.induct)
  case (2 send l t e es out)
  then have now: "fl64 (t - l) \<le> fl64 (1 / 1000)" and later: "close_events t es" by simp_all
  show ?case
  proof (cases e)
    case (Midi msg)
    with 2(1) [OF refl refl _ _ _ _ ] now later show ?thesis
      by (cases "send msg out"; cases "fst (send msg out)") (auto simp: silent_def Let_def not_less split: prod.splits)
  qed (use 2(1) [OF refl refl] now later in \<open>auto simp: silent_def Let_def not_less split: prod.splits\<close>)
qed (simp add: silent_def)

lemma fast_close: "a + n \<le> 2 ^ 32 \<Longrightarrow> close_events (half_ms a) (map (\<lambda>i. (half_ms i, note_on)) [Suc a..<Suc (a + n)])"
proof (induction n arbitrary: a)
  case (Suc n)
  from Suc.IH [of "Suc a"] Suc.prems half_ms_step [of a] show ?case
    by (simp add: upt_conv_Cons fl_mono del: upt_Suc)
qed simp

text \<open>
  Delays of up to a millisecond are dropped, not put off. However many notes a file has, half a
  millisecond apart, they are all sent without any sleep, although the last one of \<open>n\<close> notes is due
  half of \<open>n\<close> milliseconds after the start. (The last time is set even when the loop does not sleep.)
\<close>

lemma play_drops_short_delays:
  assumes "n \<le> 2 ^ 32"
  shows "case player_new (fast_notes n) of
      Ok p \<Rightarrow> map snd (sp_events p) = replicate n note_on \<and>
        silent (fst (snd (play send p out))) \<and>
        (if n = 0 then True else of_nat n / 2000 * (1 - 1 / 2 ^ 53) ^ 3 \<le> fst (last (sp_events p)))
    | _ \<Rightarrow> False"
proof -
  define es where "es = map (\<lambda>i. (half_ms i, note_on)) [1..<Suc n]"
  have "timed_events fast_map 0 (replicate n \<lparr>delta_ticks = 1, ev = note_on\<rparr>) = Ok es"
    using fast_timed [of 0 n] assms by (simp add: es_def)
  then have "collect_events fast_map (file_tracks (fast_notes n)) = Ok es" by (simp add: fast_notes_def)
  moreover have "sorted_wrt (\<lambda>i j. half_ms i \<le> half_ms j) [1..<Suc n]"
    by (rule sorted_wrt_mono_rel [OF _ sorted_upt]) (simp add: half_ms_def seconds_mono)
  then have "sort_key fst es = es"
    by (intro sort_key_id_if_sorted) (simp add: es_def comp_def sorted_map del: upt_Suc)
  ultimately have p: "player_new (fast_notes n) = Ok \<lparr>sp_events = es\<rparr>"
    using player_new_alt [OF fast_from_file [OF assms]] by simp
  have "silent (fst (snd (play send \<lparr>sp_events = es\<rparr> out)))"
    using close_events_silent [of 0 es] fast_close [of 0 n] assms
    by (simp add: play_def es_def del: upt_Suc)
  moreover have "map snd es = replicate n note_on"
    by (simp add: es_def comp_def map_replicate_const)
  moreover have "if n = 0 then True else of_nat n / 2000 * (1 - 1 / 2 ^ 53) ^ 3 \<le> fst (last es)"
    using half_ms_bounds(1) [of n] by (simp add: es_def)
  ultimately show ?thesis by (simp only: p result.case smf_player.simps)
qed

theorem play_drops_short_delays_witness:
  "case player_new (fast_notes 10000) of
      Ok p \<Rightarrow> silent (fst (snd (play (\<lambda>_ out. (Ok (), out)) p ()))) \<and>
        5 * (1 - 1 / 2 ^ 53) ^ 3 \<le> fst (last (sp_events p))
    | _ \<Rightarrow> False"
  using play_drops_short_delays [of 10000 "\<lambda>_ out. (Ok (), out)" "()"]
  by (auto split: result.splits simp: field_simps)

text \<open>A file in frames is played at once, one track after the other.\<close>

lemma smpte_times:
  assumes "file_division file = Smpte f s" and "player_new file = Ok p"
  shows "sp_events p = map (Pair 0) (concat (map (\<lambda>tr. map ev (track_events tr)) (file_tracks file)))"
proof -
  define m where "m = \<lparr>tm_entries = [], tm_ticks_per_beat = 0\<rparr>"
  have t: "timed_events m a es = Ok ts \<Longrightarrow> ts = map (Pair 0) (map ev es)" for a es ts
    by (induction es arbitrary: a ts) (auto simp: m_def tick_to_secs_def)
  have c: "collect_events m trs = Ok es \<Longrightarrow> es = map (Pair 0) (concat (map (\<lambda>tr. map ev (track_events tr)) trs))" for trs es
    by (induction trs arbitrary: es) (auto dest: t)
  from assms obtain es where es: "collect_events m (file_tracks file) = Ok es" "sp_events p = sort_key fst es"
    by (auto simp: player_new_def from_file_def m_def)
  have "sort_key fst es = es"
    unfolding c [OF es(1)] by (intro sort_key_id_if_sorted) (simp add: comp_def map_replicate_const)
  then show ?thesis using c [OF es(1)] es(2) by simp
qed

end
