(* ===== verification/Midi_Io.thy ===== *)
theory Midi_Io
  imports Core_Midi Core_Types
begin

text \<open>
  MIDI devices (\<open>crates/oxisound-midi/src/lib.rs\<close>). The crate \<open>midir\<close> is an argument: the record
  \<open>midir\<close> says what its constructors, port lists and connections answer, and a sent message is
  answered by a function of what was sent before. The queue between the callback and \<open>receive\<close> is an unbounded
  channel of the standard library.
\<close>

text \<open>The payload is a slice of the bytes; it is never out of range, because the first byte is not the last one.\<close>

definition parse_midi_bytes :: "64 word \<Rightarrow> byte list \<Rightarrow> (midi_message option, unit) result" where
  "parse_midi_bytes stamp bytes =
     (if bytes = [] then Ok None
      else if hd bytes = 0xF0 then
        map_ok (\<lambda>payload. Some ((new_sysex payload)\<lparr>m_timestamp_micros := stamp\<rparr>))
          (slice bytes 1 (if last bytes = 0xF7 then length bytes - 1 else length bytes))
      else Ok (Some \<lparr>m_status = hd bytes, m_data = tl bytes, m_timestamp_micros = stamp\<rparr>))"

subsection \<open>The backend\<close>

text \<open>A client either does not start, with a message, or has ports, whose names may be unreadable.\<close>

record midir =
  in_client :: "string \<Rightarrow> (rstring option list, msg) result"
  out_client :: "string \<Rightarrow> (rstring option list, msg) result"
  connect_in :: "nat \<Rightarrow> (unit, msg) result"
  connect_out :: "nat \<Rightarrow> (unit, msg) result"

definition port_label :: "rstring option \<Rightarrow> rstring" where
  "port_label name = (case name of Some n \<Rightarrow> n | None \<Rightarrow> str_lit ''Unknown'')"

definition client_ports :: "(rstring option list, msg) result \<Rightarrow> rstring list" where
  "client_ports c = (case c of Ok ports \<Rightarrow> map port_label ports | _ \<Rightarrow> [])"

fun add_output :: "rstring \<Rightarrow> midi_device_info list \<Rightarrow> midi_device_info list" where
  "add_output name [] = [\<lparr>port_name = name, midi_is_input = False, midi_is_output = True, port_count = 1\<rparr>]"
| "add_output name (d # ds) =
     (if port_name d = name \<and> midi_is_input d then d\<lparr>midi_is_output := True\<rparr> # ds else d # add_output name ds)"

definition midi_input_info :: "rstring \<Rightarrow> midi_device_info" where
  "midi_input_info name = \<lparr>port_name = name, midi_is_input = True, midi_is_output = False, port_count = 1\<rparr>"

definition enumerate_midi :: "midir \<Rightarrow> (midi_device_info list, oxi_error) result" where
  "enumerate_midi M =
     Ok (fold add_output (client_ports (out_client M ''oxisound-enum-out''))
          (map midi_input_info (client_ports (in_client M ''oxisound-enum-in''))))"

subsection \<open>Connections\<close>

text \<open>The channel, and whether its sender, which the connection holds, still exists.\<close>

record midi_in =
  mq_queue :: "midi_message list"
  mq_alive :: bool

definition port_missing :: "string \<Rightarrow> nat \<Rightarrow> nat \<Rightarrow> oxi_error" where
  "port_missing dir port n = Device [Lit ''MIDI '', Lit dir, Lit '' port '', Num port,
     Lit '' not found (only '', Num n, Lit '' ports available)'']"

definition open_midi_input :: "midir \<Rightarrow> nat \<Rightarrow> (midi_in, oxi_error) result" where
  "open_midi_input M port =
     and_then (map_err Device (in_client M ''oxisound-input'')) (\<lambda>ports.
       if length ports \<le> port then Err (port_missing ''input'' port (length ports))
       else map_ok (\<lambda>_. \<lparr>mq_queue = [], mq_alive = True\<rparr>) (map_err Device (connect_in M port)))"

text \<open>The callback of the driver; a message that cannot be parsed is dropped.\<close>

definition midi_callback :: "64 word \<Rightarrow> byte list \<Rightarrow> midi_in \<Rightarrow> (midi_in, unit) result" where
  "midi_callback stamp bytes c =
     map_ok (\<lambda>m. case m of Some msg \<Rightarrow> c\<lparr>mq_queue := mq_queue c @ [msg]\<rparr> | None \<Rightarrow> c)
       (parse_midi_bytes stamp bytes)"

definition receive :: "midi_in \<Rightarrow> (midi_message option, oxi_error) result \<times> midi_in" where
  "receive c =
     (case mq_queue c of
        msg # rest \<Rightarrow> (Ok (Some msg), c\<lparr>mq_queue := rest\<rparr>)
      | [] \<Rightarrow> (if mq_alive c then Ok None
               else Err (Disconnected [Lit ''MIDI input callback disconnected'']), c))"

record midi_out =
  mc_sent :: "byte list list"

definition open_midi_output :: "midir \<Rightarrow> nat \<Rightarrow> (midi_out, oxi_error) result" where
  "open_midi_output M port =
     and_then (map_err Device (out_client M ''oxisound-output'')) (\<lambda>ports.
       if length ports \<le> port then Err (port_missing ''output'' port (length ports))
       else map_ok (\<lambda>_. \<lparr>mc_sent = []\<rparr>) (map_err Device (connect_out M port)))"

definition midi_send :: "(byte list list \<Rightarrow> byte list \<Rightarrow> msg option) \<Rightarrow> midi_message \<Rightarrow> midi_out
    \<Rightarrow> (unit, oxi_error) result \<times> midi_out" where
  "midi_send refuse msg c =
     (let bytes = to_bytes msg
      in case refuse (mc_sent c) bytes of
           None \<Rightarrow> (Ok (), c\<lparr>mc_sent := mc_sent c @ [bytes]\<rparr>)
         | Some e \<Rightarrow> (Err (Device e), c))"

interpretation midir_port: midi_port "midi_send refuse" "\<lambda>c. concat (mc_sent c)"
  by unfold_locales (auto simp: midi_send_def Let_def split: option.splits)

subsection \<open>Hosts\<close>

text \<open>Which clients exist. Each call asks the client for its ports, so they are an argument of the calls.\<close>

record midi_host =
  mh_input :: bool
  mh_output :: bool

definition midi_host_new :: "midir \<Rightarrow> (midi_host, oxi_error) result" where
  "midi_host_new M =
     (let inp = is_ok (in_client M ''oxisound-host-in''); outp = is_ok (out_client M ''oxisound-host-out'')
      in if \<not> inp \<and> \<not> outp
         then Err (Device [Lit ''MIDI unavailable: could not initialize input or output client''])
         else Ok \<lparr>mh_input = inp, mh_output = outp\<rparr>)"

definition midi_host_default :: "midir \<Rightarrow> midi_host" where
  "midi_host_default M = unwrap_or \<lparr>mh_input = False, mh_output = False\<rparr> (midi_host_new M)"

definition input_port_names :: "rstring option list \<Rightarrow> midi_host \<Rightarrow> rstring list" where
  "input_port_names ports h = (if mh_input h then map port_label ports else [])"

definition output_port_names :: "rstring option list \<Rightarrow> midi_host \<Rightarrow> rstring list" where
  "output_port_names ports h = (if mh_output h then map port_label ports else [])"

text \<open>
  Virtual ports, which Windows does not have. \<open>start\<close> is the answer of the client's constructor and
  \<open>mk\<close> that of \<open>create_virtual\<close>. The callback of the caller is a step of its state.
\<close>

definition create_virtual_input :: "bool \<Rightarrow> (unit, msg) result \<Rightarrow> (unit, msg) result \<Rightarrow> (midi_in, oxi_error) result" where
  "create_virtual_input windows start mk =
     (if windows then Err (Unsupported [Lit ''Virtual MIDI ports are not supported on Windows (WinMM)''])
      else and_then (map_err (\<lambda>e. Device (Lit ''Failed to create MIDI input for virtual port: '' # e)) start) (\<lambda>_.
        map_ok (\<lambda>_. \<lparr>mq_queue = [], mq_alive = True\<rparr>)
          (map_err (\<lambda>e. Device (Lit ''Failed to create virtual input port: '' # e)) mk)))"

definition virtual_callback :: "(midi_message \<Rightarrow> 'u \<Rightarrow> 'u) \<Rightarrow> 64 word \<Rightarrow> byte list \<Rightarrow> 'u \<times> midi_in \<Rightarrow> ('u \<times> midi_in, unit) result" where
  "virtual_callback user_cb stamp bytes s =
     (case s of (u, c) \<Rightarrow>
        map_ok (\<lambda>m. case m of Some msg \<Rightarrow> (user_cb msg u, c\<lparr>mq_queue := mq_queue c @ [msg]\<rparr>) | None \<Rightarrow> (u, c))
          (parse_midi_bytes stamp bytes))"

definition create_virtual_output :: "bool \<Rightarrow> (unit, msg) result \<Rightarrow> (unit, msg) result \<Rightarrow> (midi_out, oxi_error) result" where
  "create_virtual_output windows start mk =
     (if windows then Err (Unsupported [Lit ''Virtual MIDI ports are not supported on Windows (WinMM)''])
      else and_then (map_err (\<lambda>e. Device (Lit ''Failed to create MIDI output for virtual port: '' # e)) start) (\<lambda>_.
        map_ok (\<lambda>_. \<lparr>mc_sent = []\<rparr>)
          (map_err (\<lambda>e. Device (Lit ''Failed to create virtual output port: '' # e)) mk)))"

subsection \<open>Messages and bytes\<close>

lemma parse_midi_no_panic: "parse_midi_bytes t bs \<noteq> Panic"
proof -
  have "1 \<le> length bs - 1" if "bs \<noteq> []" "hd bs = 0xF0" "last bs = 0xF7"
    using that by (cases bs; cases "tl bs") auto
  then show ?thesis by (cases bs) (auto simp: parse_midi_bytes_def)
qed

lemma parse_midi_no_error [simp]: "parse_midi_bytes t bs \<noteq> Err u"
  by (auto simp: parse_midi_bytes_def slice_def)

lemma parse_to_bytes: "parse_midi_bytes t (to_bytes m) = Ok (Some (m\<lparr>m_timestamp_micros := t\<rparr>))"
proof (cases "is_sysex m")
  case True
  then have "slice (to_bytes m) 1 (length (to_bytes m) - 1) = (Ok (m_data m) :: (_, unit) result)"
    by (simp add: to_bytes_def slice_def)
  with True show ?thesis
    by (simp add: parse_midi_bytes_def to_bytes_def is_sysex_def new_sysex_def)
qed (simp add: parse_midi_bytes_def to_bytes_def is_sysex_def)

text \<open>The other way round, a message that is not terminated gets its last byte.\<close>

lemma to_bytes_parse:
  assumes "parse_midi_bytes t bs = Ok (Some m)"
  shows "to_bytes m = (if hd bs = 0xF0 \<and> last bs \<noteq> 0xF7 then bs @ [0xF7] else bs)"
proof -
  have "bs \<noteq> []" using assms by (auto simp: parse_midi_bytes_def)
  show ?thesis
  proof (cases "hd bs = 0xF0")
    case False
    with assms \<open>bs \<noteq> []\<close> show ?thesis
      by (cases bs) (auto simp: parse_midi_bytes_def to_bytes_def is_sysex_def)
  next
    case True
    show ?thesis
    proof (cases "last bs = 0xF7")
      case fin: True
      with True \<open>bs \<noteq> []\<close> obtain xs where "bs = 0xF0 # xs @ [0xF7]"
        by (cases bs; cases "tl bs" rule: rev_cases) auto
      with assms show ?thesis
        by (auto simp: parse_midi_bytes_def to_bytes_def is_sysex_def new_sysex_def slice_def)
    next
      case fin: False
      with True \<open>bs \<noteq> []\<close> obtain xs where "bs = 0xF0 # xs" by (cases bs) auto
      with assms fin show ?thesis
        by (auto simp: parse_midi_bytes_def to_bytes_def is_sysex_def new_sysex_def slice_def)
    qed
  qed
qed

subsection \<open>Runs\<close>

datatype input_step = Arrive "64 word" "byte list" | Recv

fun run_input :: "input_step list \<Rightarrow> midi_in \<Rightarrow> (midi_message list \<times> midi_in, unit) result" where
  "run_input [] c = Ok ([], c)"
| "run_input (Arrive t bs # es) c = and_then (midi_callback t bs c) (run_input es)"
| "run_input (Recv # es) c =
     (case receive c of
        (Ok (Some msg), c) \<Rightarrow> map_ok (map_prod (Cons msg) id) (run_input es c)
      | (_, c) \<Rightarrow> run_input es c)"

fun arrivals :: "input_step list \<Rightarrow> (64 word \<times> byte list) list" where
  "arrivals [] = []"
| "arrivals (Arrive t bs # es) = (t, bs) # arrivals es"
| "arrivals (Recv # es) = arrivals es"

fun parsed :: "(64 word \<times> byte list) list \<Rightarrow> midi_message list" where
  "parsed [] = []"
| "parsed ((t, bs) # as) = (case parse_midi_bytes t bs of Ok (Some m) \<Rightarrow> m # parsed as | _ \<Rightarrow> parsed as)"

lemma run_input_queue:
  "\<exists>got c'. run_input es c = Ok (got, c') \<and> got @ mq_queue c' = mq_queue c @ parsed (arrivals es)"
proof (induction es arbitrary: c)
  case (Cons e es)
  show ?case
  proof (cases e)
    case (Arrive t bs)
    show ?thesis
    proof (cases "parse_midi_bytes t bs")
      case (Ok m)
      from Cons [of "case m of Some msg \<Rightarrow> c\<lparr>mq_queue := mq_queue c @ [msg]\<rparr> | None \<Rightarrow> c"] show ?thesis
        by (cases m) (auto simp: Arrive Ok midi_callback_def)
    qed (use parse_midi_no_panic in auto)
  next
    case Recv
    show ?thesis
    proof (cases "mq_queue c")
      case Nil
      with Cons [of c] show ?thesis by (auto simp: Recv receive_def)
    next
      case q: (Cons m q)
      with Cons [of "c\<lparr>mq_queue := q\<rparr>"] show ?thesis by (auto simp: Recv receive_def)
    qed
  qed
qed simp

text \<open>Sending some messages; the first list has those that were accepted.\<close>

fun send_all :: "(byte list list \<Rightarrow> byte list \<Rightarrow> msg option) \<Rightarrow> midi_message list \<Rightarrow> midi_out
    \<Rightarrow> midi_message list \<times> midi_out" where
  "send_all refuse [] c = ([], c)"
| "send_all refuse (m # ms) c =
     (case midi_send refuse m c of
        (Ok _, c) \<Rightarrow> map_prod (Cons m) id (send_all refuse ms c)
      | (_, c) \<Rightarrow> send_all refuse ms c)"

lemma send_all_sent: "mc_sent (snd (send_all refuse ms c)) = mc_sent c @ map to_bytes (fst (send_all refuse ms c))"
proof (induction ms arbitrary: c)
  case (Cons m ms)
  then show ?case by (auto simp: midi_send_def Let_def split: option.splits)
qed simp

lemma parsed_sent:
  "map snd as = map to_bytes ms \<Longrightarrow> parsed as = map2 (\<lambda>t m. m\<lparr>m_timestamp_micros := t\<rparr>) (map fst as) ms"
proof (induction as arbitrary: ms)
  case (Cons a as)
  then show ?case by (cases a; cases ms) (auto simp: parse_to_bytes)
qed simp

subsection \<open>The list of devices\<close>

text \<open>The entries of the input ports, given the names of the output ports and the inputs seen before.\<close>

fun input_entries :: "rstring list \<Rightarrow> rstring list \<Rightarrow> rstring list \<Rightarrow> midi_device_info list" where
  "input_entries outs seen [] = []"
| "input_entries outs seen (n # ns) =
     \<lparr>port_name = n, midi_is_input = True, midi_is_output = n \<in> set outs \<and> n \<notin> set seen, port_count = 1\<rparr>
     # input_entries outs (n # seen) ns"

definition midi_output_info :: "rstring \<Rightarrow> midi_device_info" where
  "midi_output_info n = \<lparr>port_name = n, midi_is_input = False, midi_is_output = True, port_count = 1\<rparr>"

lemma input_entries_start: "input_entries [] seen ins = map midi_input_info ins"
  by (induction ins arbitrary: seen) (simp_all add: midi_input_info_def)

lemma input_entries_cong:
  "set outs - set seen = set outs' - set seen \<Longrightarrow> input_entries outs seen ins = input_entries outs' seen ins"
proof (induction ins arbitrary: seen)
  case (Cons n ns)
  have "set outs - set (n # seen) = set outs' - set (n # seen)" using Cons.prems by auto
  from Cons.IH [OF this] Cons.prems show ?case by auto
qed simp

lemma add_output_outputs: "add_output n (map midi_output_info os) = map midi_output_info (os @ [n])"
  by (induction os) (simp_all add: midi_output_info_def)

lemma add_output_entries:
  "n \<notin> set seen \<Longrightarrow> add_output n (input_entries outs seen ins @ map midi_output_info os) =
     input_entries (outs @ [n]) seen ins @ map midi_output_info (if n \<in> set ins then os else os @ [n])"
proof (induction ins arbitrary: seen)
  case (Cons m ms)
  show ?case
  proof (cases "m = n")
    case True
    with Cons.prems input_entries_cong [of outs "n # seen" "outs @ [n]" ms] show ?thesis by auto
  next
    case False
    with Cons show ?thesis by auto
  qed
qed (simp add: add_output_outputs)

lemma fold_add_output:
  "fold add_output outs (input_entries done [] ins @ map midi_output_info os) =
     input_entries (done @ outs) [] ins @ map midi_output_info (os @ filter (\<lambda>n. n \<notin> set ins) outs)"
proof (induction outs arbitrary: "done" os)
  case (Cons n ns)
  then show ?case by (simp add: add_output_entries)
qed simp

subsection \<open>Properties\<close>

text \<open>
  The list of MIDI devices: first the input ports in order, each with an entry of its own, then
  the output ports whose name no input has. An output with the name of an input is merged into the
  first entry of that name, so two outputs of one name become one.
\<close>

lemma enumerate_midi_spec:
  "enumerate_midi M =
     (let ins = client_ports (in_client M ''oxisound-enum-in''); outs = client_ports (out_client M ''oxisound-enum-out'')
      in Ok (input_entries outs [] ins @ map midi_output_info (filter (\<lambda>n. n \<notin> set ins) outs)))"
  using fold_add_output [of _ "[]" _ "[]"]
  by (simp add: enumerate_midi_def Let_def flip: input_entries_start [of "[]"])

text \<open>
  A position in the list is not a port number, although the documentation of
  \<open>enumerate_midi_devices\<close> says that it is. With one input and one output of different names, the
  output is listed second, but port 1 does not exist and port 0 opens it.
\<close>

lemma midi_list_index_is_no_port:
  "\<exists>M ds. enumerate_midi M = Ok ds \<and> length ds = 2 \<and> midi_is_output (ds ! 1) \<and> \<not> midi_is_output (ds ! 0) \<and>
     open_midi_output M 1 = Err (port_missing ''output'' 1 1) \<and> is_ok (open_midi_output M 0)"
proof -
  define M where "M = \<lparr>in_client = \<lambda>_. Ok [Some [0x41]], out_client = \<lambda>_. Ok [Some [0x42]],
    connect_in = \<lambda>_. Ok (), connect_out = \<lambda>_. Ok ()\<rparr>"
  show ?thesis
    by (intro exI [of _ M]) (simp add: M_def enumerate_midi_def client_ports_def port_label_def midi_input_info_def
        open_midi_output_def)
qed

text \<open>
  C18: Messages pass from an output port to an input port unchanged. Whatever the driver refuses, the
  bytes of the accepted messages, delivered in order with any time stamps and interleaved with any
  calls of \<open>receive\<close>, are received as these messages, with the time of their arrival, in order, each
  once; the others wait in the queue. This holds for SysEx with any payload. Nothing panics.
\<close>

theorem midi_transport:
  assumes "map snd (arrivals es) = mc_sent (snd (send_all refuse msgs \<lparr>mc_sent = []\<rparr>))"
  shows "case run_input es \<lparr>mq_queue = [], mq_alive = True\<rparr> of
      Ok (got, inp) \<Rightarrow> got @ mq_queue inp =
        map2 (\<lambda>t m. m\<lparr>m_timestamp_micros := t\<rparr>) (map fst (arrivals es)) (fst (send_all refuse msgs \<lparr>mc_sent = []\<rparr>))
    | _ \<Rightarrow> False"
proof -
  from assms have "map snd (arrivals es) = map to_bytes (fst (send_all refuse msgs \<lparr>mc_sent = []\<rparr>))"
    by (simp add: send_all_sent)
  from parsed_sent [OF this] run_input_queue [of es "\<lparr>mq_queue = [], mq_alive = True\<rparr>"] show ?thesis
    by auto
qed

theorem midi_transport_witness:
  "case run_input [Recv, Arrive 7 [0xF0, 1, 2, 0xF7], Arrive 9 [0x90, 60, 100], Recv] \<lparr>mq_queue = [], mq_alive = True\<rparr> of
      Ok (got, inp) \<Rightarrow> got @ mq_queue inp = [\<lparr>m_status = 0xF0, m_data = [1, 2], m_timestamp_micros = 7\<rparr>,
        \<lparr>m_status = 0x90, m_data = [60, 100], m_timestamp_micros = 9\<rparr>]
    | _ \<Rightarrow> False"
  using midi_transport [where refuse = "\<lambda>_ bs. if bs = [0x80] then Some [] else None" and
      msgs = "[new_sysex [1, 2], \<lparr>m_status = 0x80, m_data = [], m_timestamp_micros = 0\<rparr>,
        \<lparr>m_status = 0x90, m_data = [60, 100], m_timestamp_micros = 0\<rparr>]" and
      es = "[Recv, Arrive 7 [0xF0, 1, 2, 0xF7], Arrive 9 [0x90, 60, 100], Recv]"]
  by (simp add: midi_send_def new_sysex_def to_bytes_def is_sysex_def receive_def midi_callback_def
      parse_midi_bytes_def slice_def)

end
