(* ===== verification/Facade_Midi.thy ===== *)
theory Facade_Midi
  imports Smf_Player Smf_Safety Midi_Io
begin

text \<open>
  Playing a MIDI file through a port: \<open>load_smf\<close> and \<open>play_smf\<close> of \<open>crates/oxisound/src/lib.rs\<close>. The
  contents of the file, or the error of reading it, are an argument. The errors of the parser get their texts here.
\<close>

definition hex_digit :: "nat \<Rightarrow> byte" where
  "hex_digit n = of_nat (if n < 10 then 48 + n else 55 + n)"

definition hex2 :: "byte \<Rightarrow> rstring" where
  "hex2 b = [hex_digit (unat b div 16), hex_digit (unat b mod 16)]"

fun smf_text :: "smf_error \<Rightarrow> msg" where
  "smf_text (NeedBytes n ctx available) =
     [Lit ''need '', Num n, Lit '' bytes for '', Lit ctx, Lit '', only '', Num available, Lit '' available'']"
| "smf_text MissingMThd = [Lit ''missing MThd magic'']"
| "smf_text (MThdLength n) = [Lit ''MThd length must be 6, got '', Num (unat n)]"
| "smf_text (UnknownFormat n) = [Lit ''unknown SMF format '', Num (unat n)]"
| "smf_text MissingMTrk = [Lit ''missing MTrk magic'']"
| "smf_text ChunkPastEnd = [Lit ''MTrk chunk extends past end of data'']"
| "smf_text TruncatedAfterDelta = [Lit ''truncated event after delta time'']"
| "smf_text MetaPastEnd = [Lit ''meta event data extends past track end'']"
| "smf_text SysexPastEnd = [Lit ''SysEx data extends past track end'']"
| "smf_text NoRunningStatus = [Lit ''running status used before any status byte'']"
| "smf_text TruncatedDataByte = [Lit ''truncated MIDI data byte'']"
| "smf_text (Unrecognised b) = [Lit ''unrecognised MIDI message type 0x'', Str (hex2 b)]"
| "smf_text TempoTooShort = [Lit ''tempo meta event too short'']"
| "smf_text TimeSignatureTooShort = [Lit ''time signature meta event too short'']"
| "smf_text KeySignatureTooShort = [Lit ''key signature meta event too short'']"
| "smf_text VlqEof = [Lit ''unexpected EOF in VLQ'']"
| "smf_text VlqTooLong = [Lit ''VLQ too long (exceeds 4 bytes)'']"
| "smf_text UnexpectedEof = [Lit ''unexpected EOF'']"
| "smf_text EmptyMidiMessage = [Lit ''empty MidiMessage bytes'']"

definition load_smf :: "nat \<Rightarrow> byte list \<Rightarrow> (smf_file, smf_error) result" where
  "load_smf um bytes = parse um bytes"

definition play_smf :: "nat \<Rightarrow> midir \<Rightarrow> (byte list list \<Rightarrow> byte list \<Rightarrow> msg option) \<Rightarrow> (byte list, msg) result \<Rightarrow> nat
    \<Rightarrow> (unit, oxi_error) result \<times> play_action list \<times> midi_out" where
  "play_smf um M refuse contents port =
     (case and_then (map_err Io contents) (\<lambda>bytes.
           and_then (map_err (\<lambda>e. Stream (Lit ''SMF parse error: '' # smf_text e)) (parse um bytes)) (\<lambda>smf.
           and_then (open_midi_output M port) (\<lambda>out.
           map_ok (\<lambda>p. (p, out)) (player_new smf)))) of
        Ok (p, out) \<Rightarrow> play (midi_send refuse) p out
      | Err e \<Rightarrow> (Err e, [], \<lparr>mc_sent = []\<rparr>)
      | Panic \<Rightarrow> (Panic, [], \<lparr>mc_sent = []\<rparr>))"

subsection \<open>The length of parsed tracks\<close>

lemma mtrk_loop_count:
  "mtrk_loop um bytes track_end pos rs nm evs = Ok (nm', evs') \<Longrightarrow>
     2 * length evs' \<le> 2 * length evs + (track_end - pos)"
proof (induction um bytes track_end pos rs nm evs arbitrary: nm' evs' rule: mtrk_loop.induct)
  case (1 um bytes track_end pos rs nm evs)
  show ?case
  proof (cases "pos < track_end")
    case False
    with "1.prems" show ?thesis by (simp add: mtrk_loop.simps)
  next
    case True
    with "1.prems" obtain delta pos1 where v: "read_vlq bytes pos = Ok (delta, pos1)" and p1: "pos1 < track_end"
      by (subst (asm) mtrk_loop.simps) (auto split: if_splits)
    with True "1.prems" obtain event st pos2 where e: "parse_event um bytes pos1 track_end rs = Ok (event, st, pos2)"
      by (subst (asm) mtrk_loop.simps) (auto split: if_splits)
    have gap: "pos < pos1" "pos1 < pos2" using read_vlq_pos [OF v] parse_event_pos [OF e] by simp_all
    show ?thesis
    proof (cases "event = EndOfTrack")
      case eot: True
      with True v p1 e "1.prems" gap show ?thesis
        by (subst (asm) mtrk_loop.simps) auto
    next
      case more: False
      from True v p1 e more "1.prems"
      have "mtrk_loop um bytes track_end pos2 (case st of None \<Rightarrow> rs | Some s \<Rightarrow> Some s)
          (case event of TrackName n \<Rightarrow> Some n | _ \<Rightarrow> nm) (evs @ [\<lparr>delta_ticks = delta, ev = event\<rparr>]) = Ok (nm', evs')"
        by (subst (asm) mtrk_loop.simps) (simp add: Let_def)
      from "1.IH" [OF True v refl _ e refl refl refl refl refl more this] p1 gap show ?thesis by auto
    qed
  qed
qed

definition short_track :: "smf_track \<Rightarrow> bool" where
  "short_track t \<longleftrightarrow> length (track_events t) \<le> 2 ^ 31 \<and> (\<forall>e \<in> set (track_events t). parsed_event e)"

lemma parse_mtrk_short: "parse_mtrk um bytes pos = Ok (t, q) \<Longrightarrow> short_track t"
proof -
  assume t: "parse_mtrk um bytes pos = Ok (t, q)"
  then obtain n p nm evs where "mtrk_loop um bytes (p + unat (n :: 32 word)) p None None [] = Ok (nm, evs)"
    and t': "track_events t = evs"
    by (auto simp: parse_mtrk_def split: if_splits)
  from mtrk_loop_count [OF this(1)] have "2 * length evs \<le> unat n" by simp
  also have "\<dots> < 2 ^ 32" using unat_u32_less [of n] by simp
  finally have "length evs \<le> 2 ^ 31" by simp
  with parse_mtrk_wf [OF t] t' show ?thesis by (simp add: short_track_def parsed_track_def)
qed

lemma parse_short: "parse um bytes = Ok f \<Longrightarrow> length (file_tracks f) < 2 ^ 16 \<and> (\<forall>t \<in> set (file_tracks f). short_track t)"
proof -
  assume p: "parse um bytes = Ok f"
  then obtain n pos q where r: "read_n (parse_mtrk um) (unat (n :: 16 word)) bytes pos = Ok (file_tracks f, q)"
    by (auto simp: parse_def)
  have "True \<and> (\<forall>t \<in> set (file_tracks f). short_track t)"
    by (rule read_n_all [OF _ _ r, where I = "\<lambda>_. True"]) (auto dest: parse_mtrk_short)
  with parse_wf [OF p] show ?thesis by simp
qed

lemma track_length_le:
  "\<forall>e \<in> set es. unat (delta_ticks e) \<le> c \<Longrightarrow> track_length es \<le> length es * c"
  by (induction es) (auto intro: add_mono)

lemma short_track_length:
  assumes "short_track t"
  shows "track_length (track_events t) \<le> 2 ^ 59"
proof -
  have "track_length (track_events t) \<le> length (track_events t) * 2 ^ 28"
    using assms by (intro track_length_le) (auto simp: short_track_def parsed_event_def less_imp_le)
  also have "\<dots> \<le> 2 ^ 31 * 2 ^ 28" using assms by (intro mult_right_mono) (simp_all add: short_track_def)
  finally show ?thesis by simp
qed

subsection \<open>The times of a parsed file\<close>

text \<open>A tempo is at most \<open>2^24\<close> microseconds, and a file has at most \<open>2^47\<close> tempo events.\<close>

lemma absolute_ticks_length:
  "absolute_ticks a es = Ok xs \<Longrightarrow> map snd xs = map ev es"
  by (induction es arbitrary: a xs) auto

lemma tempos_of_length: "length (tempos_of xs) \<le> length xs"
  by (induction xs rule: tempos_of.induct) auto

lemma tempos_of_set: "(t, us) \<in> set (tempos_of xs) \<Longrightarrow> Tempo us \<in> snd ` set xs"
  by (induction xs rule: tempos_of.induct) force+

lemma collect_tempos_bounds:
  assumes "collect_tempos trs = Ok raw" and "\<forall>t \<in> set trs. short_track t"
  shows "length raw \<le> length trs * 2 ^ 31 \<and> (\<forall>x \<in> set raw. unat (snd x) < 2 ^ 24)"
  using assms
proof (induction trs arbitrary: raw)
  case (Cons tr trs)
  obtain es rest where es: "absolute_ticks 0 (track_events tr) = Ok es" and rest: "collect_tempos trs = Ok rest"
    and raw: "raw = tempos_of es @ rest"
    using Cons.prems(1) by auto
  note l = absolute_ticks_length [OF es]
  have "length es = length (track_events tr)" using arg_cong [OF l, of length] by simp
  with tempos_of_length [of es] Cons.prems(2) have "length (tempos_of es) \<le> 2 ^ 31"
    by (simp add: short_track_def)
  moreover have "unat us < 2 ^ 24" if "(t, us) \<in> set (tempos_of es)" for t us
  proof -
    from tempos_of_set [OF that] have "Tempo us \<in> set (map ev (track_events tr))" by (simp flip: l)
    then obtain e where "e \<in> set (track_events tr)" "ev e = Tempo us" by auto
    with Cons.prems(2) have "good_event (Tempo us) \<or> sysex_event (Tempo us)"
      by (auto simp: short_track_def parsed_event_def)
    then show ?thesis by (auto simp: sysex_event_def)
  qed
  ultimately show ?case using Cons.IH [OF rest] Cons.prems(2) raw by auto
qed simp

lemma roundings_small:
  assumes "n \<le> 2 ^ 48"
  shows "(1 + 1 / 2 ^ 53 :: rat) ^ n \<le> 32 / 31"
proof -
  have "1 + of_nat n * (- 1 / 2 ^ 53) \<le> (1 + - 1 / 2 ^ 53 :: rat) ^ n"
    by (rule Bernoulli_inequality) simp
  moreover have "(of_nat n :: rat) \<le> 2 ^ 48" using assms of_nat_mono [OF assms, where 'a = rat] by simp
  ultimately have lo: "31 / 32 \<le> (1 - 1 / 2 ^ 53 :: rat) ^ n" by simp
  have "(1 + 1 / 2 ^ 53 :: rat) ^ n * (1 - 1 / 2 ^ 53) ^ n = ((1 + 1 / 2 ^ 53) * (1 - 1 / 2 ^ 53)) ^ n"
    by (simp only: power_mult_distrib)
  also have "\<dots> \<le> 1" by (intro power_le_one) simp_all
  finally have "(1 + 1 / 2 ^ 53 :: rat) ^ n * (1 - 1 / 2 ^ 53) ^ n \<le> 1" .
  moreover have "(1 + 1 / 2 ^ 53 :: rat) ^ n * (31 / 32) \<le> (1 + 1 / 2 ^ 53) ^ n * (1 - 1 / 2 ^ 53) ^ n"
    using lo by (intro mult_left_mono) simp_all
  ultimately show ?thesis by linarith
qed

definition latest_time :: rat where "latest_time = 3 * 2 ^ 62"

lemma exact_seconds_bound:
  assumes "tpb \<noteq> 0" and "us \<le> 2 ^ 59 * 2 ^ 24"
  shows "exact_seconds us tpb \<le> 2 ^ 83 / 1000000"
proof -
  have "0 < unat tpb" using assms(1) by (simp add: unat_gt_0)
  then have "(1 :: rat) \<le> of_nat (unat tpb)" by (simp del: of_nat_unat)
  moreover have "(of_nat us :: rat) \<le> 2 ^ 83" using of_nat_mono [OF assms(2), where 'a = rat] by simp
  ultimately show ?thesis unfolding exact_seconds_def by (intro frac_le) simp_all
qed

lemma secs_at_bound:
  assumes "from_file file = Ok m" and "length (file_tracks file) < 2 ^ 16"
    and "\<forall>t \<in> set (file_tracks file). short_track t" and "pos \<le> 2 ^ 59"
  shows "secs_at m pos \<le> latest_time"
proof (cases "tm_ticks_per_beat m = 0 \<or> tm_entries m = []")
  case True
  then show ?thesis by (auto simp: secs_at_def latest_time_def)
next
  case False
  then obtain tpb where d: "file_division file = TicksPerBeat tpb"
    using assms(1) by (cases "file_division file") (auto simp: from_file_def)
  then obtain raw where raw: "collect_tempos (file_tracks file) = Ok raw"
    using assms(1) by (auto simp: from_file_def)
  note f = from_file_tempo [OF raw d assms(1)]
  have tpb: "tpb \<noteq> 0" using False f(2) by simp
  note b = collect_tempos_bounds [OF raw assms(3)]
  have start: "starts_after 0 (tm_entries m)"
    using map_ok_starts [OF from_file_ok [OF assms(1)]] False by simp
  have in_force: "unat (tempo_in_force raw k) \<le> 2 ^ 24" for k
    using b latest_le [of k raw] by (force simp: tempo_in_force_def split: option.splits)
  define us where "us = (\<Sum>k<pos. unat (tempo_in_force raw k))"
  have "us \<le> pos * 2 ^ 24"
    unfolding us_def using sum_bounded_above [of "{..<pos}", OF in_force] by simp
  then have us: "us \<le> 2 ^ 59 * 2 ^ 24" using assms(4) by (meson mult_right_mono order_trans zero_le)
  have "approx 3 0 (exact_seconds 0 tpb)" by (simp add: approx_def exact_seconds_def normal_def)
  from approx_secs_from [OF tpb start _ this, of pos 500000]
  have "secs_from tpb pos (tm_entries m) 0 0 500000 \<le>
      exact_seconds us tpb * (1 + 1 / 2 ^ 53) ^ (4 + length (tm_entries m))"
    by (simp add: f(1) approx_def atLeast0LessThan us_def)
  moreover have "4 + length (tm_entries m) \<le> 2 ^ 48" using f(4) b assms(2) by simp
  then have "exact_seconds us tpb * (1 + 1 / 2 ^ 53) ^ (4 + length (tm_entries m)) \<le> 2 ^ 83 / 1000000 * (32 / 31)"
    by (intro mult_mono exact_seconds_bound tpb us roundings_small) simp_all
  ultimately have "secs_from tpb pos (tm_entries m) 0 0 500000 \<le> latest_time"
    by (simp add: latest_time_def)
  then show ?thesis using False f(2) by (simp add: secs_at_def)
qed

lemma timed_events_bound:
  assumes "map_ok_for m" and "\<And>pos. pos \<le> 2 ^ 59 \<Longrightarrow> secs_at m pos \<le> latest_time"
    and "timed_events m a es = Ok ts" and "a + track_length es \<le> 2 ^ 59"
  shows "\<forall>t \<in> fst ` set ts. 0 \<le> t \<and> t \<le> latest_time"
  using assms(3,4)
proof (induction es arbitrary: a ts)
  case (Cons e es)
  then obtain ts' where ts: "ts = (secs_at m (a + unat (delta_ticks e)), ev e) # ts'"
    and rest: "timed_events m (a + unat (delta_ticks e)) es = Ok ts'"
    by (auto simp: tick_to_secs_alt [OF assms(1)])
  from Cons.prems(2) have "a + unat (delta_ticks e) \<le> 2 ^ 59" by simp
  from assms(2) [OF this] Cons.IH [OF rest] Cons.prems(2) show ?case by (simp add: ts algebra_simps secs_at_nonneg)
qed simp

lemma collect_events_bound:
  assumes "map_ok_for m" and "\<And>pos. pos \<le> 2 ^ 59 \<Longrightarrow> secs_at m pos \<le> latest_time"
    and "collect_events m trs = Ok es" and "\<forall>t \<in> set trs. short_track t"
  shows "\<forall>t \<in> fst ` set es. 0 \<le> t \<and> t \<le> latest_time"
  using assms(3,4)
proof (induction trs arbitrary: es)
  case (Cons tr trs)
  then obtain ts rest where "timed_events m 0 (track_events tr) = Ok ts" "collect_events m trs = Ok rest" "es = ts @ rest"
    by auto
  with timed_events_bound [OF assms(1,2), of 0 "track_events tr" ts] short_track_length [of tr] Cons show ?case by auto
qed simp

lemma player_of_parsed:
  assumes "parse um bytes = Ok file"
  shows "\<exists>p. player_new file = Ok p \<and> (\<forall>t \<in> fst ` set (sp_events p). t \<le> latest_time) \<and>
    sorted (0 # map fst (sp_events p))"
proof -
  note short = parse_short [OF assms]
  have fits: "\<not> list_ex (\<lambda>tr. u64_max < track_length (track_events tr)) (file_tracks file)"
    using short short_track_length by (force simp: list_ex_iff not_less)
  then obtain m where m: "from_file file = Ok m" "map_ok_for m"
    using from_file_cases [of "file"] by (auto split: result.splits)
  then obtain es where es: "collect_events m (file_tracks file) = Ok es"
    using collect_events_cases [OF m(2), of "file_tracks file"] fits by (auto split: result.splits)
  have "\<forall>t \<in> fst ` set es. 0 \<le> t \<and> t \<le> latest_time"
    by (rule collect_events_bound [OF m(2) secs_at_bound [OF m(1)] es]) (use short in auto)
  then show ?thesis using es by (simp add: player_new_alt [OF m(1)])
qed

lemma fl64_latest_time: "fl64 latest_time = latest_time"
proof -
  have "fl64 (of_int 3 * 2 powi 62) = of_int 3 * 2 powi 62"
    by (rule fl_exact) (simp_all add: emin_64)
  then show ?thesis by (simp add: latest_time_def)
qed

lemma midi_send_cases:
  "refuse (mc_sent c) (to_bytes m) = None \<Longrightarrow> midi_send refuse m c = (Ok (), c\<lparr>mc_sent := mc_sent c @ [to_bytes m]\<rparr>)"
  "refuse (mc_sent c) (to_bytes m) = Some e \<Longrightarrow> midi_send refuse m c = (Err (Device e), c)"
  by (simp_all add: midi_send_def)

lemma play_loop_no_panic:
  assumes "\<forall>t \<in> fst ` set es. t \<le> latest_time" and "0 \<le> l" and "sorted (l # map fst es)"
  shows "fst (play_loop (midi_send refuse) l es out) \<noteq> Panic"
  using assms
proof (induction es arbitrary: l out)
  case (Cons e es)
  obtain t event where e: "e = (t, event)" by (cases e)
  have "fl64 (t - l) \<le> fl64 latest_time" using Cons.prems e by (intro fl_mono) simp
  then have d: "fl64 (t - l) < 2 ^ 64" by (simp add: fl64_latest_time) (simp add: latest_time_def)
  have IH: "fst (play_loop (midi_send refuse) t es o') \<noteq> Panic" for o'
    using Cons.IH [of t o'] Cons.prems e by simp
  show ?case
  proof (cases event)
    case (Midi msg)
    show ?thesis
      using d IH [of "snd (midi_send refuse msg out)"]
      by (cases "refuse (mc_sent out) (to_bytes msg)";
          cases "play_loop (midi_send refuse) t es (snd (midi_send refuse msg out))")
        (auto simp: e Midi Let_def midi_send_cases)
  qed (use d IH [of out] in \<open>cases "play_loop (midi_send refuse) t es out"; simp add: e Let_def\<close>)+
qed simp

text \<open>The bytes on the port, which the contract of ports gives only as one stream, message by message.\<close>

lemma play_loop_sent:
  "play_loop (midi_send refuse) l es out = (r, actions, out') \<Longrightarrow> r \<noteq> Panic \<Longrightarrow>
     mc_sent out' = mc_sent out @ map to_bytes (sends actions) \<and>
     (if is_ok r then sends actions = map snd (midi_events es) else prefix (sends actions) (map snd (midi_events es)))"
proof (induction es arbitrary: l out r actions out')
  case (Cons e es)
  obtain t event where e: "e = (t, event)" by (cases e)
  define delay where "delay = fl64 (t - l)"
  show ?case
  proof (cases event)
    case (Midi msg)
    show ?thesis
    proof (cases "refuse (mc_sent out) (to_bytes msg)")
      case None
      let ?out = "out\<lparr>mc_sent := mc_sent out @ [to_bytes msg]\<rparr>"
      obtain r2 a2 o2 where rest: "play_loop (midi_send refuse) t es ?out = (r2, a2, o2)"
        by (cases "play_loop (midi_send refuse) t es ?out")
      from Cons.prems Cons.IH [OF rest] rest None Midi show ?thesis
        by (auto simp: e Let_def midi_send_cases split: if_splits)
    next
      case (Some x)
      with Cons.prems Midi show ?thesis by (auto simp: e Let_def midi_send_cases split: if_splits)
    qed
  qed (use Cons in \<open>cases "play_loop (midi_send refuse) t es out"; fastforce simp: e Let_def split: if_splits\<close>)+
qed simp

text \<open>A file of two messages and a port that accepts everything.\<close>

lemma play_loop_accepts:
  assumes "\<And>sent bytes. refuse sent bytes = None"
  shows "\<not> is_err (fst (play_loop (midi_send refuse) l es out))"
proof (induction es arbitrary: l out)
  case (Cons e es)
  obtain t event where e: "e = (t, event)" by (cases e)
  show ?case
  proof (cases event)
    case (Midi msg)
    let ?out = "out\<lparr>mc_sent := mc_sent out @ [to_bytes msg]\<rparr>"
    show ?thesis
      using Cons.IH [of t ?out] assms [of "mc_sent out" "to_bytes msg"]
      by (cases "play_loop (midi_send refuse) t es ?out") (auto simp: e Midi Let_def midi_send_cases)
  qed (use Cons.IH [of t out] in \<open>cases "play_loop (midi_send refuse) t es out"; simp add: e Let_def\<close>)+
qed simp

lemma midi_events_count: "length (midi_events es) = size (filter_mset is_Midi (mset (map snd es)))"
  by (induction es rule: midi_events.induct) auto

lemma player_counts:
  assumes "player_new file = Ok p"
  shows "length (midi_events (sp_events p)) =
    length (filter is_Midi (concat (map (\<lambda>tr. map ev (track_events tr)) (file_tracks file))))"
proof -
  from assms obtain m where m: "from_file file = Ok m" by (auto simp: player_new_def)
  from assms obtain es where es: "collect_events m (file_tracks file) = Ok es" and p: "sp_events p = sort_key fst es"
    by (auto simp: player_new_alt [OF m])
  have "map snd es = concat (map (\<lambda>tr. map ev (track_events tr)) (file_tracks file))"
    using collect_events_cases [OF from_file_ok [OF m], of "file_tracks file"] es by simp
  then have "mset (map snd (sp_events p)) = mset (concat (map (\<lambda>tr. map ev (track_events tr)) (file_tracks file)))"
    by (metis mset_map mset_sort p)
  then show ?thesis by (simp only: midi_events_count mset_filter [symmetric] size_mset)
qed

lemma sample_messages: "length (filter is_Midi (map ev (track_events (normalise_track sample_track)))) = 2"
  by (simp add: normalise_track_def sample_track_def with_eot_def sample_note_def)

subsection \<open>Properties\<close>

lemma parse_64: "slice_ok usize_max_64 bytes \<Longrightarrow> parse usize_max_64 bytes \<noteq> Panic"
  by (rule parse_no_panic) (simp add: slice_ok_def headroom_def)

text \<open>
  C38: Playing a file, from its bytes to the port. On a 64-bit target \<open>play_smf\<close> never panics,
  whatever the file has in it, as long as the MIDI system does not: a parsed track is shorter than
  \<open>2^59\<close> ticks, and no time in it reaches the longest sleep. A file that does not parse is an error with the text of
  the parser and nothing is sent. Otherwise the port has been sent the bytes of a first part of the MIDI messages of
  the player, in order, each once, and of all of them when there is no error.
\<close>

theorem play_smf_spec:
  assumes "slice_ok usize_max_64 bytes" and "open_midi_output M port \<noteq> Panic"
  shows "case play_smf usize_max_64 M refuse (Ok bytes) port of (r, actions, out) \<Rightarrow>
    r \<noteq> Panic \<and> mc_sent out = map to_bytes (sends actions) \<and>
    (case parse usize_max_64 bytes of
       Ok smf \<Rightarrow>
         (case player_new smf of
            Ok p \<Rightarrow> (if is_ok r then sends actions = map snd (midi_events (sp_events p))
                     else prefix (sends actions) (map snd (midi_events (sp_events p))))
          | _ \<Rightarrow> False)
     | Err e \<Rightarrow> r = Err (Stream (Lit ''SMF parse error: '' # smf_text e)) \<and> actions = []
     | Panic \<Rightarrow> False)"
proof (cases "parse usize_max_64 bytes")
  case (Ok smf)
  then obtain p where p: "player_new smf = Ok p" "\<forall>t \<in> fst ` set (sp_events p). t \<le> latest_time"
      "sorted (0 # map fst (sp_events p))"
    using player_of_parsed by blast
  show ?thesis
  proof (cases "open_midi_output M port")
    case out: (Ok out)
    obtain r actions out' where run: "play_loop (midi_send refuse) 0 (sp_events p) out = (r, actions, out')"
      by (cases "play_loop (midi_send refuse) 0 (sp_events p) out")
    have "mc_sent out = []" using out by (auto simp: open_midi_output_def split: if_splits)
    moreover have "r \<noteq> Panic" using play_loop_no_panic [OF p(2) _ p(3), of refuse out] run by simp
    ultimately show ?thesis
      using play_loop_sent [OF run] Ok out p(1) run by (simp add: play_smf_def play_def del: split_paired_All)
  qed (use assms(2) Ok p(1) in \<open>simp_all add: play_smf_def\<close>)
qed (use parse_64 [OF assms(1)] in \<open>simp_all add: play_smf_def\<close>)

theorem play_smf_spec_witness:
  "\<exists>actions out. play_smf usize_max_64 \<lparr>in_client = \<lambda>_. Ok [], out_client = \<lambda>_. Ok [None], connect_in = \<lambda>_. Ok (),
      connect_out = \<lambda>_. Ok ()\<rparr> (\<lambda>_ _. None) (Ok (sample_bytes (TicksPerBeat 480))) 0 = (Ok (), actions, out) \<and>
    length (mc_sent out) = 2"
proof -
  let ?M = "\<lparr>in_client = \<lambda>_. Ok [], out_client = \<lambda>_. Ok [None], connect_in = \<lambda>_. Ok (), connect_out = \<lambda>_. Ok ()\<rparr>"
  let ?bytes = "sample_bytes (TicksPerBeat 480)"
  obtain smf where smf: "parse usize_max_64 ?bytes = Ok smf" "file_tracks smf = [normalise_track sample_track]"
    using parse_sample that by (simp add: normalise_def sample_file_def)
  obtain p where p: "player_new smf = Ok p" using player_of_parsed [OF smf(1)] by auto
  have two: "length (midi_events (sp_events p)) = 2"
    using player_counts [OF p] sample_messages by (simp add: smf(2) del: filter_map)
  have ok: "open_midi_output ?M 0 = Ok \<lparr>mc_sent = []\<rparr>" by (simp add: open_midi_output_def)
  obtain r actions out where run: "play_smf usize_max_64 ?M (\<lambda>_ _. None) (Ok ?bytes) 0 = (r, actions, out)"
    by (cases "play_smf usize_max_64 ?M (\<lambda>_ _. None) (Ok ?bytes) 0")
  have "\<not> is_err r"
    using play_loop_accepts [of "\<lambda>_ _. None" 0 "sp_events p" "\<lparr>mc_sent = []\<rparr>"] run smf(1) p ok
    by (simp add: play_smf_def play_def)
  moreover have "r \<noteq> Panic" "mc_sent out = map to_bytes (sends actions)"
    "is_ok r \<Longrightarrow> sends actions = map snd (midi_events (sp_events p))"
    using play_smf_spec [OF sample_bytes_fit(2), of ?M 0 "TicksPerBeat 480" "\<lambda>_ _. None"] ok run smf(1) p
    by simp_all
  ultimately show ?thesis using run two by (cases r) auto
qed

end
