(* ===== verification/Cpal_Callback.thy ===== *)
theory Cpal_Callback
  imports Cpal_Recovery
begin

text \<open>
  The streams of the cpal backend that have no queue (\<open>callback.rs\<close> and their opening in \<open>device.rs\<close> of
  \<open>crates/oxisound-cpal/src/\<close>), the streams of the \<open>tokio\<close> feature (\<open>async_streams.rs\<close>) with their opening, and
  the estimate of the latency. A callback of the caller is a step of its state; the channel of \<open>tokio\<close> is unbounded.
\<close>

subsection \<open>Callback streams\<close>

record callback_output =
  cbo_disconnect :: bool
  cbo_nanos :: "64 word"

record callback_input =
  cbi_disconnect :: bool

definition last_callback_duration :: "callback_output \<Rightarrow> 64 word option" where
  "last_callback_duration s = (if cbo_nanos s = 0 then None else Some (cbo_nanos s))"

definition callback_is_disconnected :: "callback_output \<Rightarrow> bool" where
  "callback_is_disconnected s = cbo_disconnect s"

text \<open>\<open>pause\<close> and \<open>resume\<close> of both kinds; the argument is the answer of the backend.\<close>

definition callback_control :: "(unit, cpal_error) result \<Rightarrow> (unit, oxi_error) result" where
  "callback_control r = map_err (\<lambda>e. Stream [Str (snd e)]) r"

definition cpal_callback_cycle :: "('u \<Rightarrow> f32 list \<Rightarrow> 'u \<times> f32 list) \<Rightarrow> f32 list \<Rightarrow> 64 word \<Rightarrow> 'u \<Rightarrow> callback_output
    \<Rightarrow> f32 list \<times> 'u \<times> callback_output" where
  "cpal_callback_cycle callback device_buf elapsed u s =
     (let (u, out) = callback u device_buf in (out, u, s\<lparr>cbo_nanos := elapsed\<rparr>))"

definition callback_fault :: "error_kind \<Rightarrow> callback_output \<Rightarrow> callback_output" where
  "callback_fault ek s = s\<lparr>cbo_disconnect := True\<rparr>"

definition callback_capture :: "('u \<Rightarrow> f32 list \<Rightarrow> 'u) \<Rightarrow> f32 list \<Rightarrow> 'u \<Rightarrow> callback_input \<Rightarrow> 'u \<times> callback_input" where
  "callback_capture callback captured u s = (callback u captured, s)"

definition callback_input_fault :: "error_kind \<Rightarrow> callback_input \<Rightarrow> callback_input" where
  "callback_input_fault ek s = s\<lparr>cbi_disconnect := True\<rparr>"

definition open_output_callback_unbounded :: "backend \<Rightarrow> cpal_device \<Rightarrow> stream_config
    \<Rightarrow> (callback_output, oxi_error) result" where
  "open_output_callback_unbounded B d config =
     and_then (map_err map_default_config_err (default_out d)) (\<lambda>supported.
     (let c = to_cpal_stream_config config supported in
      and_then (is_config_supported_for_output d c) (\<lambda>_.
      and_then (map_err map_build_stream_err (build_stream B d c C_F32)) (\<lambda>_.
      and_then (map_err map_play_stream_err (play_stream B)) (\<lambda>_.
      Ok \<lparr>cbo_disconnect = False, cbo_nanos = 0\<rparr>)))))"

definition open_input_callback_unbounded :: "backend \<Rightarrow> cpal_device \<Rightarrow> stream_config
    \<Rightarrow> (callback_input, oxi_error) result" where
  "open_input_callback_unbounded B d config =
     and_then (map_err map_default_config_err (default_in d)) (\<lambda>supported.
     (let c = to_cpal_stream_config config supported in
      and_then (is_config_supported_for_input d c) (\<lambda>_.
      and_then (map_err map_build_stream_err (build_stream B d c C_F32)) (\<lambda>_.
      and_then (map_err map_play_stream_err (play_stream B)) (\<lambda>_.
      Ok \<lparr>cbi_disconnect = False\<rparr>)))))"

definition cpal_open_output_callback :: "backend \<Rightarrow> cpal_device \<Rightarrow> stream_config \<Rightarrow> rstring option \<Rightarrow> nat option
    \<Rightarrow> nat \<times> (callback_output, oxi_error) result" where
  "cpal_open_output_callback B d config spawned t =
     run_bounded ''output-callback'' spawned t (open_output_callback_unbounded B d config)"

definition open_input_callback :: "backend \<Rightarrow> cpal_device \<Rightarrow> stream_config \<Rightarrow> rstring option \<Rightarrow> nat option
    \<Rightarrow> nat \<times> (callback_input, oxi_error) result" where
  "open_input_callback B d config spawned t =
     run_bounded ''input-callback'' spawned t (open_input_callback_unbounded B d config)"

subsection \<open>Streams of the tokio feature\<close>

text \<open>
  An output stream wraps the ring-backed one. An input stream has the receiving end of a channel; the sending end
  lives in the callback, which the stream itself keeps alive. The flag that the error callback sets belongs to no one else.
\<close>

record async_input =
  ai_queue :: "f32 list list"
  ai_sender_alive :: bool
  ai_flag :: bool

definition open_async_output :: "('r, f32) ring_ops \<Rightarrow> nat \<Rightarrow> backend \<Rightarrow> cpal_device \<Rightarrow> stream_config
    \<Rightarrow> rstring option \<Rightarrow> nat option \<Rightarrow> nat \<times> ('r opened_output, oxi_error) result" where
  "open_async_output R um B d config spawned t = open_output_inner R um B d config spawned t"

definition async_write :: "('r, f32) ring_ops \<Rightarrow> f32 list \<Rightarrow> 'r cpal_output
    \<Rightarrow> (unit, oxi_error) result \<times> 'r cpal_output" where
  "async_write R samples s = cpal_write R samples s"

fun async_sample_type :: "cpal_format \<Rightarrow> cpal_format option" where
  "async_sample_type C_F32 = Some C_F32"
| "async_sample_type C_I16 = Some C_I16"
| "async_sample_type C_I24 = Some C_I32"
| "async_sample_type C_I32 = Some C_I32"
| "async_sample_type _ = None"

definition open_async_input_unbounded :: "backend \<Rightarrow> cpal_device \<Rightarrow> stream_config
    \<Rightarrow> (async_input, oxi_error) result" where
  "open_async_input_unbounded B d config =
     and_then (validate config (input_info d)) (\<lambda>_.
     and_then (map_err map_default_config_err (default_in d)) (\<lambda>supported.
     (let c = to_cpal_stream_config config supported in
      and_then (is_config_supported_for_input d c) (\<lambda>_.
      map_ok (\<lambda>_. \<lparr>ai_queue = [], ai_sender_alive = True, ai_flag = False\<rparr>)
        (build_and_play B ''async input: unsupported sample format '' async_sample_type d c (dc_format supported))))))"

definition open_async_input :: "backend \<Rightarrow> cpal_device \<Rightarrow> stream_config \<Rightarrow> rstring option \<Rightarrow> nat option
    \<Rightarrow> nat \<times> (async_input, oxi_error) result" where
  "open_async_input B d config spawned t = run_bounded ''async-input'' spawned t (open_async_input_unbounded B d config)"

definition async_callback :: "('t \<Rightarrow> f32) \<Rightarrow> 't list \<Rightarrow> async_input \<Rightarrow> async_input" where
  "async_callback conv captured s = s\<lparr>ai_queue := ai_queue s @ [map conv captured]\<rparr>"

definition async_fault :: "error_kind \<Rightarrow> async_input \<Rightarrow> async_input" where
  "async_fault ek s =
     (if ek \<in> {DeviceNotAvailable, StreamInvalidated, BackendError} then s\<lparr>ai_flag := True\<rparr> else s)"

text \<open>\<open>poll_recv\<close> of the channel: an item, the end when no sender is left, or nothing yet.\<close>

datatype 'a polled = Item 'a | Finished | Waiting

definition async_poll :: "async_input \<Rightarrow> f32 list polled \<times> async_input" where
  "async_poll s =
     (case ai_queue s of
        b # bs \<Rightarrow> (Item b, s\<lparr>ai_queue := bs\<rparr>)
      | [] \<Rightarrow> (if ai_sender_alive s then Waiting else Finished, s))"

subsection \<open>Latency\<close>

definition default_output_latency_ms :: "cpal_device \<Rightarrow> (f32, oxi_error) result" where
  "default_output_latency_ms d =
     and_then (map_err map_default_config_err (default_out d)) (\<lambda>supported.
     (let rate = cc_rate (dc_config supported);
          frames = (case dc_buffer supported of BufferRange mn _ \<Rightarrow> of_uint (unat mn) | UnknownRange \<Rightarrow> Finite 0)
      in if rate = 0 then Ok 0
         else Ok (bits_of (div32 (mul32 frames (Finite 1000)) (bits_of (of_uint (unat rate)))))))"

subsection \<open>What the async input delivers\<close>

text \<open>
  Besides capturing, reporting an error and being polled, the backend may let go of the data callback, and with it
  of the only sender, at any time: whether and when it does so after a loss is its own affair. A callback that is gone captures nothing.
\<close>

datatype 't async_event = Async_Captured "'t list" | Async_Fault error_kind | Async_Dropped | Async_Poll

definition async_drop :: "async_input \<Rightarrow> async_input" where
  "async_drop s = s\<lparr>ai_sender_alive := False\<rparr>"

fun async_run :: "('t \<Rightarrow> f32) \<Rightarrow> 't async_event list \<Rightarrow> async_input \<Rightarrow> f32 list polled list \<times> async_input" where
  "async_run conv [] s = ([], s)"
| "async_run conv (Async_Captured b # es) s =
     async_run conv es (if ai_sender_alive s then async_callback conv b s else s)"
| "async_run conv (Async_Fault k # es) s = async_run conv es (async_fault k s)"
| "async_run conv (Async_Dropped # es) s = async_run conv es (async_drop s)"
| "async_run conv (Async_Poll # es) s =
     (let (p, s) = async_poll s; (ps, s) = async_run conv es s in (p # ps, s))"

fun items :: "'a polled list \<Rightarrow> 'a list" where
  "items [] = []"
| "items (Item x # ps) = x # items ps"
| "items (_ # ps) = items ps"

fun captures :: "'t async_event list \<Rightarrow> 't list list" where
  "captures [] = []"
| "captures (Async_Captured b # es) = b # captures es"
| "captures (Async_Dropped # es) = []"
| "captures (_ # es) = captures es"

fun device_lost :: "'t async_event list \<Rightarrow> bool" where
  "device_lost [] = False"
| "device_lost (Async_Fault k # es) = (k \<in> {DeviceNotAvailable, StreamInvalidated, BackendError} \<or> device_lost es)"
| "device_lost (_ # es) = device_lost es"

text \<open>How many buffers are waiting, counted from the events alone: a poll takes one if there is one.\<close>

fun backlog :: "bool \<Rightarrow> nat \<Rightarrow> 't async_event list \<Rightarrow> nat" where
  "backlog alive n [] = n"
| "backlog alive n (Async_Captured b # es) = backlog alive (if alive then Suc n else n) es"
| "backlog alive n (Async_Fault k # es) = backlog alive n es"
| "backlog alive n (Async_Dropped # es) = backlog False n es"
| "backlog alive n (Async_Poll # es) = backlog alive (n - 1) es"

text \<open>What a poll after these events is due.\<close>

definition poll_due :: "('t \<Rightarrow> f32) \<Rightarrow> 't async_event list \<Rightarrow> f32 list polled" where
  "poll_due conv es =
     (let caught = captures es; waiting = backlog True 0 es
      in if waiting \<noteq> 0 then Item (map conv (caught ! (length caught - waiting)))
         else if Async_Dropped \<in> set es then Finished else Waiting)"

fun error_report :: "'t async_event \<Rightarrow> bool" where
  "error_report (Async_Fault k) = True"
| "error_report _ = False"

lemma async_run_from:
  assumes "async_run conv es s = (ps, t)"
  shows "items ps @ ai_queue t = ai_queue s @ (if ai_sender_alive s then map (map conv) (captures es) else []) \<and>
    length (ai_queue t) = backlog (ai_sender_alive s) (length (ai_queue s)) es \<and>
    ai_sender_alive t = (ai_sender_alive s \<and> Async_Dropped \<notin> set es) \<and> ai_flag t = (ai_flag s \<or> device_lost es)"
  using assms
proof (induction es arbitrary: s ps)
  case (Cons e es)
  show ?case
  proof (cases e)
    case Async_Poll
    obtain qs u where run: "async_run conv es (snd (async_poll s)) = (qs, u)"
      by (cases "async_run conv es (snd (async_poll s))")
    with Cons.prems Async_Poll have "ps = fst (async_poll s) # qs" and "t = u" by (simp_all add: case_prod_beta)
    with Cons.IH [of "snd (async_poll s)" qs] run Async_Poll show ?thesis
      by (cases "ai_queue s") (simp_all add: async_poll_def)
  next
    case (Async_Captured b)
    with Cons.IH [of "if ai_sender_alive s then async_callback conv b s else s" ps] Cons.prems show ?thesis
      by (simp add: async_callback_def split: if_splits)
  next
    case (Async_Fault k)
    with Cons.IH [of "async_fault k s" ps] Cons.prems show ?thesis
      by (simp add: async_fault_def split: if_splits)
  next
    case Async_Dropped
    with Cons.IH [of "async_drop s" ps] Cons.prems show ?thesis by (simp add: async_drop_def)
  qed
qed simp

lemma async_run_poll:
  "async_run conv (es @ [Async_Poll]) s =
    (let (ps, t) = async_run conv es s in (ps @ [fst (async_poll t)], snd (async_poll t)))"
proof (induction es arbitrary: s)
  case (Cons e es)
  then show ?case by (cases e) (simp_all add: case_prod_beta Let_def)
qed (simp add: Let_def case_prod_beta)

text \<open>The channel does not see the error callback.\<close>

lemma async_run_deaf:
  assumes "ai_queue s = ai_queue s'" and "ai_sender_alive s = ai_sender_alive s'"
  shows "fst (async_run conv (filter (\<lambda>e. \<not> error_report e) es) s) = fst (async_run conv es s')"
  using assms
proof (induction es arbitrary: s s')
  case (Cons e es)
  show ?case
  proof (cases e)
    case Async_Poll
    have "fst (async_poll s) = fst (async_poll s')" "ai_queue (snd (async_poll s)) = ai_queue (snd (async_poll s'))"
      "ai_sender_alive (snd (async_poll s)) = ai_sender_alive (snd (async_poll s'))"
      using Cons.prems by (simp_all add: async_poll_def split: list.split)
    with Async_Poll Cons.IH [of "snd (async_poll s)" "snd (async_poll s')"] show ?thesis
      by (simp add: case_prod_beta)
  next
    case (Async_Captured b)
    with Cons.prems Cons.IH [of "async_callback conv b s" "async_callback conv b s'"] Cons.IH [of s s'] show ?thesis
      by (simp add: async_callback_def)
  next
    case (Async_Fault k)
    with Cons.prems Cons.IH [of s "async_fault k s'"] show ?thesis by (simp add: async_fault_def split: if_splits)
  next
    case Async_Dropped
    with Cons.prems Cons.IH [of "async_drop s" "async_drop s'"] show ?thesis by (simp add: async_drop_def)
  qed
qed simp

lemma suffix_hd: "xs @ y # ys = zs \<Longrightarrow> zs ! (length zs - Suc (length ys)) = y"
  by (auto simp: nth_append)

lemma poll_due_next:
  assumes "async_run conv es s = (ps, t)" and "ai_queue s = []" and "ai_sender_alive s"
  shows "fst (async_poll t) = poll_due conv es"
proof -
  note r = async_run_from [OF assms(1)]
  show ?thesis
  proof (cases "ai_queue t")
    case Nil
    with r assms show ?thesis by (auto simp: async_poll_def poll_due_def)
  next
    case (Cons b bs)
    with r assms have b: "Suc (length bs) = backlog True 0 es" and
      q: "items ps @ b # bs = map (map conv) (captures es)" by simp_all
    have "length (captures es) = length (items ps) + Suc (length bs)" using arg_cong [OF q, of length] by simp
    with suffix_hd [OF q] have "b = map conv (captures es ! (length (captures es) - Suc (length bs)))" by simp
    with Cons show ?thesis by (simp add: async_poll_def poll_due_def Let_def flip: b)
  qed
qed


end
