(* ===== verification/Facade_Devices.thy ===== *)
theory Facade_Devices
  imports Cpal_Callback Pulse_Device
begin

text \<open>
  Devices and streams of the facade (\<open>crates/oxisound/src/lib.rs\<close>): its entry points over the cpal and the
  PulseAudio backend, selection by index, the listing, monitoring and the callback for device events. Each
  call opens the default host anew, so two queries in one function can get different answers: they
  are two arguments. Functions whose name a backend has taken have the prefix \<open>oxi\<close>.
\<close>

subsection \<open>The default host\<close>

text \<open>Opening something on the device that a query gave, with the time it takes.\<close>

fun open_on :: "(cpal_handle, oxi_error) result \<Rightarrow> (cpal_device \<Rightarrow> nat \<times> ('a, oxi_error) result)
    \<Rightarrow> nat \<times> ('a, oxi_error) result" where
  "open_on (Ok dev) f = f (ch_device dev)"
| "open_on (Err e) f = (0, Err e)"
| "open_on Panic f = (0, Panic)"

definition oxi_default_output :: "target_os \<Rightarrow> cpal_host \<Rightarrow> (cpal_handle, oxi_error) result" where
  "oxi_default_output os h = default_output os h"

definition oxi_default_input :: "target_os \<Rightarrow> cpal_host \<Rightarrow> (cpal_handle, oxi_error) result" where
  "oxi_default_input os h = default_input os h"

definition enumerate_devices :: "cpal_host \<Rightarrow> (device_info list, oxi_error) result" where
  "enumerate_devices h = enumerate_output h"

definition enumerate_input_devices :: "cpal_host \<Rightarrow> (device_info list, oxi_error) result" where
  "enumerate_input_devices h = enumerate_input h"

definition enumerate_all_devices :: "cpal_host \<Rightarrow> (device_info list, oxi_error) result" where
  "enumerate_all_devices h = enumerate_all h"

definition oxi_open_output :: "('r, f32) ring_ops \<Rightarrow> nat \<Rightarrow> target_os \<Rightarrow> cpal_host \<Rightarrow> backend \<Rightarrow> stream_config
    \<Rightarrow> rstring option \<Rightarrow> nat option \<Rightarrow> nat \<times> ('r opened_output, oxi_error) result" where
  "oxi_open_output R um os h B config spawned t =
     open_on (default_output os h) (\<lambda>d. open_output_inner R um B d config spawned t)"

definition oxi_open_input :: "('r, f32) ring_ops \<Rightarrow> nat \<Rightarrow> target_os \<Rightarrow> cpal_host \<Rightarrow> backend \<Rightarrow> stream_config
    \<Rightarrow> rstring option \<Rightarrow> nat option \<Rightarrow> nat \<times> ('r opened_input, oxi_error) result" where
  "oxi_open_input R um os h B config spawned t =
     open_on (default_input os h) (\<lambda>d. open_input_inner R um B d config spawned t)"

definition oxi_open_loopback :: "(rstring \<Rightarrow> rstring) \<Rightarrow> target_os \<Rightarrow> cpal_host \<Rightarrow> cpal_host
    \<Rightarrow> (cpal_device \<Rightarrow> ('a, oxi_error) result) \<Rightarrow> ('a, oxi_error) result" where
  "oxi_open_loopback lower os h h' open_dev =
     and_then (default_output os h) (\<lambda>_. open_loopback lower os h' open_dev)"

definition select_device :: "(rstring \<Rightarrow> rstring) \<Rightarrow> target_os \<Rightarrow> rstring \<Rightarrow> cpal_host \<Rightarrow> (cpal_handle, oxi_error) result" where
  "select_device lower os fragment h = select_output lower os fragment h"

definition select_input_device :: "(rstring \<Rightarrow> rstring) \<Rightarrow> target_os \<Rightarrow> rstring \<Rightarrow> cpal_host \<Rightarrow> (cpal_handle, oxi_error) result" where
  "select_input_device lower os fragment h = select_input lower os fragment h"

definition duplex_stream :: "('r, f32) ring_ops \<Rightarrow> nat \<Rightarrow> target_os \<Rightarrow> cpal_host \<Rightarrow> backend \<Rightarrow> stream_config
    \<Rightarrow> rstring option \<Rightarrow> nat option \<Rightarrow> nat \<times> ('r cpal_duplex, oxi_error) result" where
  "duplex_stream R um os h B config spawned t =
     open_on (default_output os h) (\<lambda>d. open_duplex R um B d config spawned t)"

definition latency_ms :: "cpal_handle \<Rightarrow> (f32, oxi_error) result" where
  "latency_ms dev = default_output_latency_ms (ch_device dev)"

definition device_by_index :: "(rstring \<Rightarrow> rstring) \<Rightarrow> target_os \<Rightarrow> cpal_host \<Rightarrow> cpal_host \<Rightarrow> nat
    \<Rightarrow> (cpal_handle, oxi_error) result" where
  "device_by_index lower os h h' i =
     and_then (enumerate_devices h) (\<lambda>ds.
       if i < length ds then select_output lower os (dev_name (ds ! i)) h' else Err NoDevice)"

definition preferred_output_config :: "target_os \<Rightarrow> cpal_host \<Rightarrow> (stream_config, oxi_error) result" where
  "preferred_output_config os h =
     and_then (default_output os h) (\<lambda>dev.
     (let buf_size = (case optimal_buffer_size (ch_device dev) of Ok b \<Rightarrow> Some b | _ \<Rightarrow> None) in
      Ok \<lparr>sample_rate = 48000, channels = 2, buffer_size = buf_size, sample_format_opt = None,
          exclusive = False, preferred_formats = [], routing_opt = None, buffer_capacity_secs = None\<rparr>))"

subsection \<open>Callbacks and asynchronous streams\<close>

definition play_callback :: "target_os \<Rightarrow> cpal_host \<Rightarrow> backend \<Rightarrow> stream_config \<Rightarrow> rstring option \<Rightarrow> nat option
    \<Rightarrow> nat \<times> (callback_output, oxi_error) result" where
  "play_callback os h B config spawned t =
     open_on (default_output os h) (\<lambda>d. cpal_open_output_callback B d config spawned t)"

definition capture_callback :: "target_os \<Rightarrow> cpal_host \<Rightarrow> backend \<Rightarrow> stream_config \<Rightarrow> rstring option \<Rightarrow> nat option
    \<Rightarrow> nat \<times> (callback_input, oxi_error) result" where
  "capture_callback os h B config spawned t =
     open_on (default_input os h) (\<lambda>d. open_input_callback B d config spawned t)"

text \<open>Both directions, one after the other: the times add up.\<close>

definition duplex_callback :: "target_os \<Rightarrow> cpal_host \<Rightarrow> backend \<Rightarrow> stream_config \<Rightarrow> rstring option \<Rightarrow> nat option
    \<Rightarrow> rstring option \<Rightarrow> nat option \<Rightarrow> nat \<times> (callback_output \<times> callback_input, oxi_error) result" where
  "duplex_callback os h B config spawned t spawned' t' =
     (case play_callback os h B config spawned t of
        (n, Ok out) \<Rightarrow>
          (let (m, r) = capture_callback os h B config spawned' t' in (n + m, map_ok (Pair out) r))
      | (n, Err e) \<Rightarrow> (n, Err e)
      | (n, Panic) \<Rightarrow> (n, Panic))"

definition async_output :: "('r, f32) ring_ops \<Rightarrow> nat \<Rightarrow> target_os \<Rightarrow> cpal_host \<Rightarrow> backend \<Rightarrow> stream_config
    \<Rightarrow> rstring option \<Rightarrow> nat option \<Rightarrow> nat \<times> ('r opened_output, oxi_error) result" where
  "async_output R um os h B config spawned t =
     open_on (default_output os h) (\<lambda>d. open_async_output R um B d config spawned t)"

definition capture_stream :: "target_os \<Rightarrow> cpal_host \<Rightarrow> backend \<Rightarrow> stream_config \<Rightarrow> rstring option \<Rightarrow> nat option
    \<Rightarrow> nat \<times> (async_input, oxi_error) result" where
  "capture_stream os h B config spawned t =
     open_on (default_input os h) (\<lambda>d. open_async_input B d config spawned t)"

subsection \<open>PulseAudio\<close>

definition pulse_enumerate_devices :: "connector \<Rightarrow> pulse_server \<Rightarrow> (device_info list, oxi_error) result" where
  "pulse_enumerate_devices conn sv = pulse_enumerate conn sv"

definition oxi_pulse_default_output :: "connector \<Rightarrow> pulse_server \<Rightarrow> (pulse_descriptor, oxi_error) result" where
  "oxi_pulse_default_output conn sv = pulse_default_output conn sv"

definition oxi_pulse_default_input :: "connector \<Rightarrow> pulse_server \<Rightarrow> (pulse_descriptor, oxi_error) result" where
  "oxi_pulse_default_input conn sv = pulse_default_input conn sv"

definition pulse_output_of :: "('r, byte) ring_ops \<Rightarrow> nat \<Rightarrow> connector \<Rightarrow> pulse_server \<Rightarrow> stream_config
    \<Rightarrow> ('r pulse_output, oxi_error) result" where
  "pulse_output_of R um conn sv config =
     and_then (pulse_default_output conn sv) (\<lambda>d. open_output_concrete R um sv d config)"

definition pulse_input_of :: "('r, byte) ring_ops \<Rightarrow> nat \<Rightarrow> connector \<Rightarrow> pulse_server \<Rightarrow> stream_config
    \<Rightarrow> ('r pulse_input, oxi_error) result" where
  "pulse_input_of R um conn sv config =
     and_then (pulse_default_input conn sv) (\<lambda>d. open_input_concrete R um sv d config)"

definition pulse_duplex_of :: "('r, byte) ring_ops \<Rightarrow> nat \<Rightarrow> connector \<Rightarrow> pulse_server \<Rightarrow> stream_config
    \<Rightarrow> ('r pulse_duplex, oxi_error) result" where
  "pulse_duplex_of R um conn sv config =
     and_then (pulse_default_output conn sv) (\<lambda>d. open_duplex_concrete R um sv d config)"

definition pulse_output_named :: "('r, byte) ring_ops \<Rightarrow> nat \<Rightarrow> connector \<Rightarrow> pulse_server \<Rightarrow> rstring \<Rightarrow> stream_config
    \<Rightarrow> ('r pulse_output, oxi_error) result" where
  "pulse_output_named R um conn sv nm config =
     and_then (pulse_open_named conn sv nm Sink DEFAULT_CLIENT_NAME) (\<lambda>d. open_output_concrete R um sv d config)"

definition pulse_input_named :: "('r, byte) ring_ops \<Rightarrow> nat \<Rightarrow> connector \<Rightarrow> pulse_server \<Rightarrow> rstring \<Rightarrow> stream_config
    \<Rightarrow> ('r pulse_input, oxi_error) result" where
  "pulse_input_named R um conn sv nm config =
     and_then (pulse_open_named conn sv nm Source DEFAULT_CLIENT_NAME) (\<lambda>d. open_input_concrete R um sv d config)"

subsection \<open>The listing\<close>

fun joined :: "rstring \<Rightarrow> rstring list \<Rightarrow> rstring" where
  "joined sep [] = []"
| "joined sep [s] = s"
| "joined sep (s # t # rest) = s @ sep @ joined sep (t # rest)"

definition io_label :: "device_info \<Rightarrow> rstring" where
  "io_label d = str_lit (case (is_input d, is_output d) of
       (True, True) \<Rightarrow> ''in+out'' | (True, False) \<Rightarrow> ''in    '' | (False, True) \<Rightarrow> ''out   '' | (False, False) \<Rightarrow> ''      '')"

definition ch_str :: "device_info \<Rightarrow> rstring" where
  "ch_str d =
     (if channel_counts d = [] then str_lit ''ch:?''
      else str_lit ''ch:['' @ joined (str_lit '' '') (map (\<lambda>c. decimal (unat c)) (channel_counts d)) @ str_lit '']'')"

definition rate_str :: "device_info \<Rightarrow> rstring" where
  "rate_str d =
     (if sample_rates d = [] then str_lit ''rates:?''
      else (let mn = fold min (sample_rates d) (hd (sample_rates d)); mx = fold max (sample_rates d) (hd (sample_rates d)) in
        if mn = mx then str_lit ''rates:['' @ decimal (unat mn) @ str_lit '']''
        else str_lit ''rates:['' @ decimal (unat mn) @ str_lit ''-'' @ decimal (unat mx) @ str_lit '']''))"

definition device_line :: "device_info \<Rightarrow> rstring" where
  "device_line d =
     str_lit (if is_default d then ''*'' else '' '') @ str_lit '' ['' @ io_label d @ str_lit ''] '' @ ch_str d @
     str_lit '' '' @ rate_str d @ str_lit ''  '' @ dev_name d @ [10]"

definition format_devices :: "device_info list \<Rightarrow> rstring" where
  "format_devices ds = (if ds = [] then [] else fold (\<lambda>d out. out @ device_line d) ds [])"

subsection \<open>Monitoring and device events\<close>

definition oxi_stream_stats :: "('r, f32) ring_ops \<Rightarrow> (64 word \<Rightarrow> 64 word \<Rightarrow> f32) \<Rightarrow> 'r cpal_output \<Rightarrow> stream_stats option" where
  "oxi_stream_stats R load s = Some (cpal_output_stats R load s)"

text \<open>
  The thread of \<open>monitor_stream\<close>, over what it sees in each round: the stop flag and the statistics. The
  result is what the callback gets and the time slept in milliseconds.
\<close>

fun monitor_loop :: "nat \<Rightarrow> (bool \<times> stream_stats) list \<Rightarrow> stream_stats list \<times> nat" where
  "monitor_loop interval_ms [] = ([], 0)"
| "monitor_loop interval_ms ((stop, stats) # rounds) =
     (if stop then ([], 0)
      else let (seen, slept) = monitor_loop interval_ms rounds in (stats # seen, interval_ms + slept))"

text \<open>The thread of \<open>on_device_change\<close>, over the names that each poll sees.\<close>

fun on_device_change :: "(rstring set \<Rightarrow> rstring list) \<Rightarrow> rstring set \<Rightarrow> (bool \<times> rstring set) list \<Rightarrow> device_event list" where
  "on_device_change order prev [] = []"
| "on_device_change order prev ((stop, cur) # rest) =
     (if stop then [] else poll_events order prev cur @ on_device_change order cur rest)"

subsection \<open>Selection by index\<close>

lemma select_by_name_position:
  "map cpal_name ds = map Ok nms \<Longrightarrow>
     select_by_name lower os frag ds =
       (case position (\<lambda>nm. contains (lower nm) frag) nms of
          Some j \<Rightarrow> Ok \<lparr>ch_device = ds ! j, ch_api = default_host_api os\<rparr>
        | None \<Rightarrow> Err NoDevice)"
proof (induction ds arbitrary: nms)
  case (Cons d ds)
  then obtain nm rest where "nms = nm # rest" "cpal_name d = Ok nm" "map cpal_name ds = map Ok rest" by (cases nms) auto
  with Cons.IH show ?case by (simp split: option.split)
qed simp

lemma enumerate_outputs_names:
  "enumerate_outputs def ds = Ok infos \<Longrightarrow> map cpal_name ds = map Ok (map dev_name infos)"
proof (induction ds arbitrary: infos)
  case (Cons d ds)
  then obtain nm where nm: "cpal_name d = Ok nm" by (cases "cpal_name d") auto
  obtain rest where "enumerate_outputs def ds = Ok rest" "infos = hd infos # rest" "dev_name (hd infos) = nm"
    using Cons.prems nm by (auto simp: case_prod_beta)
  with Cons.IH [of rest] nm show ?case by (metis list.simps(9))
qed simp

lemma enumerate_devices_names:
  assumes "enumerate_devices h = Ok infos"
  obtains ds where "output_devices h = Ok ds" and "map cpal_name ds = map Ok (map dev_name infos)"
  using assms enumerate_outputs_names by (auto simp: enumerate_devices_def enumerate_output_def)

lemma contains_self: "contains xs xs"
  by (cases xs) simp_all

text \<open>Two outputs of which one name is part of the other: index 1 selects the device at index 0.\<close>

lemma device_by_index_wrong_device:
  assumes "output_devices h = Ok [a, b]" and "cpal_name a = Ok (str_lit ''USB Audio 2'')"
    and "cpal_name b = Ok (str_lit ''USB Audio'')"
  shows "device_by_index id os h h 1 = Ok \<lparr>ch_device = a, ch_api = default_host_api os\<rparr>"
  using assms
  by (simp add: device_by_index_def enumerate_devices_def enumerate_output_def select_output_def case_prod_beta str_lit_def)

subsection \<open>Listing and bounds\<close>

lemma decimal_no_newline: "10 \<notin> set (decimal n)"
proof (induction n rule: decimal.induct)
  case (1 n)
  have "(10 :: byte) \<noteq> word_of_nat (48 + k)" if "k < 10" for k
  proof -
    have "unat (word_of_nat (48 + k) :: byte) = 48 + k"
      using that by (simp add: unat_of_nat del: of_nat_add of_nat_numeral)
    then have "unat (word_of_nat (48 + k) :: byte) \<noteq> unat (10 :: byte)" by simp
    then show ?thesis by metis
  qed
  with 1 show ?case by (subst decimal.simps) auto
qed

lemma set_joined: "set (joined sep xs) \<subseteq> set sep \<union> \<Union> (set ` set xs)"
  by (induction sep xs rule: joined.induct) auto

lemma set_count_0: "x \<notin> set xs \<Longrightarrow> count_list xs x = 0"
  by (induction xs) auto

lemma device_line_newlines: "count_list (device_line d) 10 = count_list (dev_name d) 10 + 1"
proof -
  have "10 \<notin> set (ch_str d)"
    by (auto simp: ch_str_def str_lit_def dest!: subsetD [OF set_joined]) (auto simp: decimal_no_newline)
  moreover have "10 \<notin> set (rate_str d)"
    by (auto simp: rate_str_def decimal_no_newline str_lit_def Let_def)
  moreover have "10 \<notin> set (io_label d)"
    by (cases "is_input d"; cases "is_output d") (simp_all add: io_label_def str_lit_def)
  moreover have "10 \<notin> set (str_lit (if is_default d then ''*'' else '' ''))" by (simp add: str_lit_def)
  ultimately show ?thesis by (simp add: device_line_def set_count_0) (simp add: str_lit_def)
qed

text \<open>The listing has one line for each device when no name has a line break.\<close>

lemma format_devices_lines:
  "count_list (format_devices ds) 10 = length ds + sum_list (map (\<lambda>d. count_list (dev_name d) 10) ds)"
proof -
  have "count_list (fold (\<lambda>d out. out @ device_line d) ds out) 10 =
      count_list out 10 + (length ds + sum_list (map (\<lambda>d. count_list (dev_name d) 10) ds))" for out
    by (induction ds arbitrary: out) (auto simp: device_line_newlines)
  from this [of "[]"] show ?thesis by (simp add: format_devices_def)
qed

lemma open_on_bounded:
  assumes "\<And>d. fst (f d) \<le> n \<and> snd (f d) \<noteq> Panic"
  shows "fst (open_on (default_output os h) f) \<le> n \<and> snd (open_on (default_output os h) f) \<noteq> Panic
    \<and> fst (open_on (default_input os h) f) \<le> n \<and> snd (open_on (default_input os h) f) \<noteq> Panic"
  using assms
  by (cases "default_output_dev h"; cases "default_input_dev h") (simp_all add: default_output_def default_input_def)

text \<open>Every stream of the facade opens or fails within the time limit, a pair of callbacks within twice of it.\<close>

lemma facade_opens_bounded:
  "fst (oxi_open_output R um os h B config spawned t) \<le> STREAM_OPEN_TIMEOUT"
  "fst (oxi_open_input R um os h B config spawned t) \<le> STREAM_OPEN_TIMEOUT"
  "fst (duplex_stream R um os h B config spawned t) \<le> STREAM_OPEN_TIMEOUT"
  "fst (play_callback os h B config spawned t) \<le> STREAM_OPEN_TIMEOUT"
  "fst (capture_callback os h B config spawned t) \<le> STREAM_OPEN_TIMEOUT"
  "fst (async_output R um os h B config spawned t) \<le> STREAM_OPEN_TIMEOUT"
  "fst (capture_stream os h B config spawned t) \<le> STREAM_OPEN_TIMEOUT"
  by (simp_all add: oxi_open_output_def oxi_open_input_def duplex_stream_def play_callback_def capture_callback_def
      async_output_def capture_stream_def open_on_bounded open_output_inner_def open_input_inner_def open_duplex_def
      cpal_open_output_callback_def open_input_callback_def open_async_output_def open_async_input_def run_bounded_ok)

lemma duplex_callback_bounded: "fst (duplex_callback os h B config spawned t spawned' t') \<le> 2 * STREAM_OPEN_TIMEOUT"
proof (cases "play_callback os h B config spawned t")
  case (Pair n r)
  with facade_opens_bounded(4) [of os h B config spawned t]
    facade_opens_bounded(5) [of os h B config spawned' t'] show ?thesis
    by (cases r) (auto simp: duplex_callback_def case_prod_beta)
qed

subsection \<open>Property\<close>

text \<open>
  C39: Selecting a device by its index. When the listing succeeds and the index is in it, the result is the first
  output device whose name, in lower case, has the name of the device at the index in it, and so the
  device at the index exactly when no earlier name has. An index outside gives no device, and a failed
  listing its error.
\<close>

theorem device_by_index_spec:
  "case enumerate_devices h of
     Ok infos \<Rightarrow>
       (if i < length infos
        then (case (output_devices h, position (\<lambda>nm. contains (lower nm) (lower (dev_name (infos ! i)))) (map dev_name infos)) of
            (Ok ds, Some j) \<Rightarrow> j \<le> i \<and> length ds = length infos \<and>
              device_by_index lower os h h i = Ok \<lparr>ch_device = ds ! j, ch_api = default_host_api os\<rparr> \<and>
              (j = i) = list_all (\<lambda>info. \<not> contains (lower (dev_name info)) (lower (dev_name (infos ! i)))) (take i infos)
          | _ \<Rightarrow> False)
        else device_by_index lower os h h i = Err NoDevice)
   | Err e \<Rightarrow> device_by_index lower os h h i = Err e
   | Panic \<Rightarrow> device_by_index lower os h h i = Panic"
proof (cases "enumerate_devices h")
  case (Ok infos)
  then obtain ds where ds: "output_devices h = Ok ds" "map cpal_name ds = map Ok (map dev_name infos)"
    by (rule enumerate_devices_names)
  show ?thesis
  proof (cases "i < length infos")
    case True
    let ?P = "\<lambda>nm. contains (lower nm) (lower (dev_name (infos ! i)))"
    have Pi: "?P (map dev_name infos ! i)" using True by (simp add: contains_self)
    then obtain j where j: "position ?P (map dev_name infos) = Some j"
      using True position_None [of ?P "map dev_name infos"] by fastforce
    have le: "j \<le> i" using position_first [OF j, of i] Pi by force
    have iff: "(j = i) = list_all (\<lambda>info. \<not> ?P (dev_name info)) (take i infos)"
    proof
      assume "j = i"
      with position_first [OF j] True show "list_all (\<lambda>info. \<not> ?P (dev_name info)) (take i infos)"
        by (force simp: list_all_length)
    next
      assume none: "list_all (\<lambda>info. \<not> ?P (dev_name info)) (take i infos)"
      show "j = i"
      proof (rule ccontr)
        assume "j \<noteq> i"
        with le have "j < i" by simp
        with none True position_less [OF j] show False by (force simp: list_all_length)
      qed
    qed
    show ?thesis
      using Ok True ds(1) j le iff map_eq_imp_length_eq [OF ds(2)]
      by (simp add: device_by_index_def select_output_def select_by_name_position [OF ds(2)])
  qed (use Ok in \<open>simp add: device_by_index_def\<close>)
next
  case (Err e)
  then show ?thesis by (simp add: device_by_index_def)
next
  case Panic
  then show ?thesis by (simp add: device_by_index_def)
qed

end
