(* ===== verification/Facade_Events.thy ===== *)
theory Facade_Events
  imports Facade_Devices "HOL-Library.Sublist"
begin

text \<open>
  Device events from the polling watcher (\<open>crates/oxisound-cpal/src/watcher.rs\<close>) to the application: over the channel that
  \<open>try_recv\<close> reads, and over the broadcast channel of \<open>tokio\<close> that \<open>DeviceEventStream\<close>
  (\<open>crates/oxisound/src/lib.rs\<close>) polls. The broadcast channel keeps the last 64 events for a slow receiver, who is
  told how many it missed; its documented behaviour is the locale \<open>broadcast_channel\<close>.
\<close>

datatype broadcast_answer = Event device_event | Lagged nat | Closed | NotReady

definition BROADCAST_CAPACITY :: nat where "BROADCAST_CAPACITY = 64"

text \<open>\<open>poll_next\<close>: it goes on after a report of missed events.\<close>

partial_function (option) poll_next :: "('q \<Rightarrow> broadcast_answer \<times> 'q) \<Rightarrow> 'q \<Rightarrow> (device_event polled \<times> 'q) option" where
  "poll_next recv q =
     (case recv q of
        (Event e, q') \<Rightarrow> Some (Item e, q')
      | (Lagged n, q') \<Rightarrow> poll_next recv q'
      | (Closed, q') \<Rightarrow> Some (Finished, q')
      | (NotReady, q') \<Rightarrow> Some (Waiting, q'))"

text \<open>A round of the watcher's thread sends each event to both channels; the first one is unbounded.\<close>

record 'q watcher =
  wt_names :: "rstring set"
  wt_queue :: "device_event list"
  wt_broadcast :: 'q

definition watcher_round :: "(device_event \<Rightarrow> 'q \<Rightarrow> 'q) \<Rightarrow> (rstring set \<Rightarrow> rstring list) \<Rightarrow> rstring set
    \<Rightarrow> 'q watcher \<Rightarrow> 'q watcher" where
  "watcher_round send order current w =
     (let events = poll_events order (wt_names w) current in
      \<lparr>wt_names = current, wt_queue = wt_queue w @ events, wt_broadcast = fold send events (wt_broadcast w)\<rparr>)"

definition watcher_try_recv :: "'q watcher \<Rightarrow> device_event option \<times> 'q watcher" where
  "watcher_try_recv w =
     (case wt_queue w of [] \<Rightarrow> (None, w) | e # es \<Rightarrow> (Some e, w\<lparr>wt_queue := es\<rparr>))"

definition watch_start :: "rstring set \<Rightarrow> 'q \<Rightarrow> 'q watcher" where
  "watch_start names q = \<lparr>wt_names = names, wt_queue = [], wt_broadcast = q\<rparr>"

subsection \<open>The broadcast channel\<close>

locale broadcast_channel =
  fixes send :: "device_event \<Rightarrow> 'q \<Rightarrow> 'q" and recv :: "'q \<Rightarrow> broadcast_answer \<times> 'q"
    and waiting :: "'q \<Rightarrow> device_event list" and missed :: "'q \<Rightarrow> nat"
  assumes send_room: "length (waiting q) < BROADCAST_CAPACITY \<Longrightarrow>
      waiting (send e q) = waiting q @ [e] \<and> missed (send e q) = missed q"
    and send_full: "BROADCAST_CAPACITY \<le> length (waiting q) \<Longrightarrow>
      waiting (send e q) = tl (waiting q) @ [e] \<and> missed (send e q) = missed q + 1"
    and recv_lagged: "0 < missed q \<Longrightarrow>
      fst (recv q) = Lagged (missed q) \<and> waiting (snd (recv q)) = waiting q \<and> missed (snd (recv q)) = 0"
    and recv_event: "missed q = 0 \<Longrightarrow> waiting q = e # es \<Longrightarrow>
      fst (recv q) = Event e \<and> waiting (snd (recv q)) = es \<and> missed (snd (recv q)) = 0"
    and recv_empty: "missed q = 0 \<Longrightarrow> waiting q = [] \<Longrightarrow> recv q = (NotReady, q)"
begin

lemma poll_current:
  assumes "missed q = 0"
  shows "case waiting q of
     [] \<Rightarrow> poll_next recv q = Some (Waiting, q)
   | e # es \<Rightarrow> \<exists>q'. poll_next recv q = Some (Item e, q') \<and> waiting q' = es \<and> missed q' = 0"
proof (cases "waiting q")
  case Nil
  with assms show ?thesis by (subst poll_next.simps) (simp add: recv_empty)
next
  case (Cons e es)
  from recv_event [OF assms this] show ?thesis
    using Cons by (subst poll_next.simps) (auto simp: case_prod_beta split: prod.split)
qed

text \<open>A poll always returns: a report of missed events is followed by an event.\<close>

lemma poll_returns:
  "\<exists>q'. missed q' = 0 \<and>
     (case waiting q of
        [] \<Rightarrow> poll_next recv q = Some (Waiting, q') \<and> waiting q' = []
      | e # es \<Rightarrow> poll_next recv q = Some (Item e, q') \<and> waiting q' = es)"
proof (cases "missed q = 0")
  case True
  from poll_current [OF True] True show ?thesis by (cases "waiting q") auto
next
  case False
  then obtain q1 where q1: "recv q = (Lagged (missed q), q1)" "waiting q1 = waiting q" "missed q1 = 0"
    using recv_lagged [of q] by (cases "recv q") auto
  then have "poll_next recv q = poll_next recv q1" by (subst poll_next.simps) simp
  with poll_current [OF q1(3)] q1 show ?thesis by (cases "waiting q") auto
qed

lemma send_subseq: "subseq (waiting (send e q)) (waiting q @ [e])"
proof (cases "length (waiting q) < BROADCAST_CAPACITY")
  case False
  then show ?thesis using send_full [of q e] by (cases "waiting q") auto
qed (use send_room in simp)

lemma sends_subseq: "subseq (waiting (fold send es q)) (waiting q @ es)"
proof (induction es arbitrary: q)
  case (Cons e es)
  have "subseq (waiting (fold send es (send e q))) (waiting (send e q) @ es)" by (rule Cons)
  also have "subseq (waiting (send e q) @ es) (waiting q @ [e] @ es)"
    using list_emb_append_mono [OF send_subseq [of e q], of es es] by simp
  finally show ?case by simp
qed simp

lemma sends_fit:
  "length (waiting q) + length es \<le> BROADCAST_CAPACITY \<Longrightarrow> waiting (fold send es q) = waiting q @ es"
proof (induction es arbitrary: q)
  case (Cons e es)
  then have "length (waiting q) < BROADCAST_CAPACITY" by simp
  from send_room [OF this, of e] Cons show ?case by simp
qed simp

end

text \<open>A channel with these laws.\<close>

definition lossy_send :: "device_event \<Rightarrow> nat \<times> device_event list \<Rightarrow> nat \<times> device_event list" where
  "lossy_send e q =
     (case q of (m, es) \<Rightarrow> if length es < BROADCAST_CAPACITY then (m, es @ [e]) else (m + 1, tl es @ [e]))"

definition lossy_recv :: "nat \<times> device_event list \<Rightarrow> broadcast_answer \<times> nat \<times> device_event list" where
  "lossy_recv q =
     (case q of (m, es) \<Rightarrow>
        if 0 < m then (Lagged m, 0, es) else case es of [] \<Rightarrow> (NotReady, q) | e # es \<Rightarrow> (Event e, 0, es))"

interpretation lossy: broadcast_channel lossy_send lossy_recv snd fst
  by unfold_locales (auto simp: lossy_send_def lossy_recv_def)

subsection \<open>Runs\<close>

datatype watch_event = Watcher_Round "rstring set" | Stream_Poll | Try_Recv

fun event_run :: "(device_event \<Rightarrow> 'q \<Rightarrow> 'q) \<Rightarrow> ('q \<Rightarrow> broadcast_answer \<times> 'q) \<Rightarrow> (rstring set \<Rightarrow> rstring list)
    \<Rightarrow> watch_event list \<Rightarrow> 'q watcher \<Rightarrow> (device_event polled list \<times> device_event list \<times> 'q watcher) option" where
  "event_run send recv order [] w = Some ([], [], w)"
| "event_run send recv order (Watcher_Round names # es) w =
     event_run send recv order es (watcher_round send order names w)"
| "event_run send recv order (Stream_Poll # es) w =
     (case poll_next recv (wt_broadcast w) of
        None \<Rightarrow> None
      | Some (p, q) \<Rightarrow>
          (case event_run send recv order es (w\<lparr>wt_broadcast := q\<rparr>) of
             None \<Rightarrow> None | Some (ps, ts, w') \<Rightarrow> Some (p # ps, ts, w')))"
| "event_run send recv order (Try_Recv # es) w =
     (let (t, w) = watcher_try_recv w in
      case event_run send recv order es w of
        None \<Rightarrow> None
      | Some (ps, ts, w') \<Rightarrow> Some (ps, (case t of Some e \<Rightarrow> e # ts | None \<Rightarrow> ts), w'))"

fun rounds_of :: "watch_event list \<Rightarrow> rstring set list" where
  "rounds_of [] = []"
| "rounds_of (Watcher_Round names # es) = names # rounds_of es"
| "rounds_of (_ # es) = rounds_of es"

text \<open>The stream is polled often enough: never more than 64 events wait.\<close>

fun prompt :: "(rstring set \<Rightarrow> rstring list) \<Rightarrow> rstring set \<Rightarrow> nat \<Rightarrow> watch_event list \<Rightarrow> bool" where
  "prompt order prev n [] = True"
| "prompt order prev n (Watcher_Round names # es) =
     (let n' = n + length (poll_events order prev names) in n' \<le> BROADCAST_CAPACITY \<and> prompt order names n' es)"
| "prompt order prev n (Stream_Poll # es) = prompt order prev (n - 1) es"
| "prompt order prev n (Try_Recv # es) = prompt order prev n es"

context broadcast_channel
begin

lemma event_run_from:
  "\<exists>ps ts w'. event_run send recv order es w = Some (ps, ts, w') \<and>
     ts @ wt_queue w' = wt_queue w @ watch order (wt_names w) (rounds_of es) \<and> Finished \<notin> set ps \<and>
     subseq (items ps @ waiting (wt_broadcast w')) (waiting (wt_broadcast w) @ watch order (wt_names w) (rounds_of es)) \<and>
     (prompt order (wt_names w) (length (waiting (wt_broadcast w))) es \<longrightarrow>
        items ps @ waiting (wt_broadcast w') = waiting (wt_broadcast w) @ watch order (wt_names w) (rounds_of es))"
proof (induction es arbitrary: w)
  case Nil
  show ?case by simp
next
  case (Cons e es)
  show ?case
  proof (cases e)
    case (Watcher_Round names)
    let ?evs = "poll_events order (wt_names w) names" and ?w = "watcher_round send order names w"
    have state: "wt_names ?w = names" "wt_queue ?w = wt_queue w @ ?evs" "wt_broadcast ?w = fold send ?evs (wt_broadcast w)"
      by (simp_all add: watcher_round_def Let_def)
    obtain ps ts w' where ih: "event_run send recv order es ?w = Some (ps, ts, w')"
      "ts @ wt_queue w' = wt_queue ?w @ watch order names (rounds_of es)" "Finished \<notin> set ps"
      "subseq (items ps @ waiting (wt_broadcast w')) (waiting (wt_broadcast ?w) @ watch order names (rounds_of es))"
      "prompt order names (length (waiting (wt_broadcast ?w))) es \<longrightarrow>
         items ps @ waiting (wt_broadcast w') = waiting (wt_broadcast ?w) @ watch order names (rounds_of es)"
      using Cons [of ?w] state(1) by auto
    have "subseq (waiting (wt_broadcast ?w) @ watch order names (rounds_of es))
        ((waiting (wt_broadcast w) @ ?evs) @ watch order names (rounds_of es))"
      unfolding state(3) by (intro list_emb_append_mono sends_subseq) simp
    with ih(4) have sub: "subseq (items ps @ waiting (wt_broadcast w'))
        (waiting (wt_broadcast w) @ ?evs @ watch order names (rounds_of es))"
      by (metis append.assoc subseq_order.trans)
    have fit: "items ps @ waiting (wt_broadcast w') = waiting (wt_broadcast w) @ ?evs @ watch order names (rounds_of es)"
      if "prompt order (wt_names w) (length (waiting (wt_broadcast w))) (e # es)"
      using that ih(5) sends_fit [of "wt_broadcast w" ?evs] by (simp add: Watcher_Round state(3) Let_def)
    from ih(1-3) state(2) sub fit show ?thesis by (simp add: Watcher_Round)
  next
    case Stream_Poll
    obtain q where q: "case waiting (wt_broadcast w) of
          [] \<Rightarrow> poll_next recv (wt_broadcast w) = Some (Waiting, q) \<and> waiting q = []
        | e # es \<Rightarrow> poll_next recv (wt_broadcast w) = Some (Item e, q) \<and> waiting q = es"
      using poll_returns [of "wt_broadcast w"] by auto
    from Cons [of "w\<lparr>wt_broadcast := q\<rparr>"] q show ?thesis
      by (cases "waiting (wt_broadcast w)") (auto simp: Stream_Poll)
  next
    case Try_Recv
    show ?thesis
    proof (cases "wt_queue w")
      case Nil
      with Cons [of w] show ?thesis by (auto simp: Try_Recv watcher_try_recv_def)
    next
      case queue: (Cons d ds)
      from Cons [of "w\<lparr>wt_queue := ds\<rparr>"] show ?thesis by (auto simp: Try_Recv watcher_try_recv_def queue)
    qed
  qed
qed

end

text \<open>
  C14: What the application sees of the devices. In every run of the watcher, polls of the event stream and calls of
  \<open>try_recv\<close>, every poll returns and the stream never ends; the events from \<open>try_recv\<close>, with those still queued, are
  all events of the watcher, in order and once; the events of the stream, with those still waiting, are some of them, in
  order and once, and all of them when never more than 64 wait. In that case a listener that has polled everything
  and applied the events to the names it started with has the names that the watcher saw last.
\<close>

theorem device_events_reach_the_listener:
  assumes "broadcast_channel send recv waiting missed" and "waiting q = []"
    and "\<And>A. finite A \<Longrightarrow> set (order A) = A" and "finite names" and "list_all finite (rounds_of es)"
  shows "case event_run send recv order es (watch_start names q) of
     None \<Rightarrow> False
   | Some (ps, ts, w) \<Rightarrow>
       (let events = watch order names (rounds_of es); seen = items ps @ waiting (wt_broadcast w) in
        ts @ wt_queue w = events \<and> Finished \<notin> set ps \<and> subseq seen events \<and>
        (prompt order names 0 es \<longrightarrow> seen = events \<and>
           (waiting (wt_broadcast w) = [] \<longrightarrow> fold apply_event (items ps) names = last (names # rounds_of es))))"
proof -
  obtain ps ts w where run: "event_run send recv order es (watch_start names q) = Some (ps, ts, w)"
    "ts @ wt_queue w = watch order names (rounds_of es)" "Finished \<notin> set ps"
    "subseq (items ps @ waiting (wt_broadcast w)) (watch order names (rounds_of es))"
    "prompt order names 0 es \<longrightarrow> items ps @ waiting (wt_broadcast w) = watch order names (rounds_of es)"
    using broadcast_channel.event_run_from [OF assms(1), of order es "watch_start names q"] assms(2)
    by (auto simp: watch_start_def)
  have "fold apply_event (items ps) names = last (names # rounds_of es)"
    if "prompt order names 0 es" and "waiting (wt_broadcast w) = []"
  proof -
    have "items ps = watch order names (rounds_of es)" using run(5) that by simp
    then show ?thesis using apply_watch [OF assms(3-5)] by simp
  qed
  with run(2-5) show ?thesis by (simp add: run(1) Let_def)
qed

text \<open>A device appears and goes between two polls of the stream.\<close>

theorem device_events_reach_the_listener_witness:
  "case event_run lossy_send lossy_recv sorted_list_of_set
      [Watcher_Round {[65]}, Stream_Poll, Watcher_Round {}, Stream_Poll, Stream_Poll] (watch_start {} (0, [])) of
     None \<Rightarrow> False
   | Some (ps, ts, w) \<Rightarrow> ts @ wt_queue w = [DeviceAdded (build_device (device_builder [65])), DeviceRemoved [65]]"
proof -
  let ?es = "[Watcher_Round {[65]}, Stream_Poll, Watcher_Round {}, Stream_Poll, Stream_Poll]"
  have w: "watch sorted_list_of_set {} (rounds_of ?es) = [DeviceAdded (build_device (device_builder [65])), DeviceRemoved [65]]"
    by (simp add: poll_events_def)
  show ?thesis
    using device_events_reach_the_listener [OF lossy.broadcast_channel_axioms, of "(0, [])" sorted_list_of_set "{}" ?es]
    unfolding w by (auto simp: Let_def split: option.splits)
qed

end
