(* ===== verification/Poll_Thread.thy ===== *)
theory Poll_Thread
  imports Facade_Events
begin

text \<open>
  The polling threads of \<open>CpalDeviceWatcher::start\<close> (\<open>crates/oxisound-cpal/src/watcher.rs\<close>) and of
  \<open>on_device_change\<close> (\<open>device.rs\<close>) beside the thread that drops their handle: the flag, the round that may be under way when it
  is set, and the join. The rest of the development abstracts from the flag and the thread's position.
\<close>

subsection \<open>The thread and the drop of its handle\<close>

datatype poll_pc = Checking | Napping | Returned

record poll_thread =
  pt_pc :: poll_pc
  pt_names :: "rstring set"
  pt_calls :: "device_event list"
  pt_stop :: bool
  pt_joined :: bool

definition spawn_poll :: "rstring set \<Rightarrow> poll_thread" where
  "spawn_poll names = \<lparr>pt_pc = Checking, pt_names = names, pt_calls = [], pt_stop = False, pt_joined = False\<rparr>"

definition drop_stop :: "poll_thread \<Rightarrow> poll_thread" where
  [simp]: "drop_stop s = s\<lparr>pt_stop := True\<rparr>"

definition drop_join :: "poll_thread \<Rightarrow> poll_thread" where
  [simp]: "drop_join s = s\<lparr>pt_joined := True\<rparr>"

datatype poll_label = Check_Flag | Round "rstring set" | Set_Stop | Join

text \<open>
  The thread looks at the flag, sleeps, looks at the devices and reports; the handle's \<open>drop\<close> sets the flag and then waits
  for the thread to return.
\<close>

inductive poll_step :: "(rstring set \<Rightarrow> rstring list) \<Rightarrow> poll_label \<Rightarrow> poll_thread \<Rightarrow> poll_thread \<Rightarrow> bool"
  for order :: "rstring set \<Rightarrow> rstring list"
where
  stay: "pt_pc s = Checking \<Longrightarrow> \<not> pt_stop s \<Longrightarrow> poll_step order Check_Flag s (s\<lparr>pt_pc := Napping\<rparr>)"
| leave: "pt_pc s = Checking \<Longrightarrow> pt_stop s \<Longrightarrow> poll_step order Check_Flag s (s\<lparr>pt_pc := Returned\<rparr>)"
| look: "pt_pc s = Napping \<Longrightarrow> poll_step order (Round names) s
    (s\<lparr>pt_pc := Checking, pt_names := names, pt_calls := pt_calls s @ poll_events order (pt_names s) names\<rparr>)"
| sets_stop: "\<not> pt_stop s \<Longrightarrow> poll_step order Set_Stop s (drop_stop s)"
| joins: "pt_stop s \<Longrightarrow> pt_pc s = Returned \<Longrightarrow> \<not> pt_joined s \<Longrightarrow> poll_step order Join s (drop_join s)"

inductive_cases check_flagE: "poll_step order Check_Flag s t"
inductive_cases roundE: "poll_step order (Round names) s t"
inductive_cases set_stopE: "poll_step order Set_Stop s t"
inductive_cases joinE: "poll_step order Join s t"

lemmas poll_step_cases = check_flagE roundE set_stopE joinE

inductive poll_run :: "(rstring set \<Rightarrow> rstring list) \<Rightarrow> poll_thread \<Rightarrow> poll_label list \<Rightarrow> poll_thread \<Rightarrow> bool"
  for order :: "rstring set \<Rightarrow> rstring list"
where
  nothing: "poll_run order s [] s"
| step: "poll_step order l s t \<Longrightarrow> poll_run order t ls u \<Longrightarrow> poll_run order s (l # ls) u"

inductive_simps poll_run_nil: "poll_run order s [] u"
inductive_simps poll_run_cons: "poll_run order s (l # ls) u"

fun rounds_seen :: "poll_label list \<Rightarrow> rstring set list" where
  "rounds_seen [] = []"
| "rounds_seen (Round names # ls) = names # rounds_seen ls"
| "rounds_seen (l # ls) = rounds_seen ls"

lemma rounds_seen_append: "rounds_seen (xs @ ys) = rounds_seen xs @ rounds_seen ys"
  by (induction xs rule: rounds_seen.induct) simp_all

subsection \<open>What is reported\<close>

lemma poll_run_reports:
  "poll_run order s ls t \<Longrightarrow>
     pt_calls t = pt_calls s @ watch order (pt_names s) (rounds_seen ls) \<and> pt_names t = last (pt_names s # rounds_seen ls)"
proof (induction rule: poll_run.induct)
  case (step l s t ls u)
  from step.hyps(1) step.IH show ?case by (cases l) (auto elim!: poll_step_cases)
qed simp

text \<open>The callback gets the events of \<open>on_device_change\<close> over the rounds that were run.\<close>

lemma on_device_change_running:
  "on_device_change order prev (map (Pair False) polls @ (True, cur) # rest) = watch order prev polls"
  by (induction polls arbitrary: prev) simp_all

lemma poll_thread_refines:
  "poll_run order (spawn_poll names) ls t \<Longrightarrow>
     pt_calls t = on_device_change order names (map (Pair False) (rounds_seen ls) @ [(True, {})])"
  using poll_run_reports [of order "spawn_poll names" ls t]
  by (simp add: spawn_poll_def on_device_change_running)

subsection \<open>The drop\<close>

text \<open>What can still happen once the flag is set: the join among it.\<close>

fun pc_left :: "poll_pc \<Rightarrow> nat" where
  "pc_left Checking = 1"
| "pc_left Napping = 2"
| "pc_left Returned = 0"

definition steps_left :: "poll_thread \<Rightarrow> nat" where
  "steps_left s = pc_left (pt_pc s) + (if pt_joined s then 0 else 1)"

definition rounds_left :: "poll_thread \<Rightarrow> nat" where
  "rounds_left s = (if pt_pc s = Napping then 1 else 0)"

lemma stopped_step:
  "poll_step order l s t \<Longrightarrow> pt_stop s \<Longrightarrow>
     pt_stop t \<and> steps_left s = 1 + steps_left t \<and> rounds_left s = length (rounds_seen [l]) + rounds_left t"
  by (cases l) (auto simp: steps_left_def rounds_left_def elim!: poll_step_cases)

lemma stopped_run:
  "poll_run order s ls t \<Longrightarrow> pt_stop s \<Longrightarrow>
     pt_stop t \<and> steps_left s = length ls + steps_left t \<and> rounds_left s = length (rounds_seen ls) + rounds_left t"
proof (induction rule: poll_run.induct)
  case (step l s t ls u)
  from stopped_step [OF step.hyps(1) step.prems] step.IH rounds_seen_append [of "[l]" ls]
  show ?case by simp
qed simp

lemma stopped_goes_on: "pt_stop s \<Longrightarrow> 0 < steps_left s \<Longrightarrow> \<exists>l t. poll_step order l s t"
  by (cases "pt_pc s") (auto simp: steps_left_def intro: poll_step.intros split: if_splits)

lemma poll_run_append:
  "poll_run order s (xs @ ys) u \<longleftrightarrow> (\<exists>t. poll_run order s xs t \<and> poll_run order t ys u)"
  by (induction xs arbitrary: s) (auto simp: poll_run_nil poll_run_cons)

text \<open>The handle waits only for a thread that has returned.\<close>

lemma joined_returned:
  "poll_run order s ls t \<Longrightarrow> (pt_joined s \<longrightarrow> pt_stop s \<and> pt_pc s = Returned) \<Longrightarrow>
     (pt_joined t \<longrightarrow> pt_stop t \<and> pt_pc t = Returned)"
proof (induction rule: poll_run.induct)
  case (step l s t ls u)
  from step.hyps(1) step.prems step.IH show ?case by (cases l) (auto elim!: poll_step_cases)
qed simp

lemma joined_nothing_left: "poll_run order (spawn_poll names) ls t \<Longrightarrow> pt_joined t \<longleftrightarrow> pt_stop t \<and> steps_left t = 0"
  using joined_returned [of order "spawn_poll names" ls t]
  by (auto simp: spawn_poll_def steps_left_def split: if_splits)

subsection \<open>Property\<close>

text \<open>
  C15: Dropping the guard of the device listener (or the watcher). Whatever happened before and however the threads
  take turns, after the flag is set there are at most three more steps, of which at most one reports to the callback, a step is
  possible as long as the thread has not been joined, so the drop returns, and afterwards nothing is called any more. All
  calls together are the events of the rounds run, in order.
\<close>

theorem drop_ends_the_reports:
  assumes "poll_run order (spawn_poll names) (before @ Set_Stop # after) t"
  shows "pt_calls t = watch order names (rounds_seen before @ rounds_seen after) \<and>
    length after \<le> 3 \<and> length (rounds_seen after) \<le> 1 \<and>
    (if pt_joined t then \<nexists>l u. poll_step order l t u else \<exists>l u. poll_step order l t u)"
proof -
  from assms obtain s where run: "poll_run order s after t" and stop: "pt_stop s"
    by (auto simp: poll_run_append poll_run_cons elim!: set_stopE)
  from stopped_run [OF run stop] have left: "pt_stop t" "steps_left s = length after + steps_left t"
    "rounds_left s = length (rounds_seen after) + rounds_left t" by simp_all
  have "steps_left s \<le> 3" and "rounds_left s \<le> 1"
    by (cases "pt_pc s"; simp add: steps_left_def rounds_left_def)+
  with left have "length after \<le> 3" and "length (rounds_seen after) \<le> 1" by simp_all
  moreover have "pt_calls t = watch order names (rounds_seen before @ rounds_seen after)"
    using poll_run_reports [OF assms] by (simp add: spawn_poll_def rounds_seen_append)
  moreover have "if pt_joined t then \<nexists>l u. poll_step order l t u else \<exists>l u. poll_step order l t u"
    using joined_nothing_left [OF assms] stopped_step [of order _ t] stopped_goes_on [of t order] left(1) by fastforce
  ultimately show ?thesis by blast
qed

text \<open>The flag is set while the thread sleeps: a last device is reported.\<close>

theorem drop_ends_the_reports_witness:
  "\<exists>t. poll_run sorted_list_of_set (spawn_poll {}) ([Check_Flag] @ Set_Stop # [Round {[65]}, Check_Flag, Join]) t \<and>
     pt_calls t = [DeviceAdded (build_device (device_builder [65]))] \<and> pt_joined t"
proof -
  let ?s1 = "(spawn_poll {})\<lparr>pt_pc := Napping\<rparr>"
  let ?s2 = "?s1\<lparr>pt_stop := True\<rparr>"
  let ?s3 = "?s2\<lparr>pt_pc := Checking, pt_names := {[65]},
    pt_calls := pt_calls ?s2 @ poll_events sorted_list_of_set (pt_names ?s2) {[65]}\<rparr>"
  let ?s4 = "?s3\<lparr>pt_pc := Returned\<rparr>"
  let ?t = "?s4\<lparr>pt_joined := True\<rparr>"
  have "poll_step sorted_list_of_set Check_Flag (spawn_poll {}) ?s1" by (rule stay) (simp_all add: spawn_poll_def)
  moreover have "poll_step sorted_list_of_set Set_Stop ?s1 ?s2" using sets_stop [of ?s1] by (simp add: spawn_poll_def)
  moreover have "poll_step sorted_list_of_set (Round {[65]}) ?s2 ?s3" by (rule look) simp
  moreover have "poll_step sorted_list_of_set Check_Flag ?s3 ?s4" by (rule leave) simp_all
  moreover have "poll_step sorted_list_of_set Join ?s4 ?t" using joins [of ?s4] by (simp add: spawn_poll_def)
  ultimately have run: "poll_run sorted_list_of_set (spawn_poll {}) ([Check_Flag] @ Set_Stop # [Round {[65]}, Check_Flag, Join]) ?t"
    by (auto intro!: poll_run.intros)
  from drop_ends_the_reports [OF run] run show ?thesis by (intro exI [of _ ?t]) (simp add: poll_events_def)
qed

end
