(* ===== verification/Cpal_Handle.thy ===== *)
theory Cpal_Handle
  imports Cpal_Stream
begin

text \<open>
  The output handle of \<open>crates/oxisound-cpal/src/streams.rs\<close> used as its documentation asks: the application writes, calls
  \<open>tick_adaptive\<close> from time to time, pauses, resumes and stores sizes, while the audio thread empties the queue. What the
  ticks recommend is compared with the sizer of \<open>adaptive.rs\<close> over an abstract history that knows only the length of the queue.
\<close>

subsection \<open>The rest of the handle\<close>

text \<open>\<open>pause\<close> and \<open>resume\<close>; the argument is the answer of the backend.\<close>

definition pause_output :: "(unit, rstring) result \<Rightarrow> (unit, oxi_error) result" where
  "pause_output answer = map_err (\<lambda>e. Stream [Str e]) answer"

definition resume_output :: "(unit, rstring) result \<Rightarrow> (unit, oxi_error) result" where
  "resume_output answer = map_err (\<lambda>e. Stream [Str e]) answer"

definition adaptive_snapshot :: "'r cpal_output \<Rightarrow> sizer" where
  "adaptive_snapshot s = co_adaptive s"

definition desired_buffer_size :: "'r cpal_output \<Rightarrow> 32 word" where
  "desired_buffer_size s = co_desired s"

subsection \<open>Runs\<close>

datatype handle_step = H_Write "f32 list" | H_Callback nat "64 word" | H_Error error_kind | H_Tick | H_Resize "32 word"

text \<open>The answers of the ticks and the state at the end.\<close>

fun handle_run :: "('r, f32) ring_ops \<Rightarrow> channel_routing option \<Rightarrow> (f32 \<Rightarrow> 't) \<Rightarrow> handle_step list
    \<Rightarrow> 'r cpal_output \<Rightarrow> (32 word list \<times> 'r cpal_output, unit) result" where
  "handle_run R rt conv [] s = Ok ([], s)"
| "handle_run R rt conv (H_Write xs # es) s = handle_run R rt conv es (snd (cpal_write R xs s))"
| "handle_run R rt conv (H_Callback n elapsed # es) s =
     handle_run R rt conv es (snd (output_callback R rt conv n elapsed s))"
| "handle_run R rt conv (H_Error ek # es) s = handle_run R rt conv es (error_callback ek s)"
| "handle_run R rt conv (H_Tick # es) s =
     and_then (tick_adaptive s) (\<lambda>(sz, s'). map_ok (\<lambda>(szs, t). (sz # szs, t)) (handle_run R rt conv es s'))"
| "handle_run R rt conv (H_Resize frames # es) s = handle_run R rt conv es (set_desired_size frames s)"

subsection \<open>The abstract history\<close>

text \<open>
  Between two ticks there was an underrun when a callback found fewer samples than it needed. The history knows the
  capacity of the queue, how many samples wait, whether the device is lost and whether a callback has starved.
\<close>

fun history :: "nat \<Rightarrow> nat \<Rightarrow> bool \<Rightarrow> bool \<Rightarrow> handle_step list \<Rightarrow> sizer_event list" where
  "history c q lost starved [] = []"
| "history c q lost starved (H_Write xs # es) =
     history c (if \<not> lost \<and> length xs \<le> c - q then q + length xs else q) lost starved es"
| "history c q lost starved (H_Callback n elapsed # es) = history c (q - n) lost (starved \<or> q < n) es"
| "history c q lost starved (H_Error ek # es) =
     history c q (lost \<or> ek \<in> {DeviceNotAvailable, StreamInvalidated, BackendError}) starved es"
| "history c q lost starved (H_Tick # es) =
     (if starved then Underran else StablePeriod) # history c q lost False es"
| "history c q lost starved (H_Resize frames # es) = history c q lost starved es"

fun recommendations :: "sizer_event list \<Rightarrow> sizer \<Rightarrow> 32 word list" where
  "recommendations [] a = []"
| "recommendations (e # es) a =
     (case sizer_step e a of Ok b \<Rightarrow> sz_current b # recommendations es b | _ \<Rightarrow> [])"

fun sizes_stored :: "handle_step list \<Rightarrow> 32 word list" where
  "sizes_stored [] = []"
| "sizes_stored (H_Resize frames # es) = frames # sizes_stored es"
| "sizes_stored (e # es) = sizes_stored es"

fun samples_rendered :: "handle_step list \<Rightarrow> nat" where
  "samples_rendered [] = 0"
| "samples_rendered (H_Callback n elapsed # es) = n + samples_rendered es"
| "samples_rendered (e # es) = samples_rendered es"

lemma recommendations_within:
  "sizer_ok a \<Longrightarrow> list_all (\<lambda>w. sz_initial a \<le> w \<and> w \<le> sz_max a) (recommendations es a)"
proof (induction es arbitrary: a)
  case (Cons e es)
  from sizer_step_ok [OF Cons.prems, of e] obtain b where
    b: "sizer_step e a = Ok b" "sizer_ok b" "same_params a b" by blast
  with Cons.IH [OF b(2)] show ?case by (simp add: same_params_def sizer_ok_def)
qed simp

subsection \<open>The simulation\<close>

text \<open>One tick, given how many samples starved since the last one.\<close>

lemma tick_answer:
  assumes "sizer_ok (co_adaptive s)" and "co_underruns s = co_last_tick s + word_of_nat k"
    and "unat (co_last_tick s) + k < 2 ^ 64"
  shows "\<exists>b. sizer_step (if 0 < k then Underran else StablePeriod) (co_adaptive s) = Ok b \<and> sizer_ok b \<and>
    tick_adaptive s = Ok (sz_current b, s\<lparr>co_last_tick := co_underruns s, co_adaptive := b\<rparr>)"
proof -
  let ?e = "if 0 < k then Underran else StablePeriod"
  have "unat (co_underruns s) = unat (co_last_tick s) + k"
    using assms(2,3) by (simp add: unat_word_ariths(1) unat_of_nat)
  then have new: "0 < saturating_sub (co_underruns s) (co_last_tick s) \<longleftrightarrow> 0 < k"
    by (simp add: word_less_nat_alt unat_saturating_sub)
  from sizer_step_ok [OF assms(1), of ?e] obtain b where
    b: "sizer_step ?e (co_adaptive s) = Ok b" "sizer_ok b" by blast
  moreover have "tick_adaptive s = Ok (sz_current b, s\<lparr>co_last_tick := co_underruns s, co_adaptive := b\<rparr>)"
    using b(1) by (auto simp: tick_adaptive_def new Let_def record_underrun_def stable_period_cases [OF assms(1)] split: if_splits)
  ultimately show ?thesis by blast
qed

lemma callback_starves:
  assumes "ring R contents cap"
  shows "\<exists>r f. snd (output_callback R rt conv n elapsed s) =
      s\<lparr>co_ring := r, co_underruns := co_underruns s + word_of_nat (n - length (contents (co_ring s))),
        co_frames := f, co_callback_ns := elapsed\<rparr> \<and>
    contents r = drop n (contents (co_ring s)) \<and> cap r = cap (co_ring s)"
proof -
  from callback_due [OF assms, of rt conv n elapsed s] obtain r where
    "snd (output_callback R rt conv n elapsed s) =
       s\<lparr>co_ring := r, co_underruns := co_underruns s + word_of_nat (n - length (contents (co_ring s))),
         co_frames := co_frames s + word_of_nat (n div unat (max (co_channels s) 1)), co_callback_ns := elapsed\<rparr>"
    "contents r = drop n (contents (co_ring s))" "cap r = cap (co_ring s)"
    by (auto simp: due_missing)
  then show ?thesis by blast
qed

lemma handle_run_simulates:
  assumes "ring R contents cap"
  shows "co_reconnect s = None \<Longrightarrow> sizer_ok (co_adaptive s) \<Longrightarrow>
    co_underruns s = co_last_tick s + word_of_nat k \<Longrightarrow> unat (co_last_tick s) + k + samples_rendered es < 2 ^ 64 \<Longrightarrow>
    \<exists>t. handle_run R rt conv es s =
        Ok (recommendations (history (cap (co_ring s)) (length (contents (co_ring s))) (co_disconnected s) (0 < k) es)
              (co_adaptive s), t) \<and>
      desired_buffer_size t = last (desired_buffer_size s # sizes_stored es)"
proof (induction es arbitrary: s k)
  case Nil
  then show ?case by simp
next
  case (Cons e es)
  show ?case
  proof (cases e)
    case (H_Write xs)
    from cpal_write_cases [OF assms Cons.prems(1), of xs] obtain r where
      w: "snd (cpal_write R xs s) = s\<lparr>co_ring := r\<rparr>" "cap r = cap (co_ring s)"
        "contents r = contents (co_ring s) @ (if fst (cpal_write R xs s) = Ok () then xs else [])"
        "fst (cpal_write R xs s) = Ok () \<longleftrightarrow>
           \<not> co_disconnected s \<and> length xs \<le> cap (co_ring s) - length (contents (co_ring s))"
      by (auto split: if_splits)
    from Cons.IH [of "s\<lparr>co_ring := r\<rparr>" k] Cons.prems w H_Write show ?thesis
      by (auto simp: desired_buffer_size_def)
  next
    case (H_Callback n elapsed)
    let ?m = "n - length (contents (co_ring s))"
    from callback_starves [OF assms, of rt conv n elapsed s] obtain r f where
      c: "snd (output_callback R rt conv n elapsed s) = s\<lparr>co_ring := r, co_underruns := co_underruns s + word_of_nat ?m,
            co_frames := f, co_callback_ns := elapsed\<rparr>"
        "contents r = drop n (contents (co_ring s))" "cap r = cap (co_ring s)" by blast
    from Cons.IH [of "s\<lparr>co_ring := r, co_underruns := co_underruns s + word_of_nat ?m,
            co_frames := f, co_callback_ns := elapsed\<rparr>" "k + ?m"] Cons.prems c H_Callback
    show ?thesis by (simp add: desired_buffer_size_def)
  next
    case (H_Error ek)
    let ?lost = "co_disconnected s \<or> ek \<in> {DeviceNotAvailable, StreamInvalidated, BackendError}"
    have "error_callback ek s = s\<lparr>co_disconnected := ?lost\<rparr>" by (auto simp: error_callback_def)
    with Cons.IH [of "s\<lparr>co_disconnected := ?lost\<rparr>" k] Cons.prems H_Error show ?thesis
      by (simp add: desired_buffer_size_def)
  next
    case H_Tick
    have bound: "unat (co_last_tick s) + k < 2 ^ 64" using Cons.prems(4) by simp
    from tick_answer [OF Cons.prems(2,3) bound] obtain b where
      b: "sizer_step (if 0 < k then Underran else StablePeriod) (co_adaptive s) = Ok b" "sizer_ok b"
        "tick_adaptive s = Ok (sz_current b, s\<lparr>co_last_tick := co_underruns s, co_adaptive := b\<rparr>)" by blast
    have "unat (co_underruns s) = unat (co_last_tick s) + k"
      using Cons.prems(3) bound by (simp add: unat_word_ariths(1) unat_of_nat)
    with Cons.IH [of "s\<lparr>co_last_tick := co_underruns s, co_adaptive := b\<rparr>" 0] Cons.prems b H_Tick
    show ?thesis by (simp add: desired_buffer_size_def)
  next
    case (H_Resize frames)
    from Cons.IH [of "set_desired_size frames s" k] Cons.prems H_Resize show ?thesis
      by (simp add: set_desired_size_def desired_buffer_size_def)
  qed
qed

subsection \<open>Property\<close>

text \<open>
  C16: What \<open>tick_adaptive\<close> recommends. Take a freshly opened output stream that is not set to reconnect, and any order of
  writes, audio callbacks, errors, ticks and stored sizes in which fewer than \<open>2^64\<close> samples are played. No tick panics; its
  answer is the size of a sizer that is told at every tick whether a callback has starved since the last one, which
  follows from the lengths of the queue alone; every answer lies between the opening size and 8192 frames (opening sizes
  outside 128 to 8192 are moved to the nearer of these). The ticks do not change the size stored for the next opening: it
  is the last one the application has stored, or that of the opening.
\<close>

theorem adaptive_ticks_follow_the_queue:
  assumes "ring R contents cap" and "co_reconnect s = None" and "co_underruns s = 0" and "co_last_tick s = 0"
    and "co_adaptive s = new_sizer size0 128 8192 4" and "co_desired s = size0" and "samples_rendered es < 2 ^ 64"
  shows "case handle_run R rt conv es s of
     Ok (answers, t) \<Rightarrow>
       answers = recommendations (history (cap (co_ring s)) (length (contents (co_ring s))) (co_disconnected s) False es)
         (new_sizer size0 128 8192 4) \<and>
       list_all (\<lambda>w. min (max size0 128) 8192 \<le> w \<and> w \<le> 8192) answers \<and>
       desired_buffer_size t = last (size0 # sizes_stored es)
   | _ \<Rightarrow> False"
proof -
  have "max (128 :: 32 word) 1 = 128" and "max (8192 :: 32 word) 128 = 8192" by (simp_all add: max_def word_le_nat_alt)
  then have p: "sz_initial (new_sizer size0 128 8192 4) = min (max size0 128) 8192" "sz_max (new_sizer size0 128 8192 4) = 8192"
    by (simp_all add: new_sizer_def Let_def)
  have ok: "sizer_ok (co_adaptive s)" by (simp add: assms(5) new_sizer_ok)
  have "co_underruns s = co_last_tick s + word_of_nat 0" and "unat (co_last_tick s) + 0 + samples_rendered es < 2 ^ 64"
    using assms(3,4,7) by simp_all
  from handle_run_simulates [OF assms(1,2) ok this, of rt conv] obtain t where
    t: "handle_run R rt conv es s = Ok (recommendations (history (cap (co_ring s)) (length (contents (co_ring s)))
          (co_disconnected s) False es) (new_sizer size0 128 8192 4), t)"
      "desired_buffer_size t = last (size0 # sizes_stored es)"
    by (auto simp: assms(5,6) desired_buffer_size_def)
  show ?thesis
    unfolding t(1) result.case prod.case using recommendations_within [OF new_sizer_ok, of size0 128 8192 4] t(2)
    unfolding p by blast
qed

text \<open>A starved callback doubles the size; stable periods keep it.\<close>

theorem adaptive_ticks_follow_the_queue_witness:
  "case handle_run fifo None id
      [H_Write [7, 8, 9], H_Callback 2 0, H_Tick, H_Callback 2 0, H_Resize 4096, H_Tick, H_Tick] sample_stream of
     Ok (answers, t) \<Rightarrow> answers = [512, 1024, 1024] \<and> desired_buffer_size t = 4096
   | _ \<Rightarrow> False"
proof -
  let ?es = "[H_Write [7, 8, 9], H_Callback 2 0, H_Tick, H_Callback 2 0, H_Resize 4096, H_Tick, H_Tick]"
  have "\<not> (4 :: 32 word) \<le> 1" and "\<not> (128 :: 32 word) \<le> 1" by (simp_all add: word_le_nat_alt)
  then have "recommendations (history 6 0 False False ?es) (new_sizer 512 128 8192 4) = [512, 1024, 1024]"
    by (simp add: new_sizer_def record_underrun_def record_stable_period_def saturating_mul_def Let_def)
  then show ?thesis
    using adaptive_ticks_follow_the_queue [OF fifo_ring, of sample_stream 512 ?es None id]
    by (simp add: sample_stream_def split: result.splits prod.splits)
qed

end
