(* ===== verification/Facade_Reconnect.thy ===== *)
theory Facade_Reconnect
  imports Facade_Devices
begin

text \<open>
  The output stream of the facade that reconnects (\<open>auto_reconnect_output\<close> and \<open>AutoReconnectGuard\<close> of
  \<open>crates/oxisound/src/lib.rs\<close>): the guard, its monitor thread in steps between which the other
  threads run, and how long it takes to reconnect. Each opened stream has a flag of its own, which its
  error callback sets. The outcome of the \<open>i\<close>-th attempt to open is \<open>attempt i\<close>.
\<close>

subsection \<open>The guard\<close>

text \<open>Where the monitor is: before its check of the stop flag, before its poll, before an attempt, with a new stream, or gone.\<close>

datatype 'r monitor_phase = M_Check | M_Poll | M_Open | M_Install "'r cpal_output" | M_Gone

record 'r reconnecting =
  ar_stream :: "'r cpal_output option"
  ar_poisoned :: bool
  ar_stop :: bool
  ar_config :: stream_config
  ar_phase :: "'r monitor_phase"
  ar_backoff :: nat
  ar_tries :: nat
  ar_slept :: "nat list"

definition auto_reconnect_output :: "('r, f32) ring_ops \<Rightarrow> nat \<Rightarrow> target_os \<Rightarrow> cpal_host \<Rightarrow> backend \<Rightarrow> stream_config
    \<Rightarrow> rstring option \<Rightarrow> nat option \<Rightarrow> nat \<times> ('r reconnecting, oxi_error) result" where
  "auto_reconnect_output R um os h B config spawned t =
     (let (elapsed, r) = oxi_open_output R um os h B config spawned t in
      (elapsed, map_ok (\<lambda>opened. \<lparr>ar_stream = Some (oo_stream opened), ar_poisoned = False, ar_stop = False,
         ar_config = config, ar_phase = M_Check, ar_backoff = 0, ar_tries = 0, ar_slept = []\<rparr>) r))"

definition is_connected :: "'r reconnecting \<Rightarrow> bool" where
  "is_connected s \<longleftrightarrow> \<not> ar_poisoned s \<and> (case ar_stream s of Some x \<Rightarrow> \<not> co_disconnected x | None \<Rightarrow> False)"

definition reconnect_config :: "'r reconnecting \<Rightarrow> stream_config" where
  "reconnect_config s = ar_config s"

definition reconnect_write :: "('r, f32) ring_ops \<Rightarrow> f32 list \<Rightarrow> 'r reconnecting
    \<Rightarrow> (unit, oxi_error) result \<times> 'r reconnecting" where
  "reconnect_write R samples s =
     (if ar_poisoned s then (Err (Device [Lit ''mutex poisoned'']), s)
      else case ar_stream s of
          Some x \<Rightarrow> (let (r, x') = cpal_write R samples x in (r, s\<lparr>ar_stream := Some x'\<rparr>))
        | None \<Rightarrow> (Err (Disconnected [Lit ''reconnecting to audio device'']), s))"

definition stream_stats_default :: stream_stats where
  "stream_stats_default = \<lparr>frames_processed = 0, underruns = 0, overruns = 0, latency_frames = 0, cpu_load_percent = 0\<rparr>"

definition reconnect_stats :: "('r, f32) ring_ops \<Rightarrow> (64 word \<Rightarrow> 64 word \<Rightarrow> f32) \<Rightarrow> 'r reconnecting \<Rightarrow> stream_stats" where
  "reconnect_stats R load s =
     (if ar_poisoned s then stream_stats_default
      else case ar_stream s of Some x \<Rightarrow> cpal_output_stats R load x | None \<Rightarrow> stream_stats_default)"

definition drop_guard :: "'r reconnecting \<Rightarrow> 'r reconnecting" where
  "drop_guard s = s\<lparr>ar_stop := True\<rparr>"

subsection \<open>The monitor\<close>

definition MONITOR_BACKOFF_MS :: "nat list" where "MONITOR_BACKOFF_MS = [10, 50, 200, 1000]"

definition monitor_delay :: "nat \<Rightarrow> nat" where
  "monitor_delay i = MONITOR_BACKOFF_MS ! min i (length MONITOR_BACKOFF_MS - 1)"

definition monitor_next :: "nat \<Rightarrow> nat" where
  "monitor_next i = min (i + 1) (length MONITOR_BACKOFF_MS - 1)"

definition monitor_step :: "(nat \<Rightarrow> ('r opened_output, oxi_error) result) \<Rightarrow> 'r reconnecting \<Rightarrow> 'r reconnecting" where
  "monitor_step attempt s =
     (case ar_phase s of
        M_Check \<Rightarrow>
          (if ar_stop s then s\<lparr>ar_phase := M_Gone\<rparr> else s\<lparr>ar_phase := M_Poll, ar_slept := ar_slept s @ [100]\<rparr>)
      | M_Poll \<Rightarrow>
          (if \<not> ar_poisoned s \<and> (case ar_stream s of Some x \<Rightarrow> co_disconnected x | None \<Rightarrow> False)
           then s\<lparr>ar_phase := M_Open, ar_slept := ar_slept s @ [monitor_delay (ar_backoff s)],
                  ar_backoff := monitor_next (ar_backoff s)\<rparr>
           else s\<lparr>ar_phase := M_Check, ar_backoff := 0\<rparr>)
      | M_Open \<Rightarrow>
          s\<lparr>ar_tries := ar_tries s + 1,
            ar_phase := (case attempt (ar_tries s) of Ok new \<Rightarrow> M_Install (oo_stream new) | Err e \<Rightarrow> M_Check | Panic \<Rightarrow> M_Gone)\<rparr>
      | M_Install new \<Rightarrow>
          (if ar_poisoned s then s\<lparr>ar_phase := M_Check\<rparr>
           else s\<lparr>ar_phase := M_Check, ar_stream := Some new, ar_backoff := 0\<rparr>)
      | M_Gone \<Rightarrow> s)"

subsection \<open>Runs\<close>

text \<open>
  What happens between the steps of the monitor: writes, audio callbacks and error reports of the stream in use
  and of a stream not yet installed, and the end of the guard.
\<close>

datatype reconnect_event = Monitor | App_Write "f32 list" | Drop_Guard
  | Held_Callback nat "64 word" | Held_Fault error_kind | New_Callback nat "64 word" | New_Fault error_kind

definition on_held :: "('r cpal_output \<Rightarrow> 'r cpal_output) \<Rightarrow> 'r reconnecting \<Rightarrow> 'r reconnecting" where
  "on_held f s = s\<lparr>ar_stream := map_option f (ar_stream s)\<rparr>"

definition on_new :: "('r cpal_output \<Rightarrow> 'r cpal_output) \<Rightarrow> 'r reconnecting \<Rightarrow> 'r reconnecting" where
  "on_new f s = (case ar_phase s of M_Install x \<Rightarrow> s\<lparr>ar_phase := M_Install (f x)\<rparr> | _ \<Rightarrow> s)"

fun reconnect_step :: "('r, f32) ring_ops \<Rightarrow> channel_routing option \<Rightarrow> (f32 \<Rightarrow> 't)
    \<Rightarrow> (nat \<Rightarrow> ('r opened_output, oxi_error) result) \<Rightarrow> reconnect_event \<Rightarrow> 'r reconnecting
    \<Rightarrow> (unit, oxi_error) result list \<times> 'r reconnecting" where
  "reconnect_step R routing conv attempt Monitor s = ([], monitor_step attempt s)"
| "reconnect_step R routing conv attempt (App_Write samples) s =
     (let (r, s') = reconnect_write R samples s in ([r], s'))"
| "reconnect_step R routing conv attempt Drop_Guard s = ([], drop_guard s)"
| "reconnect_step R routing conv attempt (Held_Callback n elapsed) s =
     ([], on_held (\<lambda>x. snd (output_callback R routing conv n elapsed x)) s)"
| "reconnect_step R routing conv attempt (Held_Fault k) s = ([], on_held (error_callback k) s)"
| "reconnect_step R routing conv attempt (New_Callback n elapsed) s =
     ([], on_new (\<lambda>x. snd (output_callback R routing conv n elapsed x)) s)"
| "reconnect_step R routing conv attempt (New_Fault k) s = ([], on_new (error_callback k) s)"

fun reconnect_run :: "('r, f32) ring_ops \<Rightarrow> channel_routing option \<Rightarrow> (f32 \<Rightarrow> 't)
    \<Rightarrow> (nat \<Rightarrow> ('r opened_output, oxi_error) result) \<Rightarrow> reconnect_event list \<Rightarrow> 'r reconnecting
    \<Rightarrow> (unit, oxi_error) result list \<times> 'r reconnecting" where
  "reconnect_run R routing conv attempt [] s = ([], s)"
| "reconnect_run R routing conv attempt (e # es) s =
     (let (r, s') = reconnect_step R routing conv attempt e s;
          (rs, t) = reconnect_run R routing conv attempt es s' in (r @ rs, t))"

subsection \<open>While the device is gone\<close>

fun monitor_steps :: "reconnect_event list \<Rightarrow> nat" where
  "monitor_steps [] = 0"
| "monitor_steps (Monitor # es) = Suc (monitor_steps es)"
| "monitor_steps (_ # es) = monitor_steps es"

fun writes :: "reconnect_event list \<Rightarrow> nat" where
  "writes [] = 0"
| "writes (App_Write _ # es) = Suc (writes es)"
| "writes (_ # es) = writes es"

text \<open>The guard stays and the new streams do not fail.\<close>

fun undisturbed :: "reconnect_event \<Rightarrow> bool" where
  "undisturbed Drop_Guard = False"
| "undisturbed (New_Fault k) = (k \<notin> {DeviceNotAvailable, StreamInvalidated, BackendError})"
| "undisturbed _ = True"

definition refusal :: "(unit, oxi_error) result" where
  "refusal = Err (Disconnected [Lit ''output device disconnected''])"

definition gone :: "('r monitor_phase \<Rightarrow> bool) \<Rightarrow> nat \<Rightarrow> nat \<Rightarrow> nat list \<Rightarrow> 'r reconnecting \<Rightarrow> bool" where
  "gone P b t slept s \<longleftrightarrow> P (ar_phase s) \<and> \<not> ar_poisoned s \<and> \<not> ar_stop s \<and>
     (\<exists>x. ar_stream s = Some x \<and> co_disconnected x) \<and> ar_backoff s = b \<and> ar_tries s = t \<and> ar_slept s = slept"

fun sound_new :: "'r monitor_phase \<Rightarrow> bool" where
  "sound_new (M_Install x) = (\<not> co_disconnected x)"
| "sound_new _ = False"

definition steady :: "('r monitor_phase \<Rightarrow> bool) \<Rightarrow> bool" where
  "steady P \<longleftrightarrow> P = sound_new \<or> (\<forall>x. \<not> P (M_Install x))"

lemma reconnect_run_append:
  "reconnect_run R routing conv attempt (es @ fs) s =
     (let (r, s') = reconnect_run R routing conv attempt es s; (rs, t) = reconnect_run R routing conv attempt fs s'
      in (r @ rs, t))"
  by (induction es arbitrary: s) (auto simp: case_prod_beta)

lemma callback_flag: "co_disconnected (snd (output_callback R routing conv n elapsed x)) = co_disconnected x"
  by (simp add: output_callback_def Let_def case_prod_beta)

lemma fault_flag:
  "co_disconnected (error_callback k x) =
     (co_disconnected x \<or> k \<in> {DeviceNotAvailable, StreamInvalidated, BackendError})"
  by (simp add: error_callback_def)

lemma gone_on_held:
  "gone P b t slept s \<Longrightarrow> (\<And>x. co_disconnected x \<Longrightarrow> co_disconnected (f x)) \<Longrightarrow> gone P b t slept (on_held f s)"
  by (auto simp: gone_def on_held_def)

lemma gone_on_new:
  "gone P b t slept s \<Longrightarrow> steady P \<Longrightarrow> (\<And>x. co_disconnected (f x) = co_disconnected x) \<Longrightarrow> gone P b t slept (on_new f s)"
  by (cases "ar_phase s") (auto simp: gone_def on_new_def steady_def)

lemma gone_env:
  assumes "gone P b t slept s" and "steady P" and "e \<noteq> Monitor" and "undisturbed e"
  shows "gone P b t slept (snd (reconnect_step R routing conv attempt e s)) \<and>
    fst (reconnect_step R routing conv attempt e s) = replicate (writes [e]) refusal"
  using assms
proof (cases e)
  case (App_Write samples)
  with assms show ?thesis by (auto simp: gone_def reconnect_write_def cpal_write_def refusal_def)
qed (auto simp: callback_flag fault_flag intro: gone_on_held gone_on_new)

lemma writes_Cons: "writes (e # es) = writes [e] + writes es"
  by (cases e) simp_all

lemma writes_append: "writes (es @ fs) = writes es + writes fs"
proof (induction es)
  case (Cons e es)
  then show ?case using writes_Cons [of e "es @ fs"] writes_Cons [of e es] by simp
qed simp

lemma gone_quiet:
  assumes "gone P b t slept s" and "steady P" and "monitor_steps es = 0" and "list_all undisturbed es"
  shows "gone P b t slept (snd (reconnect_run R routing conv attempt es s)) \<and>
    fst (reconnect_run R routing conv attempt es s) = replicate (writes es) refusal"
  using assms(1,3,4)
proof (induction es arbitrary: s)
  case (Cons e es)
  have e: "e \<noteq> Monitor" and es: "monitor_steps es = 0" "undisturbed e" "list_all undisturbed es"
    using Cons.prems by (cases e; simp)+
  from gone_env [OF Cons.prems(1) assms(2) e es(2), of R routing conv attempt]
  have step: "gone P b t slept (snd (reconnect_step R routing conv attempt e s))"
      "fst (reconnect_step R routing conv attempt e s) = replicate (writes [e]) refusal" by simp_all
  from Cons.IH [OF step(1) es(1,3)] step(2) show ?case
    by (simp add: case_prod_beta writes_Cons [of e es] replicate_add)
qed simp

lemma monitor_steps_append: "monitor_steps (xs @ ys) = monitor_steps xs + monitor_steps ys"
  by (induction xs rule: monitor_steps.induct) auto

lemma monitor_steps_before: "monitor_steps (takeWhile (\<lambda>e. e \<noteq> Monitor) es) = 0"
  by (induction es rule: monitor_steps.induct) auto

text \<open>One step of the monitor, with whatever happens before it.\<close>

lemma gone_step:
  assumes "gone P b t slept s" and "steady P" and "monitor_steps es = Suc n" and "list_all undisturbed es"
    and "\<And>s. gone P b t slept s \<Longrightarrow> gone P' b' t' slept' (monitor_step attempt s)"
  obtains es1 es2 where "es = es1 @ es2" and "monitor_steps es2 = n" and "list_all undisturbed es2"
    and "gone P' b' t' slept' (snd (reconnect_run R routing conv attempt es1 s))"
    and "fst (reconnect_run R routing conv attempt es1 s) = replicate (writes es1) refusal"
proof -
  let ?pre = "takeWhile (\<lambda>e. e \<noteq> Monitor) es" and ?post = "dropWhile (\<lambda>e. e \<noteq> Monitor) es"
  have "monitor_steps ?post = Suc n" using assms(3) monitor_steps_before [of es] monitor_steps_append [of ?pre ?post] by simp
  then obtain post where post: "?post = Monitor # post" "monitor_steps post = n"
    by (cases ?post) (use hd_dropWhile [of "\<lambda>e. e \<noteq> Monitor" es] in auto)
  have es: "es = (?pre @ [Monitor]) @ post" using post takeWhile_dropWhile_id [of "\<lambda>e. e \<noteq> Monitor" es] by simp
  have calm: "list_all undisturbed ?pre" "list_all undisturbed post"
    using assms(4) es by (metis list_all_append)+
  from gone_quiet [OF assms(1,2) monitor_steps_before calm(1), of R routing conv attempt]
  have pre: "gone P b t slept (snd (reconnect_run R routing conv attempt ?pre s))"
    "fst (reconnect_run R routing conv attempt ?pre s) = replicate (writes ?pre) refusal" by simp_all
  show thesis
    using that [of "?pre @ [Monitor]" post] es post calm assms(5) [OF pre(1)] pre(2)
    by (simp add: reconnect_run_append case_prod_beta writes_append)
qed

lemma steady_phases:
  "steady sound_new" "steady (\<lambda>p. p = M_Check)" "steady (\<lambda>p. p = M_Poll)" "steady (\<lambda>p. p = M_Open)"
  by (simp_all add: steady_def)

lemma check_step:
  "gone (\<lambda>p. p = M_Check) b t slept s \<Longrightarrow> gone (\<lambda>p. p = M_Poll) b t (slept @ [100]) (monitor_step attempt s)"
  by (auto simp: gone_def monitor_step_def)

lemma poll_step:
  "gone (\<lambda>p. p = M_Poll) b t slept s \<Longrightarrow>
     gone (\<lambda>p. p = M_Open) (monitor_next b) t (slept @ [monitor_delay b]) (monitor_step attempt s)"
  by (auto simp: gone_def monitor_step_def)

definition opens_sound :: "('r opened_output, oxi_error) result \<Rightarrow> bool" where
  "opens_sound r = (case r of Ok new \<Rightarrow> \<not> co_disconnected (oo_stream new) | _ \<Rightarrow> False)"

lemma open_step_fails:
  "gone (\<lambda>p. p = M_Open) b t slept s \<Longrightarrow> is_err (attempt t) \<Longrightarrow>
     gone (\<lambda>p. p = M_Check) b (t + 1) slept (monitor_step attempt s)"
  by (cases "attempt t") (auto simp: gone_def monitor_step_def)

lemma open_step_works:
  "gone (\<lambda>p. p = M_Open) b t slept s \<Longrightarrow> opens_sound (attempt t) \<Longrightarrow> gone sound_new b (t + 1) slept (monitor_step attempt s)"
  by (cases "attempt t") (auto simp: gone_def monitor_step_def opens_sound_def)

text \<open>A round of the monitor: three steps, whose attempt fails or opens a stream.\<close>

lemma gone_round:
  assumes "gone (\<lambda>p. p = M_Check) b t slept s" and "monitor_steps es = Suc (Suc (Suc n))" and "list_all undisturbed es"
    and "steady P"
    and "\<And>s. gone (\<lambda>p. p = M_Open) (monitor_next b) t (slept @ [100, monitor_delay b]) s \<Longrightarrow>
      gone P (monitor_next b) (t + 1) (slept @ [100, monitor_delay b]) (monitor_step attempt s)"
  obtains es1 es2 where "es = es1 @ es2" and "monitor_steps es2 = n" and "list_all undisturbed es2"
    and "fst (reconnect_run R routing conv attempt es1 s) = replicate (writes es1) refusal"
    and "gone P (monitor_next b) (t + 1) (slept @ [100, monitor_delay b]) (snd (reconnect_run R routing conv attempt es1 s))"
proof -
  let ?run = "reconnect_run R routing conv attempt"
  obtain x1 y1 where 1: "es = x1 @ y1" "monitor_steps y1 = Suc (Suc n)" "list_all undisturbed y1"
      "gone (\<lambda>p. p = M_Poll) b t (slept @ [100]) (snd (?run x1 s))" "fst (?run x1 s) = replicate (writes x1) refusal"
    using gone_step [where R = R and routing = routing and conv = conv and attempt = attempt,
        OF assms(1) steady_phases(2) assms(2,3) check_step] by metis
  obtain x2 y2 where 2: "y1 = x2 @ y2" "monitor_steps y2 = Suc n" "list_all undisturbed y2"
      "gone (\<lambda>p. p = M_Open) (monitor_next b) t ((slept @ [100]) @ [monitor_delay b]) (snd (?run x2 (snd (?run x1 s))))"
      "fst (?run x2 (snd (?run x1 s))) = replicate (writes x2) refusal"
    using gone_step [where R = R and routing = routing and conv = conv and attempt = attempt,
        OF 1(4) steady_phases(3) 1(2,3) poll_step] by metis
  from 2(4) have "gone (\<lambda>p. p = M_Open) (monitor_next b) t (slept @ [100, monitor_delay b]) (snd (?run x2 (snd (?run x1 s))))"
    by simp
  then obtain x3 y3 where 3: "y2 = x3 @ y3" "monitor_steps y3 = n" "list_all undisturbed y3"
      "gone P (monitor_next b) (t + 1) (slept @ [100, monitor_delay b]) (snd (?run x3 (snd (?run x2 (snd (?run x1 s))))))"
      "fst (?run x3 (snd (?run x2 (snd (?run x1 s))))) = replicate (writes x3) refusal"
    using gone_step [where R = R and routing = routing and conv = conv and attempt = attempt,
        OF _ steady_phases(4) 2(2,3) assms(5)] by metis
  show thesis
    using 3(4)
    by (intro that [of "x1 @ x2 @ x3" y3])
      (simp_all add: 1(1,5) 2(1,5) 3(1,2,3,5) reconnect_run_append case_prod_beta writes_append replicate_add)
qed

text \<open>What the monitor sleeps in \<open>k\<close> rounds.\<close>

fun rounds_slept :: "nat \<Rightarrow> nat \<Rightarrow> nat list" where
  "rounds_slept b 0 = []"
| "rounds_slept b (Suc k) = [100, monitor_delay b] @ rounds_slept (monitor_next b) k"

lemma rounds_slept_from: "rounds_slept b k = concat (map (\<lambda>i. [100, monitor_delay (b + i)]) [0..<k])"
proof (induction k arbitrary: b)
  case (Suc k)
  have "monitor_delay (monitor_next b + i) = monitor_delay (b + Suc i)" for i
  proof -
    have three: "length MONITOR_BACKOFF_MS - 1 = 3" by (simp add: MONITOR_BACKOFF_MS_def)
    have "min (min (b + 1) 3 + i) 3 = min (b + Suc i) (3 :: nat)" by arith
    then show ?thesis by (simp only: monitor_next_def monitor_delay_def three)
  qed
  with Suc show ?case by (simp add: upt_conv_Cons map_Suc_upt [symmetric] comp_def del: upt_Suc)
qed simp

lemmas rounds_slept_concat = rounds_slept_from [of 0, simplified]

lemma gone_rounds:
  assumes "gone (\<lambda>p. p = M_Check) b t slept s" and "monitor_steps es = 3 * Suc k" and "list_all undisturbed es"
    and "\<And>i. i < k \<Longrightarrow> is_err (attempt (t + i))" and "opens_sound (attempt (t + k))"
  shows "fst (reconnect_run R routing conv attempt es s) = replicate (writes es) refusal \<and>
    (\<exists>c. gone sound_new c (t + Suc k) (slept @ rounds_slept b (Suc k)) (snd (reconnect_run R routing conv attempt es s)))"
  using assms
proof (induction k arbitrary: b t slept s es)
  case 0
  from 0(2) have n: "monitor_steps es = Suc (Suc (Suc 0))" by simp
  from 0(5) have sound: "opens_sound (attempt t)" by simp
  obtain x y where
    1: "es = x @ y" "monitor_steps y = 0" "list_all undisturbed y"
      "fst (reconnect_run R routing conv attempt x s) = replicate (writes x) refusal"
      "gone sound_new (monitor_next b) (t + 1) (slept @ [100, monitor_delay b]) (snd (reconnect_run R routing conv attempt x s))"
    using gone_round [where R = R and routing = routing and conv = conv and attempt = attempt,
        OF 0(1) n 0(3) steady_phases(1) open_step_works [where attempt = attempt and t = t, OF _ sound]] by metis
  from gone_quiet [OF 1(5) steady_phases(1) 1(2,3), of R routing conv attempt] 1(1,4) show ?case
    by (auto simp: reconnect_run_append case_prod_beta writes_append replicate_add intro!: exI [of _ "monitor_next b"])
next
  case (Suc k)
  from Suc.prems(2) have n: "monitor_steps es = Suc (Suc (Suc (3 * Suc k)))" by simp
  have err: "is_err (attempt t)" using Suc.prems(4) [of 0] by simp
  obtain x y where
    1: "es = x @ y" "monitor_steps y = 3 * Suc k" "list_all undisturbed y"
      "fst (reconnect_run R routing conv attempt x s) = replicate (writes x) refusal"
      "gone (\<lambda>p. p = M_Check) (monitor_next b) (t + 1) (slept @ [100, monitor_delay b]) (snd (reconnect_run R routing conv attempt x s))"
    using gone_round [where R = R and routing = routing and conv = conv and attempt = attempt,
        OF Suc.prems(1) n Suc.prems(3) steady_phases(2) open_step_fails [where attempt = attempt and t = t, OF _ err]] by metis
  have fails: "is_err (attempt (t + 1 + i))" if "i < k" for i using Suc.prems(4) [of "Suc i"] that by simp
  have sound: "opens_sound (attempt (t + 1 + k))" using Suc.prems(5) by simp
  from Suc.IH [OF 1(5,2,3) fails sound] 1(1,4) show ?case
    by (auto simp: reconnect_run_append case_prod_beta writes_append replicate_add)
qed

text \<open>
  C11: The guard reconnects. When the stream in use has lost its device, the next \<open>k\<close> attempts to open fail and
  the one after them gives a sound stream, then with the fourth monitor step of that round, whatever writes, callbacks and
  reports of the old stream happen in between, the guard is connected again, to the new stream, and its back-off is
  back at the start. Before that the monitor has slept 100 ms in each round and then, on its first losses, 10, 50, 200
  and 1000 ms, and 1000 ms from there on; every write in between has been refused with the
  error that the device is disconnected.
\<close>

theorem guard_reconnects:
  assumes "ar_stream s = Some old" and "co_disconnected old" and "ar_phase s = M_Check" and "\<not> ar_stop s"
    and "\<not> ar_poisoned s" and "ar_backoff s = 0"
    and "\<And>i. i < k \<Longrightarrow> is_err (attempt (ar_tries s + i))" and "attempt (ar_tries s + k) = Ok new"
    and "\<not> co_disconnected (oo_stream new)"
    and "monitor_steps es = 3 * (k + 1)" and "list_all undisturbed es"
  shows "case reconnect_run R routing conv attempt (es @ [Monitor]) s of (refused, s') \<Rightarrow>
    is_connected s' \<and> ar_backoff s' = 0 \<and> ar_tries s' = ar_tries s + k + 1 \<and>
    ar_slept s' = ar_slept s @ concat (map (\<lambda>i. [100, monitor_delay i]) [0..<k + 1]) \<and>
    refused = replicate (writes es) (Err (Disconnected [Lit ''output device disconnected'']))"
proof -
  let ?run = "reconnect_run R routing conv attempt"
  have "gone (\<lambda>p. p = M_Check) 0 (ar_tries s) (ar_slept s) s" using assms(1-6) by (simp add: gone_def)
  from gone_rounds [OF this _ assms(11), of k attempt R routing conv] assms(7-10)
  obtain c where 1: "fst (?run es s) = replicate (writes es) refusal"
    "gone sound_new c (ar_tries s + Suc k) (ar_slept s @ rounds_slept 0 (Suc k)) (snd (?run es s))"
    by (auto simp: opens_sound_def)
  have last: "is_connected (monitor_step attempt t) \<and> ar_backoff (monitor_step attempt t) = 0
      \<and> ar_tries (monitor_step attempt t) = n \<and> ar_slept (monitor_step attempt t) = sl"
    if "gone sound_new c n sl t" for n sl t
    using that by (cases "ar_phase t") (auto simp: gone_def monitor_step_def is_connected_def)
  from last [OF 1(2)] 1(1) show ?thesis
    by (simp add: reconnect_run_append case_prod_beta refusal_def rounds_slept_concat del: rounds_slept.simps upt_Suc)
qed

definition second_try :: "nat \<Rightarrow> (f32 fifo opened_output, oxi_error) result" where
  "second_try i = (if i = 0 then Err NoDevice else Ok \<lparr>oo_stream = sample_stream, oo_type = C_F32, oo_routing = None\<rparr>)"

definition lost_guard :: "f32 fifo reconnecting" where
  "lost_guard = \<lparr>ar_stream = Some (sample_stream\<lparr>co_disconnected := True\<rparr>), ar_poisoned = False, ar_stop = False,
     ar_config = STEREO_48K, ar_phase = M_Check, ar_backoff = 0, ar_tries = 0, ar_slept = []\<rparr>"

theorem guard_reconnects_witness:
  "case reconnect_run fifo None id second_try (App_Write [] # replicate 6 Monitor @ [Monitor]) lost_guard of
     (refused, s') \<Rightarrow> is_connected s' \<and> ar_slept s' = [100, 10, 100, 50] \<and> length refused = 1"
proof -
  have "is_err (second_try (ar_tries lost_guard + i))" if "i < 1" for i
    using that by (simp add: second_try_def lost_guard_def)
  from guard_reconnects [of lost_guard "sample_stream\<lparr>co_disconnected := True\<rparr>" 1 second_try
      "\<lparr>oo_stream = sample_stream, oo_type = C_F32, oo_routing = None\<rparr>" "App_Write [] # replicate 6 Monitor" fifo None id, OF _ _ _ _ _ _ this]
  show ?thesis
    by (simp add: lost_guard_def second_try_def sample_stream_def numeral_eq_Suc case_prod_beta monitor_delay_def MONITOR_BACKOFF_MS_def
        del: reconnect_run.simps)
qed

end
