(* ===== verification/Osc_Transport.thy ===== *)
theory Osc_Transport
  imports Osc_Roundtrip Core_Types
begin

text \<open>
  OSC over UDP (\<open>client.rs\<close> and \<open>server.rs\<close> of \<open>crates/oxisound-osc/src/\<close>): the sender and the receiver over a
  socket, which is an argument. The locale \<open>datagram_socket\<close> has what UDP promises: nothing arrives that was
  not sent, and the length field of its header, 16 bits for 8 bytes of header and the payload, bounds what can be sent.
  Datagrams can be lost, reordered and repeated.
\<close>

datatype osc_failure = Codec osc_error | Net msg

definition net_err :: "string \<Rightarrow> rstring \<Rightarrow> osc_failure" where
  "net_err what e = Net [Lit what, Str e]"

text \<open>\<open>connect\<close> with the answers of the socket and of the parser of addresses.\<close>

definition osc_connect :: "(unit, rstring) result \<Rightarrow> (rstring \<Rightarrow> ('addr, rstring) result) \<Rightarrow> rstring
    \<Rightarrow> ('addr, osc_failure) result" where
  "osc_connect bound parse_addr target =
     and_then (map_err (net_err ''bind failed: '') bound) (\<lambda>_.
       map_err (\<lambda>e. Net [Lit (''invalid address '' @ [CHR 0x27]), Str target, Lit (CHR 0x27 # '': ''), Str e]) (parse_addr target))"

definition osc_send :: "('addr \<Rightarrow> byte list \<Rightarrow> 'n \<Rightarrow> (nat, rstring) result \<times> 'n) \<Rightarrow> 'addr \<Rightarrow> osc_packet \<Rightarrow> 'n
    \<Rightarrow> (unit, osc_failure) result \<times> 'n" where
  "osc_send send_to target packet n =
     (let (r, n) = send_to target (encode packet) n in (map_err (net_err ''send failed: '') (map_ok (\<lambda>_. ()) r), n))"

definition osc_send_message :: "('addr \<Rightarrow> byte list \<Rightarrow> 'n \<Rightarrow> (nat, rstring) result \<times> 'n) \<Rightarrow> 'addr
    \<Rightarrow> rstring \<Rightarrow> osc_arg list \<Rightarrow> 'n \<Rightarrow> (unit, osc_failure) result \<times> 'n" where
  "osc_send_message send_to target addr arg_list n = osc_send send_to target (Message \<lparr>address = addr, args = arg_list\<rparr>) n"

definition osc_bind :: "(unit, rstring) result \<Rightarrow> (unit, osc_failure) result" where
  "osc_bind bound = map_err (net_err ''bind failed: '') bound"

definition RECV_BUFFER :: nat where "RECV_BUFFER = 65536"

text \<open>A datagram longer than the buffer loses its end.\<close>

definition osc_recv :: "nat \<Rightarrow> ('n \<Rightarrow> (byte list, rstring) result \<times> 'n) \<Rightarrow> 'n \<Rightarrow> (osc_packet, osc_failure) result \<times> 'n" where
  "osc_recv um recv_from n =
     (let (r, n) = recv_from n in
      (and_then (map_err (net_err ''recv failed: '') r) (\<lambda>d. map_err Codec (decode um (take RECV_BUFFER d))), n))"

definition osc_set_timeout :: "(unit, rstring) result \<Rightarrow> (unit, osc_failure) result" where
  "osc_set_timeout answer = map_err (net_err ''set_timeout failed: '') answer"

subsection \<open>The network\<close>

definition MAX_UDP_PAYLOAD :: nat where "MAX_UDP_PAYLOAD = 65535 - 8"

locale datagram_socket =
  fixes send_to :: "'addr \<Rightarrow> byte list \<Rightarrow> 'n \<Rightarrow> (nat, rstring) result \<times> 'n"
    and recv_from :: "'n \<Rightarrow> (byte list, rstring) result \<times> 'n"
    and flight :: "'n \<Rightarrow> byte list set"
  assumes send_flight: "flight (snd (send_to a d n)) \<subseteq> flight n \<union> {e \<in> {d}. length e \<le> MAX_UDP_PAYLOAD}"
    and recv_flight: "flight (snd (recv_from n)) \<subseteq> flight n"
    and recv_sent: "fst (recv_from n) = Ok d \<Longrightarrow> d \<in> flight n"
    and recv_returns: "fst (recv_from n) \<noteq> Panic"

text \<open>A network that delivers in order.\<close>

definition in_order_send :: "unit \<Rightarrow> byte list \<Rightarrow> byte list list \<Rightarrow> (nat, rstring) result \<times> byte list list" where
  "in_order_send a d n =
     (if length d \<le> MAX_UDP_PAYLOAD then (Ok (length d), n @ [d]) else (Err (str_lit ''Message too long''), n))"

definition in_order_recv :: "byte list list \<Rightarrow> (byte list, rstring) result \<times> byte list list" where
  "in_order_recv n = (case n of [] \<Rightarrow> (Err (str_lit ''timed out''), []) | d # ds \<Rightarrow> (Ok d, ds))"

subsection \<open>Runs\<close>

datatype osc_event = Osc_Send osc_packet | Osc_Recv

fun osc_run :: "nat \<Rightarrow> ('addr \<Rightarrow> byte list \<Rightarrow> 'n \<Rightarrow> (nat, rstring) result \<times> 'n)
    \<Rightarrow> ('n \<Rightarrow> (byte list, rstring) result \<times> 'n) \<Rightarrow> 'addr \<Rightarrow> osc_event list \<Rightarrow> 'n
    \<Rightarrow> (osc_packet, osc_failure) result list \<times> 'n" where
  "osc_run um send_to recv_from a [] n = ([], n)"
| "osc_run um send_to recv_from a (Osc_Send p # es) n =
     osc_run um send_to recv_from a es (snd (osc_send send_to a p n))"
| "osc_run um send_to recv_from a (Osc_Recv # es) n =
     (let (r, n) = osc_recv um recv_from n; (rs, n) = osc_run um send_to recv_from a es n in (r # rs, n))"

fun osc_sent :: "osc_event list \<Rightarrow> osc_packet list" where
  "osc_sent [] = []"
| "osc_sent (Osc_Send p # es) = p # osc_sent es"
| "osc_sent (Osc_Recv # es) = osc_sent es"

text \<open>A packet that the format can express and that is nested within the cap of the decoder.\<close>

definition sendable :: "osc_packet \<Rightarrow> bool" where
  "sendable p \<longleftrightarrow> wf_packet p \<and> packet_depth p \<le> MAX_NESTING_DEPTH"

fun genuine :: "osc_packet list \<Rightarrow> (osc_packet, osc_failure) result \<Rightarrow> bool" where
  "genuine ps (Ok p) = (p \<in> set ps)"
| "genuine ps (Err (Net _)) = True"
| "genuine ps _ = False"

lemma genuine_mono: "genuine ps r \<Longrightarrow> set ps \<subseteq> set qs \<Longrightarrow> genuine qs r"
  by (cases "(ps, r)" rule: genuine.cases) auto

text \<open>The buffer of the receiver holds every datagram that UDP can carry.\<close>

lemma decode_received:
  assumes "sendable p" and "length (encode p) \<le> MAX_UDP_PAYLOAD" and "usize_max_32 \<le> um"
  shows "decode um (take RECV_BUFFER (encode p)) = Ok p"
  using assms decode_encode [of p um]
  by (simp add: sendable_def RECV_BUFFER_def MAX_UDP_PAYLOAD_def slice_ok_def)

context datagram_socket
begin

definition carries :: "osc_packet list \<Rightarrow> 'n \<Rightarrow> bool" where
  "carries ps n \<longleftrightarrow> flight n \<subseteq> {d \<in> encode ` set ps. length d \<le> MAX_UDP_PAYLOAD}"

lemma recv_genuine:
  assumes "carries ps n" and "list_all sendable ps" and "usize_max_32 \<le> um"
  shows "genuine ps (fst (osc_recv um recv_from n))"
proof (cases "fst (recv_from n)")
  case (Ok d)
  from recv_sent [OF this] assms(1) obtain p where "d = encode p" "p \<in> set ps" "length (encode p) \<le> MAX_UDP_PAYLOAD"
    by (auto simp: carries_def)
  with Ok assms(2,3) show ?thesis
    by (simp add: osc_recv_def case_prod_beta list_all_iff decode_received)
qed (use recv_returns in \<open>simp_all add: osc_recv_def case_prod_beta net_err_def\<close>)

lemma run_genuine:
  assumes "carries ps n" and "list_all sendable ps" and "list_all sendable (osc_sent es)" and "usize_max_32 \<le> um"
  shows "list_all (genuine (ps @ osc_sent es)) (fst (osc_run um send_to recv_from a es n))"
  using assms(1-3)
proof (induction es arbitrary: n ps rule: osc_sent.induct)
  case (2 p es)
  have "carries (ps @ [p]) (snd (osc_send send_to a p n))"
    using send_flight [of a "encode p" n] "2.prems"(1) by (auto simp: carries_def osc_send_def case_prod_beta)
  from "2.IH" [OF this] "2.prems" show ?case by simp
next
  case (3 es)
  have "carries ps (snd (osc_recv um recv_from n))"
    using recv_flight [of n] "3.prems"(1) by (auto simp: carries_def osc_recv_def case_prod_beta)
  from "3.IH" [OF this "3.prems"(2)] "3.prems" recv_genuine [OF "3.prems"(1,2) assms(4)] show ?case
    by (auto simp: case_prod_beta elim: genuine_mono)
qed simp

end

interpretation in_order: datagram_socket in_order_send in_order_recv set
  by unfold_locales (auto simp: in_order_send_def in_order_recv_def split: list.splits)

text \<open>
  C17: OSC over UDP is faithful. On a socket that delivers only what was sent, with losses, repetitions and any order, and
  carries no datagram beyond the limit of UDP, whatever the interleaving of sends and receives and the size of the packets, each
  call of \<open>recv\<close> gives one of the packets sent, unchanged, or the error of the socket, never an error of the decoder, when
  the packets sent are expressible in the format and nested within the cap of the decoder. So the receive buffer cuts no
  datagram off.
\<close>

theorem osc_over_udp:
  assumes "datagram_socket send_to recv_from flight" and "flight n = {}" and "list_all sendable (osc_sent es)"
    and "usize_max_32 \<le> um"
  shows "list_all (genuine (osc_sent es)) (fst (osc_run um send_to recv_from a es n))"
  using datagram_socket.run_genuine [OF assms(1), where ps = "[]" and n = n and es = es and um = um and a = a] assms(2-4)
  by (simp add: datagram_socket.carries_def [OF assms(1)])

theorem osc_over_udp_witness:
  "fst (osc_run usize_max_64 in_order_send in_order_recv () [Osc_Recv, Osc_Send sample_packet, Osc_Recv] []) =
     [Err (Net [Lit ''recv failed: '', Str (str_lit ''timed out'')]), Ok sample_packet]"
proof -
  let ?es = "[Osc_Recv, Osc_Send sample_packet, Osc_Recv]"
  have s: "sendable sample_packet" and fits: "length (encode sample_packet) \<le> MAX_UDP_PAYLOAD"
    using wf_sample depth_sample by (simp_all add: sendable_def MAX_UDP_PAYLOAD_def length_sample)
  have "list_all (genuine (osc_sent ?es)) (fst (osc_run usize_max_64 in_order_send in_order_recv () ?es []))"
    by (rule osc_over_udp [OF in_order.datagram_socket_axioms]) (simp_all add: s)
  then show ?thesis
    using decode_received [OF s fits, of usize_max_64] fits
    by (simp add: osc_recv_def in_order_recv_def osc_send_def in_order_send_def net_err_def case_prod_beta)
qed

end
