(* ===== verification/Session.thy ===== *)
theory Session
  imports Core_Types
begin

text \<open>
  Audio sessions (\<open>crates/oxisound-session/src/\<close>: \<open>lib.rs\<close>, \<open>avf.rs\<close>) and the dispatch of the facade
  (\<open>crates/oxisound/src/lib.rs\<close>). The target and the enabled features choose which function is
  compiled; here they are arguments. AVFoundation and the clock are arguments.
\<close>

record session_build =
  sb_os :: target_os
  sb_session :: bool \<comment> \<open>feature \<open>session\<close> of the facade\<close>
  sb_avf :: bool \<comment> \<open>feature \<open>avf-audio\<close> of the session crate\<close>

definition on_apple :: "target_os \<Rightarrow> bool" where
  "on_apple os \<longleftrightarrow> os = MacOs \<or> os = Ios"

subsection \<open>AVFoundation\<close>

datatype av_permission = AvGranted | AvDenied | AvUndetermined

text \<open>Which category constants exist, the answer to \<open>setCategory\<close>, the names of the categories in messages.\<close>

record 'c av =
  av_category :: "session_category \<Rightarrow> 'c option"
  av_set_category :: "'c \<Rightarrow> (unit, rstring) result"
  av_permission :: av_permission
  av_debug :: "session_category \<Rightarrow> rstring"

definition avf_configure_session :: "'c av \<Rightarrow> session_category \<Rightarrow> (unit, oxi_error) result" where
  "avf_configure_session A c =
     and_then (ok_or (UnsupportedConfig [Lit ''AVAudioSessionCategory constant unavailable for '', Str (av_debug A c)])
       (av_category A c)) (\<lambda>k.
     map_err (\<lambda>e. FormatMismatch [Lit ''AVAudioSession setCategory failed: '', Str e]) (av_set_category A k))"

text \<open>
  The spin loop. A round loads \<open>done\<close> at one time and reads the clock at another; the completion
  handler stores the answer and then sets \<open>done\<close> at the time \<open>fst\<close> of \<open>answer\<close>, if it is ever called.
\<close>

fun spin_wait :: "(nat \<times> bool) option \<Rightarrow> nat \<Rightarrow> (nat \<times> nat) list \<Rightarrow> (bool, oxi_error) result option" where
  "spin_wait answer deadline [] = None"
| "spin_wait answer deadline ((loaded, now) # rounds) =
     (case answer of
        Some (at, granted) \<Rightarrow>
          (if at \<le> loaded then Some (Ok granted)
           else if deadline \<le> now
           then Some (Err (Timeout [Lit ''microphone permission request timed out after 30 seconds'']))
           else spin_wait answer deadline rounds)
      | None \<Rightarrow>
          (if deadline \<le> now
           then Some (Err (Timeout [Lit ''microphone permission request timed out after 30 seconds'']))
           else spin_wait answer deadline rounds))"

definition PERMISSION_TIMEOUT :: nat where "PERMISSION_TIMEOUT = 30"

text \<open>\<open>start\<close> is the time at which the loop begins, in seconds like all times here.\<close>

definition avf_request_permission :: "'c av \<Rightarrow> (nat \<times> bool) option \<Rightarrow> nat \<Rightarrow> (nat \<times> nat) list
    \<Rightarrow> (bool, oxi_error) result option" where
  "avf_request_permission A answer start rounds =
     (case av_permission A of
        AvGranted \<Rightarrow> Some (Ok True)
      | AvDenied \<Rightarrow> Some (Ok False)
      | AvUndetermined \<Rightarrow> spin_wait answer (start + PERMISSION_TIMEOUT) rounds)"

subsection \<open>Dispatch\<close>

definition session_configure :: "session_build \<Rightarrow> 'c av \<Rightarrow> session_category \<Rightarrow> (unit, oxi_error) result" where
  "session_configure b A c =
     (if on_apple (sb_os b) \<and> sb_avf b then avf_configure_session A c
      else if sb_os b = MacOs then Ok ()
      else if sb_os b = Ios
      then Err (UnsupportedConfig [Lit ''configure_session on iOS requires the `avf-audio` feature of oxisound-session''])
      else Err (UnsupportedConfig [Lit ''audio session management is only available on iOS and macOS'']))"

definition session_request_permission :: "session_build \<Rightarrow> 'c av \<Rightarrow> (nat \<times> bool) option \<Rightarrow> nat \<Rightarrow> (nat \<times> nat) list
    \<Rightarrow> (bool, oxi_error) result option" where
  "session_request_permission b A answer start rounds =
     (if on_apple (sb_os b) \<and> sb_avf b then avf_request_permission A answer start rounds
      else if sb_os b = MacOs then Some (Ok True)
      else if sb_os b = Ios
      then Some (Err (PermissionDenied [Lit ''request_microphone_permission on iOS requires the `avf-audio` feature of oxisound-session'']))
      else Some (Err (PermissionDenied [Lit ''microphone permission prompt is not available on this platform''])))"

definition configure_session :: "session_build \<Rightarrow> 'c av \<Rightarrow> session_category \<Rightarrow> (unit, oxi_error) result" where
  "configure_session b A c =
     (if sb_session b then session_configure b A c
      else if sb_os b = MacOs then Ok ()
      else if sb_os b = Ios
      then Err (UnsupportedConfig [Lit ''configure_session on iOS requires the `macos-session` feature of oxisound''])
      else Err (UnsupportedConfig [Lit ''audio session management requires iOS/macOS'']))"

definition request_microphone_permission :: "session_build \<Rightarrow> 'c av \<Rightarrow> (nat \<times> bool) option \<Rightarrow> nat \<Rightarrow> (nat \<times> nat) list
    \<Rightarrow> (bool, oxi_error) result option" where
  "request_microphone_permission b A answer start rounds =
     (if sb_session b then session_request_permission b A answer start rounds
      else if sb_os b = MacOs then Some (Ok True)
      else if sb_os b = Ios
      then Some (Err (PermissionDenied [Lit ''request_microphone_permission on iOS requires the `macos-session` feature'']))
      else Some (Err (PermissionDenied [Lit ''microphone permission prompt is not available on this platform''])))"

subsection \<open>The wait\<close>

definition answered :: "(nat \<times> bool) option \<Rightarrow> nat \<Rightarrow> bool" where
  "answered answer t = (case answer of Some (at, _) \<Rightarrow> at \<le> t | None \<Rightarrow> False)"

lemma spin_wait_step:
  "spin_wait answer deadline ((loaded, now) # rounds) =
     (if answered answer loaded then Some (Ok (snd (the answer)))
      else if deadline \<le> now then Some (Err (Timeout [Lit ''microphone permission request timed out after 30 seconds'']))
      else spin_wait answer deadline rounds)"
  by (auto simp: answered_def split: option.split prod.split)

text \<open>The loads come in the order of time, so the round that sees the deadline decides.\<close>

lemma spin_wait_decides:
  assumes "sorted (map fst rounds)" and "position (\<lambda>(loaded, now). deadline \<le> now) rounds = Some i"
  shows "spin_wait answer deadline rounds =
    Some (if answered answer (fst (rounds ! i)) then Ok (snd (the answer))
          else Err (Timeout [Lit ''microphone permission request timed out after 30 seconds'']))"
  using assms
proof (induction rounds arbitrary: i)
  case (Cons r rounds)
  obtain loaded now where r: "r = (loaded, now)" by fastforce
  show ?case
  proof (cases "deadline \<le> now")
    case True
    with Cons.prems(2) have "i = 0" by (simp add: r)
    with True show ?thesis by (simp add: r spin_wait_step del: spin_wait.simps)
  next
    case False
    with Cons.prems(2) obtain k where k: "position (\<lambda>(loaded, now). deadline \<le> now) rounds = Some k" "i = Suc k"
      by (auto simp: r)
    have "loaded \<le> fst (rounds ! k)"
      using Cons.prems(1) position_less [OF k(1)] by (auto simp: r)
    then have later: "answered answer loaded \<Longrightarrow> answered answer (fst (rounds ! k))"
      by (auto simp: answered_def split: option.splits)
    from Cons.IH [OF _ k(1)] Cons.prems(1) False later show ?thesis
      by (simp add: r k(2) spin_wait_step del: spin_wait.simps)
  qed
qed simp

text \<open>
  C35: Asking for the microphone ends. When the clock is read again 30 seconds after the start or later, the request
  returns, on every target, with every set of features and whatever the user does. With AVFoundation and an undetermined
  permission the first round that sees the deadline decides: the result is the answer of the user when it had come by the load of that
  round, and a timeout otherwise, so that an answer that comes later is lost to this call. Without
  AVFoundation nothing is asked: macOS says that the permission is granted, every other target refuses it.
\<close>

theorem permission_request_returns:
  assumes "sorted (map fst rounds)" and "rounds \<noteq> []" and "start + 30 \<le> snd (last rounds)"
  shows "request_microphone_permission b A answer start rounds =
    Some (if sb_session b \<and> sb_avf b \<and> on_apple (sb_os b)
      then (case av_permission A of
          AvGranted \<Rightarrow> Ok True
        | AvDenied \<Rightarrow> Ok False
        | AvUndetermined \<Rightarrow>
            (let i = the (position (\<lambda>(loaded, now). start + 30 \<le> now) rounds) in
             if answered answer (fst (rounds ! i)) then Ok (snd (the answer))
             else Err (Timeout [Lit ''microphone permission request timed out after 30 seconds''])))
      else if sb_os b = MacOs then Ok True
      else Err (PermissionDenied [Lit (
        if sb_os b \<noteq> Ios then ''microphone permission prompt is not available on this platform''
        else if sb_session b then ''request_microphone_permission on iOS requires the `avf-audio` feature of oxisound-session''
        else ''request_microphone_permission on iOS requires the `macos-session` feature'')]))"
proof -
  have "position (\<lambda>(loaded, now). start + 30 \<le> now) rounds \<noteq> None"
    using assms(2,3) last_in_set [OF assms(2)] by (auto simp: position_None case_prod_beta)
  then obtain i where i: "position (\<lambda>(loaded, now). start + 30 \<le> now) rounds = Some i" by blast
  from spin_wait_decides [OF assms(1) i] i show ?thesis
    by (cases "av_permission A"; cases "sb_os b")
      (simp_all add: request_microphone_permission_def session_request_permission_def avf_request_permission_def
        on_apple_def PERMISSION_TIMEOUT_def)
qed

theorem permission_request_returns_witness:
  "request_microphone_permission \<lparr>sb_os = Ios, sb_session = True, sb_avf = True\<rparr>
     \<lparr>av_category = \<lambda>_. Some (), av_set_category = \<lambda>_. Ok (), av_permission = AvUndetermined, av_debug = \<lambda>_. []\<rparr>
     (Some (12, True)) 5 [(5, 6), (11, 13), (20, 40)] = Some (Ok True)"
  by (subst permission_request_returns) (simp_all add: on_apple_def answered_def)

end
