(* ===== verification/Core_Clock.thy ===== *)
theory Core_Clock
  imports Core_Midi Core_Types Ieee_Approx
begin

text \<open>
  The tempo of the MIDI clock and the display of a configuration (\<open>crates/oxisound-core/src/lib.rs\<close>). The
  tempo is an \<open>f64\<close> that is finite and positive, given by its value. The text of an \<open>f32\<close> is an argument.
\<close>

definition saturating_sub64 :: "64 word \<Rightarrow> 64 word \<Rightarrow> 64 word" where
  "saturating_sub64 a b = (if b \<le> a then a - b else 0)"

definition bpm :: "midi_clock \<Rightarrow> rat option" where
  "bpm c =
     (let ts = tick_timestamps c in
      if length ts < 2 then None
      else let span_us = saturating_sub64 (last ts) (hd ts) in
        if span_us = 0 then None
        else let n_intervals = fl64 (of_nat (length ts - 1));
                 avg_interval_us = fl64 (fl64 (of_nat (unat span_us)) / n_intervals)
          in Some (fl64 (60000000 / fl64 (avg_interval_us * 24))))"

definition show_stream_config :: "(f32 \<Rightarrow> rstring) \<Rightarrow> stream_config \<Rightarrow> rstring" where
  "show_stream_config show_f32 c =
     decimal (unat (sample_rate c)) @ str_lit ''Hz '' @ decimal (unat (channels c)) @ str_lit ''ch buf='' @
     (case buffer_size c of Some n \<Rightarrow> decimal (unat n) @ str_lit '' frames'' | None \<Rightarrow> str_lit ''auto'') @
     (case sample_format_opt c of Some f \<Rightarrow> str_lit '' fmt='' @ str_lit (show_sample_format f) | None \<Rightarrow> []) @
     str_lit (if exclusive c then '' excl'' else '''') @
     (case buffer_capacity_secs c of Some s \<Rightarrow> str_lit '', capacity='' @ show_f32 s @ str_lit ''s'' | None \<Rightarrow> [])"

subsection \<open>Accuracy\<close>

text \<open>The exact tempo of \<open>n\<close> intervals that take \<open>us\<close> microseconds.\<close>

definition exact_bpm :: "nat \<Rightarrow> nat \<Rightarrow> rat" where
  "exact_bpm n us = 60000000 * of_nat n / (24 * of_nat us)"

lemma normal_ge: "1 / 2 ^ 100 \<le> x \<Longrightarrow> normal x"
  by (simp add: normal_def)

lemma fl64_pow2: "k \<le> 100 \<Longrightarrow> fl64 (2 ^ k) = 2 ^ k"
  using fl_exact [of 1 52 11 "int k"] by (simp add: emin_64)

lemma fl64_half_pow: "k \<le> 100 \<Longrightarrow> fl64 (1 / 2 ^ k) = 1 / 2 ^ k"
  using fl_exact [of 1 52 11 "- int k"] by (simp add: emin_64 power_int_minus divide_inverse)

lemma bpm_approx:
  assumes "0 < n" and "n < 32" and "0 < us" and "us < 2 ^ 64"
  shows "approx 7 (fl64 (60000000 / fl64 (fl64 (fl64 (of_nat us) / fl64 (of_nat n)) * 24))) (exact_bpm n us)"
proof -
  define s a d where "s = fl64 (of_nat us)" and "a = fl64 (s / of_nat n)" and "d = fl64 (a * 24)"
  have n: "fl64 (of_nat n) = of_nat n" using assms by (intro fl_of_nat) (simp_all add: emin_64)
  have "(of_nat us :: rat) < of_nat (2 ^ 64)" using assms(4) by (simp only: of_nat_less_iff)
  then have "fl64 1 \<le> s" "s \<le> fl64 (2 ^ 64)" using assms(3) unfolding s_def by (intro fl_mono; simp)+
  then have s: "1 \<le> s" "s \<le> 2 ^ 64" using fl64_pow2 [of 64] by simp_all
  have lo: "1 / 2 ^ 5 \<le> s / of_nat n" using s(1) assms(1,2) by (simp add: field_simps)
  have hi: "s / of_nat n \<le> 2 ^ 64" using s assms(1) by (simp add: field_simps)
  have q: "normal (s / of_nat n)" by (rule normal_ge [OF order_trans [OF _ lo]]) simp
  have "fl64 (1 / 2 ^ 5) \<le> a" "a \<le> fl64 (2 ^ 64)" unfolding a_def by (intro fl_mono lo hi)+
  then have a: "1 / 2 ^ 5 \<le> a" "a \<le> 2 ^ 64" using fl64_pow2 [of 64] fl64_half_pow [of 5] by simp_all
  then have "fl64 (1 / 2 ^ 1) \<le> d" "d \<le> fl64 (2 ^ 69)" unfolding d_def by (intro fl_mono; simp)+
  then have d: "1 / 2 \<le> d" "d \<le> 2 ^ 69" using fl64_pow2 [of 69] fl64_half_pow [of 1] by simp_all
  have "approx 1 s (of_nat us)" using approx_fl [OF approx_exact [of "of_nat us"]] by (simp add: s_def)
  from approx_times [OF this, of "1 / of_nat n"] q have "approx 1 (s / of_nat n) (of_nat us / of_nat n)" by simp
  from approx_fl [OF this] have "approx 2 a (of_nat us / of_nat n)" by (simp add: a_def numeral_2_eq_2)
  from approx_times [OF this, of 24] a normal_ge [of "a * 24"]
  have "approx 2 (a * 24) (of_nat us / of_nat n * 24)" by simp
  from approx_fl [OF this] have 3: "approx 3 d (of_nat us / of_nat n * 24)" by (simp add: d_def numeral_3_eq_3)
  have "normal (60000000 / d)" using d by (intro normal_ge) (simp add: field_simps)
  from approx_fl [OF approx_quotient [OF 3 _ _ this]] assms(1,3) show ?thesis
    by (simp add: n s_def [symmetric] a_def [symmetric] d_def [symmetric] exact_bpm_def mult_ac)
qed

lemma approx_7: "approx 7 x y \<Longrightarrow> \<bar>x - y\<bar> \<le> y / 2 ^ 50"
proof -
  assume a: "approx 7 x y"
  have "1 - 1 / 2 ^ 50 \<le> (1 - unit_roundoff) ^ 7" "(1 + unit_roundoff) ^ 7 \<le> 1 + 1 / 2 ^ 50"
    by (simp_all add: power_divide)
  then have "y * (1 - 1 / 2 ^ 50) \<le> y * (1 - unit_roundoff) ^ 7" "y * (1 + unit_roundoff) ^ 7 \<le> y * (1 + 1 / 2 ^ 50)"
    using a unfolding approx_def by (intro mult_left_mono; blast)+
  with a have "y * (1 - 1 / 2 ^ 50) \<le> x" "x \<le> y * (1 + 1 / 2 ^ 50)" unfolding approx_def by linarith+
  then show ?thesis unfolding abs_le_iff by (simp add: algebra_simps)
qed

text \<open>
  C37: The tempo of the clock after any history of messages. With the last 24 tick times since the last Start, it is
  unknown when there are fewer than two or when the last is not later than the first, and otherwise within one part
  in \<open>2^50\<close> of the exact tempo of the intervals between them. A Stop and a Continue do not empty the window, so
  the time between them counts as time between ticks.
\<close>

theorem midi_clock_tempo:
  "(let ts = last_n 24 (ticks_since_start ms []) in
    case bpm (handle_all ms new_clock) of
      None \<Rightarrow> length ts < 2 \<or> last ts \<le> hd ts
    | Some b \<Rightarrow> 2 \<le> length ts \<and> hd ts < last ts \<and>
        \<bar>b - exact_bpm (length ts - 1) (unat (last ts) - unat (hd ts))\<bar>
          \<le> exact_bpm (length ts - 1) (unat (last ts) - unat (hd ts)) / 2 ^ 50)"
proof -
  define ts where "ts = last_n 24 (ticks_since_start ms [])"
  have ticks: "tick_timestamps (handle_all ms new_clock) = ts"
    using handle_all_state [of new_clock "[]" ms] by (simp add: new_clock_def last_n_def ts_def)
  have len: "length ts \<le> 24" by (simp add: ts_def)
  show ?thesis
  proof (cases "2 \<le> length ts \<and> hd ts < last ts")
    case False
    then have "bpm (handle_all ms new_clock) = None"
      by (auto simp: bpm_def ticks saturating_sub64_def Let_def not_less)
    with False show ?thesis by (auto simp: ts_def [symmetric] Let_def not_less)
  next
    case True
    define us where "us = unat (last ts) - unat (hd ts)"
    from True have "hd ts \<le> last ts" by (auto intro: order_less_imp_le)
    then have "unat (last ts - hd ts) = us" by (simp add: us_def unat_sub)
    moreover have "0 < us" using True by (simp add: us_def word_less_nat_alt)
    moreover have "us < 2 ^ 64" using unat_less_pow [of "last ts"] by (simp add: us_def)
    ultimately have us: "unat (last ts - hd ts) = us" "0 < us" "us < 2 ^ 64" .
    from approx_7 [OF bpm_approx [of "length ts - 1" us]] True len us(2,3)
    have "\<bar>fl64 (60000000 / fl64 (fl64 (fl64 (of_nat us) / fl64 (of_nat (length ts - 1))) * 24)) - exact_bpm (length ts - 1) us\<bar>
        \<le> exact_bpm (length ts - 1) us / 2 ^ 50" by simp
    moreover have "bpm (handle_all ms new_clock) =
        Some (fl64 (60000000 / fl64 (fl64 (fl64 (of_nat us) / fl64 (of_nat (length ts - 1))) * 24)))"
      using True us(1,2) by (auto simp: bpm_def ticks saturating_sub64_def Let_def simp del: of_nat_unat)
    ultimately show ?thesis using True by (simp add: ts_def [symmetric] us_def [symmetric] Let_def)
  qed
qed

end
