(* ===== verification/Core_Bridge.thy ===== *)
theory Core_Bridge
  imports Core_Types
begin

text \<open>
  The conversions to the types of the crate \<open>oxiaudio-core\<close> (\<open>crates/oxisound-core/src/oxiaudio_bridge.rs\<close>). That crate
  is not part of the repository: its channel identifiers are those that the code names and any other with the
  text of its \<open>Debug\<close>, and its channel map is the list of identifiers that \<open>new\<close> takes and \<open>iter\<close> gives.
\<close>

datatype audio_sample_format = A_F32 | A_I16 | A_I24 | A_I32 | A_U8 | A_F64

fun format_from_oxiaudio :: "audio_sample_format \<Rightarrow> sample_format" where
  "format_from_oxiaudio A_F32 = F32"
| "format_from_oxiaudio A_I16 = I16"
| "format_from_oxiaudio A_I24 = I24"
| "format_from_oxiaudio A_I32 = I32"
| "format_from_oxiaudio A_U8 = U8"
| "format_from_oxiaudio A_F64 = F64"

fun to_oxiaudio :: "sample_format \<Rightarrow> audio_sample_format" where
  "to_oxiaudio F32 = A_F32"
| "to_oxiaudio I16 = A_I16"
| "to_oxiaudio I24 = A_I24"
| "to_oxiaudio I32 = A_I32"
| "to_oxiaudio U8 = A_U8"
| "to_oxiaudio F64 = A_F64"

datatype channel_id = Id_FrontLeft | Id_FrontRight | Id_FrontCenter | Id_LowFrequency | Id_SideLeft
  | Id_SideRight | Id_RearLeft | Id_RearRight | Id_Other rstring

fun channel_to_id :: "channel \<Rightarrow> channel_id" where
  "channel_to_id FrontLeft = Id_FrontLeft"
| "channel_to_id FrontRight = Id_FrontRight"
| "channel_to_id Center = Id_FrontCenter"
| "channel_to_id Lfe = Id_LowFrequency"
| "channel_to_id SurroundLeft = Id_SideLeft"
| "channel_to_id SurroundRight = Id_SideRight"
| "channel_to_id BackLeft = Id_RearLeft"
| "channel_to_id BackRight = Id_RearRight"

fun id_to_channel :: "channel_id \<Rightarrow> (channel, oxi_error) result" where
  "id_to_channel Id_FrontLeft = Ok FrontLeft"
| "id_to_channel Id_FrontRight = Ok FrontRight"
| "id_to_channel Id_FrontCenter = Ok Center"
| "id_to_channel Id_LowFrequency = Ok Lfe"
| "id_to_channel Id_SideLeft = Ok SurroundLeft"
| "id_to_channel Id_SideRight = Ok SurroundRight"
| "id_to_channel Id_RearLeft = Ok BackLeft"
| "id_to_channel Id_RearRight = Ok BackRight"
| "id_to_channel (Id_Other nm) = Err (FormatMismatch [Lit ''oxiaudio_core::ChannelId::'', Str nm,
     Lit '' has no oxisound_core::Channel equivalent (height channel)''])"

definition routing_to_map :: "channel_routing \<Rightarrow> channel_id list" where
  "routing_to_map r = map (\<lambda>(ch, _). channel_to_id ch) (sort_key snd r)"

definition to_oxiaudio_channel_map :: "channel_routing \<Rightarrow> channel_id list" where
  "to_oxiaudio_channel_map r = routing_to_map r"

text \<open>\<open>enumerate\<close> from a first index, with \<open>collect\<close> into a result: the first error wins.\<close>

fun collect_channels :: "nat \<Rightarrow> channel_id list \<Rightarrow> (channel_routing, oxi_error) result" where
  "collect_channels idx [] = Ok []"
| "collect_channels idx (c # cs) =
     and_then (id_to_channel c) (\<lambda>ch. map_ok (Cons (ch, idx)) (collect_channels (idx + 1) cs))"

definition map_to_routing :: "channel_id list \<Rightarrow> (channel_routing, oxi_error) result" where
  "map_to_routing m = collect_channels 0 m"

subsection \<open>Round trips\<close>

lemma to_map_eq: "to_oxiaudio_channel_map r = map channel_to_id (map fst (sort_key snd r))"
  by (simp add: to_oxiaudio_channel_map_def routing_to_map_def case_prod_unfold)

lemma format_bijective: "format_from_oxiaudio (to_oxiaudio f) = f" "to_oxiaudio (format_from_oxiaudio g) = g"
  by (cases f; simp) (cases g; simp)

lemma id_of_channel [simp]: "id_to_channel (channel_to_id c) = Ok c"
  by (cases c) simp_all

lemma channel_of_id: "id_to_channel i = Ok c \<Longrightarrow> channel_to_id c = i"
  by (cases i) auto

lemma collect_mapped: "collect_channels idx (map channel_to_id cs) = Ok (zip cs [idx..<idx + length cs])"
  by (induction cs arbitrary: idx) (simp_all add: upt_conv_Cons del: upt_Suc)

lemma collect_ids:
  "collect_channels idx m = Ok r \<Longrightarrow> map snd r = [idx..<idx + length m] \<and> map (channel_to_id \<circ> fst) r = m"
proof (induction m arbitrary: idx r)
  case (Cons i m)
  then obtain c rest where "id_to_channel i = Ok c" "collect_channels (Suc idx) m = Ok rest" "r = (c, idx) # rest" by auto
  with Cons.IH [of "Suc idx" rest] channel_of_id show ?case by (simp add: upt_conv_Cons del: upt_Suc)
qed simp

lemma collect_fails:
  "collect_channels idx m = Err e \<Longrightarrow> list_ex (\<lambda>i. case i of Id_Other _ \<Rightarrow> True | _ \<Rightarrow> False) m"
proof (induction m arbitrary: idx)
  case (Cons i m)
  then show ?case by (cases "collect_channels (Suc idx) m"; cases i) auto
qed simp

lemma zip_fst_upt: "zip (map fst xs) [0..<length xs] = xs \<longleftrightarrow> map snd xs = [0..<length xs]"
  by (metis (no_types, lifting) length_map length_upt minus_nat.diff_0 map_snd_zip zip_map_fst_snd)

text \<open>
  The channel bridge loses the physical indices. A routing goes over to a map and back with its channels in the order of
  their physical index, but numbered from 0: it comes back as it was, up to that order, exactly when its indices are
  0, 1, 2 and so on. A map that converts comes back as it was, and one fails to convert exactly when it has an
  identifier without an equivalent.
\<close>

lemma bridge_roundtrip:
  "(let s = sort_key snd r in
    map_to_routing (to_oxiaudio_channel_map r) = Ok (zip (map fst s) [0..<length r]) \<and>
    (map_to_routing (to_oxiaudio_channel_map r) = Ok s) = (map snd s = [0..<length r])) \<and>
   (case map_to_routing m of
      Ok r' \<Rightarrow> to_oxiaudio_channel_map r' = m
    | Err e \<Rightarrow> list_ex (\<lambda>i. case i of Id_Other _ \<Rightarrow> True | _ \<Rightarrow> False) m
    | Panic \<Rightarrow> False)"
proof -
  let ?s = "sort_key snd r"
  have there: "map_to_routing (to_oxiaudio_channel_map r) = Ok (zip (map fst ?s) [0..<length r])"
    using collect_mapped [of 0 "map fst ?s"]
    by (simp add: map_to_routing_def to_map_eq)
  have returns: "case map_to_routing m of Ok r' \<Rightarrow> to_oxiaudio_channel_map r' = m
    | Err e \<Rightarrow> list_ex (\<lambda>i. case i of Id_Other _ \<Rightarrow> True | _ \<Rightarrow> False) m | Panic \<Rightarrow> False"
  proof (cases "map_to_routing m")
    case (Ok r')
    then have ids: "map snd r' = [0..<length m]" "map (channel_to_id \<circ> fst) r' = m"
      using collect_ids [of 0 m r'] by (simp_all add: map_to_routing_def)
    then have "sorted (map snd r')" by simp
    then have "sort_key snd r' = r'" by (rule sort_key_id_if_sorted)
    with Ok ids(2) show ?thesis by (simp add: to_map_eq comp_def)
  next
    case (Err e)
    with collect_fails show ?thesis by (auto simp: map_to_routing_def)
  next
    case Panic
    have "collect_channels k m \<noteq> Panic" for k
    proof (induction m arbitrary: k)
      case (Cons i m)
      from Cons [of "Suc k"] show ?case by (cases i) (auto simp: result_simps)
    qed simp
    with Panic show ?thesis by (simp add: map_to_routing_def)
  qed
  from there returns zip_fst_upt [of ?s] show ?thesis by (simp add: Let_def)
qed

end
