(* ===== verification/Jack_Ports.thy ===== *)
theory Jack_Ports
  imports Jack_Stream
begin

text \<open>
  The methods of the JACK streams (\<open>crates/oxisound-jack/src/client.rs\<close>) on the client that they keep: metrics, the
  listing of ports and connections. The client is an argument: \<open>ports\<close> is its query for ports, \<open>connect\<close> its
  \<open>connect_ports_by_name\<close>, whose laws are the locale \<open>patchbay\<close>.
\<close>

datatype port_flags = Any_Port | Is_Input | Is_Output

type_synonym port_query = "rstring option \<Rightarrow> port_flags \<Rightarrow> rstring list"

definition list_ports :: "port_query \<Rightarrow> rstring list" where
  "list_ports ports = ports None Any_Port"

definition list_input_ports :: "port_query \<Rightarrow> rstring option \<Rightarrow> rstring list" where
  "list_input_ports ports pattern = ports pattern Is_Input"

definition list_output_ports :: "port_query \<Rightarrow> rstring option \<Rightarrow> rstring list" where
  "list_output_ports ports pattern = ports pattern Is_Output"

definition current_sample_rate :: "jack_metrics \<Rightarrow> 32 word" where "current_sample_rate m = jm_sample_rate m"
definition xrun_count :: "jack_metrics \<Rightarrow> 64 word" where "xrun_count m = jm_xrun_count m"
definition current_buffer_size :: "jack_metrics \<Rightarrow> 32 word" where "current_buffer_size m = jm_buffer_size m"

text \<open>\<open>auto_connect\<close> of an output stream and of an input stream with its query for the ports of the system.\<close>

definition output_auto_connect :: "(rstring \<Rightarrow> rstring \<Rightarrow> 'c \<Rightarrow> connect_result \<times> 'c) \<Rightarrow> port_query \<Rightarrow> rstring
    \<Rightarrow> 'c \<Rightarrow> (unit, oxi_error) result \<times> msg list \<times> 'c" where
  "output_auto_connect connect ports client c =
     auto_connect_output connect client (ports (Some (str_lit ''system:playback_'')) Is_Input) c"

definition input_auto_connect :: "(rstring \<Rightarrow> rstring \<Rightarrow> 'c \<Rightarrow> connect_result \<times> 'c) \<Rightarrow> port_query \<Rightarrow> rstring
    \<Rightarrow> 'c \<Rightarrow> (unit, oxi_error) result \<times> msg list \<times> 'c" where
  "input_auto_connect connect ports client c =
     auto_connect_input connect client (ports (Some (str_lit ''system:capture_'')) Is_Output) c"

subsection \<open>The server\<close>

locale patchbay =
  fixes connect :: "rstring \<Rightarrow> rstring \<Rightarrow> 'c \<Rightarrow> connect_result \<times> 'c"
    and edges :: "'c \<Rightarrow> (rstring \<times> rstring) set"
    and linkable :: "rstring \<times> rstring \<Rightarrow> bool"
  assumes fresh_edge: "linkable (src, dst) \<Longrightarrow> (src, dst) \<notin> edges c \<Longrightarrow>
      fst (connect src dst c) = Connected \<and> edges (snd (connect src dst c)) = insert (src, dst) (edges c)"
    and old_edge: "(src, dst) \<in> edges c \<Longrightarrow> connect src dst c = (AlreadyConnected, c)"
    and no_edge: "\<not> linkable (src, dst) \<Longrightarrow> (src, dst) \<notin> edges c \<Longrightarrow> \<exists>e. connect src dst c = (ConnectFailed e, c)"
begin

lemma connect_edges: "edges (snd (connect src dst c)) = edges c \<union> {e \<in> {(src, dst)}. linkable e}"
  using fresh_edge [of src dst c] old_edge [of src dst c] no_edge [of src dst c]
  by (cases "(src, dst) \<in> edges c"; cases "linkable (src, dst)") auto

lemma connect_fails: "(case fst (connect src dst c) of ConnectFailed e \<Rightarrow> True | _ \<Rightarrow> False) = (\<not> linkable (src, dst) \<and> (src, dst) \<notin> edges c)"
proof (cases "(src, dst) \<in> edges c")
  case True
  then show ?thesis by (simp add: old_edge)
next
  case False
  then show ?thesis using fresh_edge [of src dst c] no_edge [of src dst c] by (cases "linkable (src, dst)") auto
qed

lemma connect_ports_ok:
  "is_ok (fst (connect_ports connect src dst c)) = (linkable (src, dst) \<or> (src, dst) \<in> edges c) \<and>
   edges (snd (connect_ports connect src dst c)) = edges c \<union> {e \<in> {(src, dst)}. linkable e}"
proof -
  obtain r c' where rc: "connect src dst c = (r, c')" by fastforce
  then show ?thesis
    using connect_fails [of src dst c] connect_edges [of src dst c] by (cases r) (simp_all add: connect_ports_def)
qed

lemma loop_edges:
  "edges (snd (auto_connect_loop connect es c)) = edges c \<union> {e \<in> set es. linkable e} \<and>
   length (fst (auto_connect_loop connect es c)) = length (filter (\<lambda>e. \<not> linkable e \<and> e \<notin> edges c) es)"
proof (induction es arbitrary: c)
  case (Cons e es)
  obtain src dst where e: "e = (src, dst)" by fastforce
  obtain r c' where rc: "connect src dst c = (r, c')" by fastforce
  have edges: "edges c' = edges c \<union> {e \<in> {(src, dst)}. linkable e}" using connect_edges [of src dst c] rc by simp
  have same: "filter (\<lambda>x. \<not> linkable x \<and> x \<notin> edges c') es = filter (\<lambda>x. \<not> linkable x \<and> x \<notin> edges c) es"
    unfolding edges by (intro filter_cong) auto
  have fails: "(case r of ConnectFailed e \<Rightarrow> True | _ \<Rightarrow> False) = (\<not> linkable (src, dst) \<and> (src, dst) \<notin> edges c)"
    using connect_fails [of src dst c] rc by simp
  have "edges (snd (auto_connect_loop connect (e # es) c)) = edges (snd (auto_connect_loop connect es c'))"
    and "length (fst (auto_connect_loop connect (e # es) c)) =
      length (fst (auto_connect_loop connect es c')) + (if \<not> linkable (src, dst) \<and> (src, dst) \<notin> edges c then 1 else 0)"
    using fails by (cases r; simp add: e rc case_prod_beta)+
  then show ?case using Cons.IH [of c'] edges same by (auto simp: e)
qed simp

end

text \<open>A server that knows its outputs and inputs.\<close>

definition plain_connect :: "rstring list \<Rightarrow> rstring list \<Rightarrow> rstring \<Rightarrow> rstring \<Rightarrow> (rstring \<times> rstring) list
    \<Rightarrow> connect_result \<times> (rstring \<times> rstring) list" where
  "plain_connect outs ins src dst c =
     (if (src, dst) \<in> set c then (AlreadyConnected, c)
      else if src \<in> set outs \<and> dst \<in> set ins then (Connected, (src, dst) # c)
      else (ConnectFailed (str_lit ''no such port''), c))"

interpretation plain: patchbay "plain_connect outs ins" set "\<lambda>(src, dst). src \<in> set outs \<and> dst \<in> set ins" for outs ins
  by unfold_locales (auto simp: plain_connect_def)

text \<open>
  Connecting an output stream never fails, connects its port with those of the first two playback ports that can be
  connected and logs one warning for each other one; doing it again changes nothing.
\<close>

lemma output_auto_connect_spec:
  assumes "patchbay connect edges linkable"
  shows "case output_auto_connect connect ports client c of (r, warnings, c') \<Rightarrow>
    (let own = map (Pair (port_path client (str_lit ''out''))) (take 2 (ports (Some (str_lit ''system:playback_'')) Is_Input)) in
     r = Ok () \<and> edges c' = edges c \<union> {e \<in> set own. linkable e} \<and>
     length warnings = length (filter (\<lambda>e. \<not> linkable e \<and> e \<notin> edges c) own) \<and>
     edges (snd (snd (output_auto_connect connect ports client c'))) = edges c')"
  using patchbay.loop_edges [OF assms]
  by (auto simp: output_auto_connect_def auto_connect_output_def Let_def case_prod_beta)

end
