(* ===== verification/Stubs.thy ===== *)
theory Stubs
  imports Facade_Reconnect Jack_Stream
begin

text \<open>
  The stubs that are compiled where a backend is missing: \<open>crates/oxisound-pulse/src/stub.rs\<close> off Linux and the module
  \<open>stub\<close> of \<open>crates/oxisound-jack/src/lib.rs\<close> without the feature \<open>jack-backend\<close>. A program can call a
  method only on a handle that it has; the handles come from the constructors. Some methods have the body
  \<open>unreachable!\<close>, which panics.
\<close>

datatype 'k stub_value = Made 'k | Number nat | Flag bool | Names "rstring list" | Api host_api
  | Info "device_info option" | Statistics stream_stats | Transport transport_state | Frame "64 word transport_position"

subsection \<open>PulseAudio off Linux\<close>

datatype pulse_kind = P_Device | P_Output | P_Input | P_Duplex

datatype pulse_device_call = PD_open_default | PD_open_named | PD_enumerate_details | PD_enumerate_all_as
  | PD_enumerate_output | PD_enumerate_input | PD_enumerate | PD_default_output | PD_default_input
  | PD_descriptor | PD_device_info | PD_host_api | PD_open_output_concrete | PD_open_input_concrete
  | PD_open_duplex_concrete | PD_open_output | PD_open_input | PD_open_duplex | PD_negotiate_output

datatype pulse_output_call = PO_negotiated | PO_wire_format | PO_requested_buffer_attrs | PO_ring_capacity_bytes
  | PO_latency_frames | PO_underrun_count | PO_is_disconnected | PO_channel | PO_flush | PO_drain
  | PO_discard_buffered | PO_pause | PO_resume | PO_write | PO_stats

datatype pulse_input_call = PI_negotiated | PI_wire_format | PI_requested_buffer_attrs | PI_ring_capacity_bytes
  | PI_latency_frames | PI_overrun_count | PI_is_disconnected | PI_channel
  | PI_discard_buffered | PI_pause | PI_resume | PI_read | PI_stats

datatype pulse_duplex_call = PX_output_latency_frames | PX_input_latency_frames | PX_roundtrip_latency_frames
  | PX_is_disconnected | PX_write | PX_read | PX_stats

datatype pulse_stub_call = Of_Device pulse_device_call | Of_Output pulse_output_call | Of_Input pulse_input_call
  | Of_Duplex pulse_duplex_call

definition PULSE_STUB_MSG :: msg where
  "PULSE_STUB_MSG = [Lit ''oxisound-pulse speaks the PulseAudio native protocol, which is only available on Linux (pulseaudio, or pipewire-pulse). This target compiles the Pure-Rust stub, where every constructor returns Unsupported.'']"

definition pulse_unsupported :: "('a, oxi_error) result" where
  "pulse_unsupported = Err (Unsupported PULSE_STUB_MSG)"

fun pulse_device_stub :: "pulse_device_call \<Rightarrow> (pulse_kind stub_value, oxi_error) result" where
  "pulse_device_stub PD_descriptor = Panic"
| "pulse_device_stub PD_device_info = Ok (Info None)"
| "pulse_device_stub PD_host_api = Ok (Api PulseAudio)"
| "pulse_device_stub _ = pulse_unsupported"

fun pulse_output_stub :: "pulse_output_call \<Rightarrow> (pulse_kind stub_value, oxi_error) result" where
  "pulse_output_stub PO_negotiated = Panic"
| "pulse_output_stub PO_wire_format = Panic"
| "pulse_output_stub PO_requested_buffer_attrs = Panic"
| "pulse_output_stub PO_ring_capacity_bytes = Ok (Number 0)"
| "pulse_output_stub PO_latency_frames = Ok (Number 0)"
| "pulse_output_stub PO_underrun_count = Ok (Number 0)"
| "pulse_output_stub PO_is_disconnected = Ok (Flag True)"
| "pulse_output_stub PO_channel = Ok (Number 0)"
| "pulse_output_stub PO_stats = Ok (Statistics stream_stats_default)"
| "pulse_output_stub _ = pulse_unsupported"

fun pulse_input_stub :: "pulse_input_call \<Rightarrow> (pulse_kind stub_value, oxi_error) result" where
  "pulse_input_stub PI_negotiated = Panic"
| "pulse_input_stub PI_wire_format = Panic"
| "pulse_input_stub PI_requested_buffer_attrs = Panic"
| "pulse_input_stub PI_ring_capacity_bytes = Ok (Number 0)"
| "pulse_input_stub PI_latency_frames = Ok (Number 0)"
| "pulse_input_stub PI_overrun_count = Ok (Number 0)"
| "pulse_input_stub PI_is_disconnected = Ok (Flag True)"
| "pulse_input_stub PI_channel = Ok (Number 0)"
| "pulse_input_stub PI_stats = Ok (Statistics stream_stats_default)"
| "pulse_input_stub _ = pulse_unsupported"

fun pulse_duplex_stub :: "pulse_duplex_call \<Rightarrow> (pulse_kind stub_value, oxi_error) result" where
  "pulse_duplex_stub PX_output_latency_frames = Ok (Number 0)"
| "pulse_duplex_stub PX_input_latency_frames = Ok (Number 0)"
| "pulse_duplex_stub PX_roundtrip_latency_frames = Ok (Number 0)"
| "pulse_duplex_stub PX_is_disconnected = Ok (Flag True)"
| "pulse_duplex_stub PX_stats = Ok (Statistics stream_stats_default)"
| "pulse_duplex_stub _ = pulse_unsupported"

fun pulse_stub :: "pulse_stub_call \<Rightarrow> (pulse_kind stub_value, oxi_error) result" where
  "pulse_stub (Of_Device c) = pulse_device_stub c"
| "pulse_stub (Of_Output c) = pulse_output_stub c"
| "pulse_stub (Of_Input c) = pulse_input_stub c"
| "pulse_stub (Of_Duplex c) = pulse_duplex_stub c"

text \<open>The handle that a call needs: the associated functions of a device need none.\<close>

fun pulse_receiver :: "pulse_stub_call \<Rightarrow> pulse_kind option" where
  "pulse_receiver (Of_Device c) =
     (if c \<in> {PD_open_default, PD_open_named, PD_enumerate_details, PD_enumerate_all_as, PD_enumerate_output,
        PD_enumerate_input, PD_enumerate, PD_default_output, PD_default_input} then None else Some P_Device)"
| "pulse_receiver (Of_Output c) = Some P_Output"
| "pulse_receiver (Of_Input c) = Some P_Input"
| "pulse_receiver (Of_Duplex c) = Some P_Duplex"

subsection \<open>JACK without the feature\<close>

datatype jack_kind = J_Device | J_Output | J_Input | J_Callback

datatype jack_device_call = JD_new | JD_sample_rate | JD_buffer_size | JD_open_output | JD_open_input
  | JD_open_output_callback | JD_connect_ports | JD_auto_connect_output | JD_transport_state
  | JD_transport_position | JD_set_freewheel

text \<open>The calls of all three streams; \<open>write\<close> is of the output and \<open>read\<close> of the input stream.\<close>

datatype jack_stream_call = JS_write | JS_read | JS_stats | JS_connect_ports | JS_auto_connect | JS_cpu_load
  | JS_list_ports | JS_list_input_ports | JS_list_output_ports | JS_current_sample_rate | JS_xrun_count
  | JS_current_buffer_size

datatype jack_stub_call = J_Of_Device jack_device_call | J_Of_Stream jack_kind jack_stream_call

definition JACK_STUB_MSG :: msg where
  "JACK_STUB_MSG = [Lit ''oxisound-jack was built without the `jack-backend` feature. Enable it to link libjack2.'']"

fun jack_device_stub :: "jack_device_call \<Rightarrow> (jack_kind stub_value, oxi_error) result" where
  "jack_device_stub JD_sample_rate = Ok (Number 0)"
| "jack_device_stub JD_buffer_size = Ok (Number 0)"
| "jack_device_stub JD_transport_state = Ok (Transport Stopped)"
| "jack_device_stub JD_transport_position = Ok (Frame \<lparr>tp_frame = 0, tp_bpm = None\<rparr>)"
| "jack_device_stub JD_set_freewheel = Err (Unsupported [Lit ''JACK freewheel is not available in the jack 0.13.5 safe API (upstream TODO). Track: https://github.com/RustAudio/rust-jack/issues''])"
| "jack_device_stub _ = Err (Unsupported JACK_STUB_MSG)"

fun jack_stream_stub :: "jack_stream_call \<Rightarrow> (jack_kind stub_value, oxi_error) result" where
  "jack_stream_stub JS_stats = Ok (Statistics stream_stats_default)"
| "jack_stream_stub JS_cpu_load = Ok (Number 0)"
| "jack_stream_stub JS_list_ports = Ok (Names [])"
| "jack_stream_stub JS_list_input_ports = Ok (Names [])"
| "jack_stream_stub JS_list_output_ports = Ok (Names [])"
| "jack_stream_stub JS_current_sample_rate = Ok (Number 0)"
| "jack_stream_stub JS_xrun_count = Ok (Number 0)"
| "jack_stream_stub JS_current_buffer_size = Ok (Number 0)"
| "jack_stream_stub _ = Err (Unsupported JACK_STUB_MSG)"

fun jack_stub :: "jack_stub_call \<Rightarrow> (jack_kind stub_value, oxi_error) result" where
  "jack_stub (J_Of_Device c) = jack_device_stub c"
| "jack_stub (J_Of_Stream k c) = jack_stream_stub c"

fun jack_receiver :: "jack_stub_call \<Rightarrow> jack_kind option" where
  "jack_receiver (J_Of_Device c) = (if c = JD_new then None else Some J_Device)"
| "jack_receiver (J_Of_Stream k c) = Some k"

subsection \<open>Programs\<close>

text \<open>
  A program is a list of calls. A call whose handle the program does not have cannot be written; the others are made, and a handle
  that one gives is held from then on.
\<close>

fun stub_run :: "('c \<Rightarrow> 'k option) \<Rightarrow> ('c \<Rightarrow> ('k stub_value, oxi_error) result) \<Rightarrow> 'c list \<Rightarrow> 'k set
    \<Rightarrow> ('k stub_value, oxi_error) result list \<times> 'k set" where
  "stub_run receiver call [] held = ([], held)"
| "stub_run receiver call (c # cs) held =
     (if (case receiver c of None \<Rightarrow> True | Some k \<Rightarrow> k \<in> held)
      then let held' = (case call c of Ok (Made k) \<Rightarrow> insert k held | _ \<Rightarrow> held);
               (rs, final) = stub_run receiver call cs held'
        in (call c # rs, final)
      else stub_run receiver call cs held)"

locale refusing_stub =
  fixes receiver :: "'c \<Rightarrow> 'k option" and call :: "'c \<Rightarrow> ('k stub_value, oxi_error) result" and message :: msg
  assumes constructors_refuse: "receiver c = None \<Longrightarrow> call c = Err (Unsupported message)"
begin

lemma run_refuses:
  "snd (stub_run receiver call cs {}) = {} \<and> list_all (\<lambda>r. r = Err (Unsupported message)) (fst (stub_run receiver call cs {}))"
proof (induction cs)
  case (Cons c cs)
  then show ?case
    by (cases "receiver c") (simp_all add: constructors_refuse case_prod_beta)
qed simp

end

interpretation pulse: refusing_stub pulse_receiver pulse_stub PULSE_STUB_MSG
proof
  fix c
  assume "pulse_receiver c = None"
  then show "pulse_stub c = Err (Unsupported PULSE_STUB_MSG)"
    by (cases c) (auto simp: pulse_unsupported_def split: if_splits)
qed

interpretation jack: refusing_stub jack_receiver jack_stub JACK_STUB_MSG
proof
  fix c
  assume "jack_receiver c = None"
  then show "jack_stub c = Err (Unsupported JACK_STUB_MSG)" by (cases c) (auto split: if_splits)
qed

text \<open>
  A program against a stub gets no handle and no panic. Whatever calls it makes, each that it can make is refused with the
  message of the stub: the methods that panic or that give made-up values are never reached.
\<close>

lemma stubs_refuse:
  "snd (stub_run pulse_receiver pulse_stub cs {}) = {} \<and>
   list_all (\<lambda>r. r = Err (Unsupported PULSE_STUB_MSG)) (fst (stub_run pulse_receiver pulse_stub cs {})) \<and>
   snd (stub_run jack_receiver jack_stub ds {}) = {} \<and>
   list_all (\<lambda>r. r = Err (Unsupported JACK_STUB_MSG)) (fst (stub_run jack_receiver jack_stub ds {}))"
  using pulse.run_refuses jack.run_refuses by blast

end
