(* ===== verification/Spec2Isabelle.thy ===== *)
theory Spec2Isabelle
  imports Osc_Roundtrip Smf_Safety Core_Routing Core_Select Jack_Midi Cpal_Recovery Pulse_Device Pulse_Wakeup
    Cpal_Pump Facade_Tones Facade_Midi Facade_Events Poll_Thread Cpal_Handle Facade_Reconnect Osc_Transport Session Core_Clock Core_Bridge Jack_Ports Stubs
begin

text \<open>
  OxiSound is a Rust workspace for audio input and output, MIDI and two wire formats. Its crates
  under \<open>src/crates/\<close> are modelled in the theories below, one group of definitions per source file,
  in the order of the code and with its names; a name that Isabelle reserves or that two crates
  share has a prefix.

  How the parts interact. An application opens a device of a backend crate (\<open>oxisound-cpal\<close>,
  \<open>oxisound-jack\<close>, \<open>oxisound-pulse\<close>) with a configuration of \<open>oxisound-core\<close>. The stream it gets shares a
  single-producer single-consumer queue and some atomic counters with an audio callback that
  the backend runs on another thread. MIDI messages of \<open>oxisound-core\<close> travel through the same
  kind of queue in \<open>oxisound-jack\<close>; \<open>oxisound-osc\<close> and \<open>oxisound-smf\<close> read and write packets and files.

  Conventions (\<open>Prelude\<close>). A fallible function returns a \<open>result\<close>: \<open>Ok\<close>, \<open>Err\<close> with a value of
  the crate's error type, or \<open>Panic\<close> for an index out of range or an arithmetic overflow, which the debug
  profile checks. Machine integers are words, \<open>usize\<close> is a natural number whose maximum \<open>um\<close> is an
  argument where it can be reached. Slices are lists. Mutable state is a record that each operation
  takes and returns. Error messages are lists of their pieces. Floats are bit patterns; code that
  computes with them uses the rounded operations of \<open>Ieee_Ops\<close>. Code outside the repository (\<open>cpal\<close>, \<open>jack\<close>, \<open>ringbuf\<close>, PulseAudio, the operating system) is an argument.

  Theories and what they show.

  \<^item> \<open>Utf8\<close>, \<open>Wire\<close>: validity of UTF-8; reading from a slice at an offset; the locale
    \<open>offset_codec\<close> of a writer with the reader that undoes it.
  \<^item> \<open>Osc_Encode\<close>, \<open>Osc_Decode\<close>, \<open>Osc_Roundtrip\<close>, \<open>Osc_Transport\<close> (\<open>oxisound-osc\<close>: \<open>lib.rs\<close>, \<open>encode.rs\<close>,
    \<open>decode.rs\<close>, \<open>client.rs\<close>, \<open>server.rs\<close>): round trip, no panic on any slice that can exist, the shape of accepted packets, the
    nesting limit, and what a receiver gets over a network that loses, repeats and reorders (the locale
    \<open>datagram_socket\<close>). The recursion of the decoder is on its own depth argument, which the code
    bounds by 32; no fuel is added.
  \<^item> \<open>Smf_Types\<close>, \<open>Smf_Parser\<close>, \<open>Smf_Writer\<close>, \<open>Smf_Vlq\<close>, \<open>Smf_Roundtrip\<close>, \<open>Smf_Safety\<close>,
    \<open>Smf_Timing\<close>, \<open>Smf_Accuracy\<close>, \<open>Smf_Player\<close>
    (\<open>oxisound-smf\<close>: \<open>lib.rs\<close>, \<open>parser.rs\<close>, \<open>writer.rs\<close>, \<open>timing.rs\<close>, \<open>player.rs\<close>): round trip, panics of the writer, absence of panics of
    the parser on 64-bit targets and an overflow on 32-bit ones, two divisions and events that
    do not survive; the error of the tempo map; merging and playback of the tracks.
  \<^item> \<open>Core_Types\<close>, \<open>Core_Routing\<close>, \<open>Core_Select\<close>, \<open>Core_Midi\<close>, \<open>Core_Clock\<close>, \<open>Core_Bridge\<close> (\<open>oxisound-core/src/lib.rs\<close>,
    \<open>oxiaudio_bridge.rs\<close>):
    configurations, builders, validation, errors; channel routing against what each sample
    becomes; the \<open>DeviceSelector\<close> trait as a locale with its implementations as
    interpretations; MIDI messages, the clock after any history and the accuracy of its tempo; what the bridge
    to another project keeps of a routing.
  \<^item> \<open>Ring\<close>: the queue of the crate \<open>ringbuf\<close> as a record of operations with its documented laws as
    the locale \<open>ring\<close>; its allocation, which panics beyond \<open>isize::MAX\<close> bytes; the loops that callbacks run over it; the bounded queue \<open>fifo\<close>, which is the
    specification of the laws and the queue of the witnesses.
  \<^item> \<open>Jack_Sysex\<close>, \<open>Jack_Midi\<close>, \<open>Jack_Stream\<close>, \<open>Jack_Ports\<close> (\<open>oxisound-jack\<close>: \<open>midi_util.rs\<close>, \<open>midi.rs\<close>,
    \<open>metrics.rs\<close>, \<open>client.rs\<close>): reassembly of System Exclusive messages whatever the chunks, a message through both
    ports and a JACK port between them that may refuse writes, what each write and cycle of an audio stream takes, plays and counts. The loops that empty a queue are \<open>partial_function\<close>s;
    the theorems show that they end.
  \<^item> \<open>Midi_Io\<close> (\<open>oxisound-midi/src/lib.rs\<close>): devices, ports and messages over the crate \<open>midir\<close>.
  \<^item> \<open>Cpal_Adaptive\<close>, \<open>Cpal_Stream\<close>, \<open>Cpal_Handle\<close>, \<open>Cpal_Device\<close>, \<open>Cpal_Open\<close>, \<open>Cpal_Recovery\<close>, \<open>Cpal_Pump\<close>, \<open>Cpal_Callback\<close>
    (\<open>oxisound-cpal\<close>: \<open>adaptive.rs\<close>, \<open>streams.rs\<close>, \<open>stream_builders.rs\<close>, \<open>error.rs\<close>,
    \<open>config_helpers.rs\<close>, \<open>device.rs\<close>, \<open>bounded_open.rs\<close>, \<open>recovery.rs\<close>, \<open>watcher.rs\<close>, \<open>callback.rs\<close>, \<open>async_streams.rs\<close>): the adaptive sizer, runs of
    a stream, what its adaptive ticks recommend, enumeration, negotiation, bounded opening, the reconnecting thread as a step relation with its
    invariant and its race, the hot-plug watcher, the drift-corrected pump of a duplex stream, and the streams without a queue.
  \<^item> \<open>Ieee\<close>, \<open>Ieee_Order\<close>, \<open>Ieee_Ops\<close>, \<open>Ieee_Approx\<close>: floats of both widths as bit patterns, their values as dyadic rationals, correctly rounded
    results, their monotonicity, the error after several roundings, the arithmetic on them and the saturating casts, all executable.
  \<^item> \<open>Pulse_Format\<close>, \<open>Pulse_Model\<close>, \<open>Pulse_Env\<close>, \<open>Pulse_Conn\<close>, \<open>Pulse_Stream\<close>, \<open>Pulse_Runs\<close>,
    \<open>Pulse_Device\<close>, \<open>Pulse_Wakeup\<close> (\<open>oxisound-pulse\<close>: \<open>format.rs\<close>, \<open>model.rs\<close>, \<open>env.rs\<close>, \<open>timeout.rs\<close>,
    \<open>linux/conn.rs\<close>, \<open>linux/stream.rs\<close>, \<open>linux/device.rs\<close>): what the wire formats lose of a sample; the
    search for the server; waiting with a deadline; opening; playback and capture against queues of bytes; the wake-up protocol of handle and reactor as a
    step relation on their atomic accesses. \<open>flush\<close> polls with a fuel of 2001 checks, one per millisecond of its time limit.
  \<^item> \<open>Facade_Tones\<close>, \<open>Facade_Midi\<close>, \<open>Facade_Devices\<close>, \<open>Facade_Events\<close>, \<open>Poll_Thread\<close>, \<open>Facade_Reconnect\<close> (\<open>oxisound/src/lib.rs\<close>): test signals, playing a file, the entry
    points over the backends, selection by index, device events from the watcher to the listener, the threads that poll
    for them and how dropping their handle ends them, the output that reconnects.
  \<^item> \<open>Session\<close> (\<open>oxisound-session/src/\<close> and its callers in the facade): the dispatch on target and features, the wait for a permission.
  \<^item> \<open>Stubs\<close> (\<open>oxisound-pulse/src/stub.rs\<close>, the module \<open>stub\<close> of \<open>oxisound-jack\<close>): programs against a stub get no handle and reach no panic.

  Calls of different threads on the same state are steps that do not overlap: a write, a callback or an error
  report is one step, and a run is any sequence of them. The reconnecting thread, the
  polling threads and the PulseAudio reactor are also modelled at the granularity of their accesses to shared variables.

  Accessors that return a field of a handle are the selectors of its record. Not modelled: load percentages and the text of floats, which are arguments; logging; sockets, threads and
  operating-system calls as such, whose answers are arguments. The manifest lists them with reasons.
\<close>

end
